(* ===== verification/Prelude.thy ===== *)
theory Prelude
  imports Main "HOL-Library.Word" "HOL-Library.AList"
begin

text \<open>
  What every theory of the development shares: the collections of rewrite rules, Go's
  \<open>error\<close> values and \<open>(T, error)\<close> results, 64-bit signed arithmetic, \<open>time.Time\<close> and
  \<open>time.Duration\<close>, and generic facts on lists and maps that the component theories use.
\<close>

named_theorems go_simps \<open>unfolding rules of the Go library model\<close>
named_theorems result_simps \<open>case analysis of results\<close>

section \<open>Errors and results\<close>

text \<open>
  A sentinel (\<^verbatim>\<open>var ErrX = errors.New(..)\<close>) is compared by identity, a plain message is never
  compared, \<^verbatim>\<open>fmt.Errorf("p: %w", err)\<close> wraps.
\<close>

datatype go_error =
    Sentinel string
  | Msg string
  | Wrap string go_error

fun errors_is :: "go_error \<Rightarrow> go_error \<Rightarrow> bool" where
  "errors_is (Sentinel s) t = (t = Sentinel s)"
| "errors_is (Msg _) _ = False"
| "errors_is (Wrap _ e) t = errors_is e t"

fun err_text :: "go_error \<Rightarrow> string" where
  "err_text (Sentinel s) = s"
| "err_text (Msg s) = s"
| "err_text (Wrap p e) = p @ '': '' @ err_text e"

type_synonym 'a result = "go_error + 'a"

definition is_ok :: "'a result \<Rightarrow> bool" where
  "is_ok r = (case r of Inl _ \<Rightarrow> False | Inr _ \<Rightarrow> True)"

lemma is_ok_simps [simp, result_simps]: "\<not> is_ok (Inl e)" "is_ok (Inr x)"
  by (simp_all add: is_ok_def)

lemma is_okE [elim]: "is_ok r \<Longrightarrow> (\<And>x. r = Inr x \<Longrightarrow> P) \<Longrightarrow> P"
  by (cases r) auto

text \<open>The chain of \<^verbatim>\<open>if err != nil { return .., fmt.Errorf("p: %w", err) }\<close> steps of a set-up function.\<close>

definition wrap_err :: "string \<Rightarrow> 'a result \<Rightarrow> 'a result" where
  "wrap_err p r = (case r of Inl e \<Rightarrow> Inl (Wrap p e) | Inr x \<Rightarrow> Inr x)"

definition and_then :: "'a result \<Rightarrow> ('a \<Rightarrow> 'b result) \<Rightarrow> 'b result" where
  "and_then r k = (case r of Inl e \<Rightarrow> Inl e | Inr x \<Rightarrow> k x)"

lemma wrap_err_simps [simp, result_simps]: "wrap_err p (Inl e) = Inl (Wrap p e)" "wrap_err p (Inr x) = Inr x"
  by (simp_all add: wrap_err_def)

lemma and_then_simps [simp, result_simps]: "and_then (Inl e) k = Inl e" "and_then (Inr x) k = k x"
  by (simp_all add: and_then_def)

lemma wrap_err_Inr [simp, result_simps]: "wrap_err p r = Inr x \<longleftrightarrow> r = Inr x"
  by (cases r) auto

lemma and_then_Inr [result_simps]: "and_then r k = Inr y \<longleftrightarrow> (\<exists>x. r = Inr x \<and> k x = Inr y)"
  by (cases r) auto

section \<open>Signed 64-bit integers, time and durations\<close>

text \<open>
  \<^verbatim>\<open>time.Duration\<close> is an \<^verbatim>\<open>int64\<close> count of nanoseconds. Its values are modelled as \<^typ>\<open>int\<close>; every
  operation of the source that can leave the range is written with \<open>wrap64\<close> (two's complement
  wrap-around) or, where the library saturates (\<^verbatim>\<open>Time.Sub\<close>), with \<open>sat64\<close>.
\<close>

type_synonym duration = int
type_synonym time = int

definition min_int64 :: int where "min_int64 = - (2 ^ 63)"
definition max_int64 :: int where "max_int64 = 2 ^ 63 - 1"

definition in_int64 :: "int \<Rightarrow> bool" where
  "in_int64 x \<longleftrightarrow> min_int64 \<le> x \<and> x \<le> max_int64"

definition wrap64 :: "int \<Rightarrow> int" where
  "wrap64 x = (x + 2 ^ 63) mod 2 ^ 64 - 2 ^ 63"

definition sat64 :: "int \<Rightarrow> int" where
  "sat64 x = max min_int64 (min max_int64 x)"

lemmas int64_defs = min_int64_def max_int64_def in_int64_def

lemma wrap64_in_range [simp]: "in_int64 (wrap64 x)"
proof -
  have "0 \<le> (x + 2 ^ 63) mod (2 ^ 64 :: int)" "(x + 2 ^ 63) mod (2 ^ 64 :: int) < 2 ^ 64"
    by simp_all
  then show ?thesis by (simp add: wrap64_def int64_defs)
qed

lemma wrap64_id: "in_int64 x \<Longrightarrow> wrap64 x = x"
  by (simp add: wrap64_def int64_defs)

lemma sat64_in_range [simp]: "in_int64 (sat64 x)"
  by (simp add: sat64_def int64_defs)

lemma sat64_id: "in_int64 x \<Longrightarrow> sat64 x = x"
  by (simp add: sat64_def in_int64_def)

lemma sat64_mono: "x \<le> y \<Longrightarrow> sat64 x \<le> sat64 y"
  by (simp add: sat64_def)

lemma wrap64_eq_sint: "wrap64 x = sint (word_of_int x :: 64 word)"
proof -
  have "sint (word_of_int x :: 64 word) = signed_take_bit 63 x"
    by (simp add: sint_sbintrunc')
  also have "\<dots> = (x + 2 ^ 63) mod 2 ^ 64 - 2 ^ 63"
    by (simp add: signed_take_bit_eq_take_bit_shift take_bit_eq_mod)
  finally show ?thesis by (simp add: wrap64_def)
qed

definition nanosecond :: duration where "nanosecond = 1"
definition microsecond :: duration where "microsecond = 1000"
definition second :: duration where "second = 1000000000"
definition minute :: duration where "minute = 60 * second"
definition hour :: duration where "hour = 60 * minute"

lemmas duration_units = nanosecond_def microsecond_def second_def minute_def hour_def

definition time_sub :: "time \<Rightarrow> time \<Rightarrow> duration" where
  "time_sub t u = sat64 (t - u)"

section \<open>Generic list and map facts\<close>

lemma map_of_filter_key_neq:
  "map_of (filter (\<lambda>(k, v). P v) xs) k = Some v \<Longrightarrow> (k, v) \<in> set xs \<and> P v"
  by (drule map_of_SomeD) auto

lemma find_Some_member: "find P xs = Some x \<Longrightarrow> x \<in> set xs \<and> P x"
  by (auto simp: find_Some_iff)

lemma find_map_of: "find (\<lambda>x. f x = k) xs = map_of (map (\<lambda>x. (f x, x)) xs) k"
  by (induction xs) auto

text \<open>
  A Go map is an association list with distinct keys: \<open>AList.update\<close> stores, filtering deletes, and the
  iteration order of \<^verbatim>\<open>range\<close>, which Go leaves open, is the order of the list.
\<close>

lemma map_of_filter_val:
  assumes "distinct (map fst al)"
  shows "map_of (filter (\<lambda>kv. P (snd kv)) al) k =
           (case map_of al k of None \<Rightarrow> None | Some v \<Rightarrow> if P v then Some v else None)"
  using assms
proof (induction al)
  case Nil
  then show ?case by simp
next
  case (Cons kv al)
  then show ?case by (cases kv) (auto simp: map_of_eq_None_iff split: option.splits)
qed

lemma distinct_keys_filter: "distinct (map fst al) \<Longrightarrow> distinct (map fst (filter P al))"
  by (induction al) auto

text \<open>Storing one value under every key of a list, in order.\<close>

fun put_all :: "('k \<times> 'v) list \<Rightarrow> 'k list \<Rightarrow> 'v \<Rightarrow> ('k \<times> 'v) list" where
  "put_all m [] v = m"
| "put_all m (k # ks) v = put_all (AList.update k v m) ks v"

lemma map_of_put_all: "map_of (put_all m ks v) k = (if k \<in> set ks then Some v else map_of m k)"
  by (induction ks arbitrary: m) (auto simp: update_conv')

lemma distinct_put_all: "distinct (map fst m) \<Longrightarrow> distinct (map fst (put_all m ks v))"
  by (induction ks arbitrary: m) (auto simp: distinct_update)

lemma set_update_subset: "set (AList.update k v m) \<subseteq> insert (k, v) (set m)"
  by (induction m) auto

lemma set_put_all: "kv \<in> set (put_all m ks v) \<Longrightarrow> kv \<in> set m \<or> (fst kv \<in> set ks \<and> snd kv = v)"
proof (induction ks arbitrary: m)
  case Nil
  then show ?case by simp
next
  case (Cons k ks)
  then show ?case using set_update_subset[of k v m] by fastforce
qed

text \<open>Mapping a list through a function that may fail, stopping at the first failure.\<close>

fun map_result :: "('a \<Rightarrow> 'b result) \<Rightarrow> 'a list \<Rightarrow> 'b list result" where
  "map_result f [] = Inr []"
| "map_result f (x # xs) =
     (case f x of Inl e \<Rightarrow> Inl e
      | Inr y \<Rightarrow> (case map_result f xs of Inl e \<Rightarrow> Inl e | Inr ys \<Rightarrow> Inr (y # ys)))"

lemma map_result_Inr:
  "map_result f xs = Inr ys \<longleftrightarrow> list_all2 (\<lambda>x y. f x = Inr y) xs ys"
proof (induction xs arbitrary: ys)
  case Nil
  then show ?case by auto
next
  case (Cons x xs)
  show ?case
  proof (cases "map_result f xs")
    case (Inl e)
    then show ?thesis using Cons.IH by (cases ys) (auto split: sum.splits)
  next
    case (Inr zs)
    have "list_all2 (\<lambda>x y. f x = Inr y) xs us \<longleftrightarrow> us = zs" for us
      using Cons.IH[of us] Inr by auto
    with Inr show ?thesis by (cases ys) (auto split: sum.splits)
  qed
qed

end
