(* ===== verification/Go_Strings.thy ===== *)
theory Go_Strings
  imports Prelude
begin

text \<open>
  The parts of Go's \<^verbatim>\<open>strings\<close>, \<^verbatim>\<open>unicode/utf8\<close> and \<^verbatim>\<open>strconv\<close> packages that the program uses. A Go
  string is a sequence of bytes, and so is \<^typ>\<open>string\<close> here: a \<^typ>\<open>char\<close> is one byte.
\<close>

abbreviation byte_val :: "char \<Rightarrow> nat" where
  "byte_val c \<equiv> of_char c"

section \<open>Prefixes, indices, splitting and joining\<close>

definition HasPrefix :: "string \<Rightarrow> string \<Rightarrow> bool" where
  "HasPrefix s p \<longleftrightarrow> take (length p) s = p"

lemma HasPrefix_iff: "HasPrefix s p \<longleftrightarrow> (\<exists>t. s = p @ t)"
  by (metis HasPrefix_def append_eq_conv_conj append_take_drop_id)

lemma HasPrefix_append [simp]: "HasPrefix (p @ s) p"
  by (simp add: HasPrefix_def)

definition TrimPrefix :: "string \<Rightarrow> string \<Rightarrow> string" where
  "TrimPrefix s p = (if HasPrefix s p then drop (length p) s else s)"

fun index_byte :: "char \<Rightarrow> string \<Rightarrow> nat option" where
  "index_byte c [] = None"
| "index_byte c (x # xs) = (if x = c then Some 0 else map_option Suc (index_byte c xs))"

fun last_index_byte :: "char \<Rightarrow> string \<Rightarrow> nat option" where
  "last_index_byte c [] = None"
| "last_index_byte c (x # xs) =
     (case last_index_byte c xs of Some i \<Rightarrow> Some (Suc i)
      | None \<Rightarrow> if x = c then Some 0 else None)"

lemma last_index_byte_None [simp]: "last_index_byte c s = None \<longleftrightarrow> c \<notin> set s"
  by (induction s) (auto split: option.splits)

lemma index_byte_None [simp]: "index_byte c s = None \<longleftrightarrow> c \<notin> set s"
  by (induction s) auto

lemma index_byte_append: "c \<notin> set s \<Longrightarrow> index_byte c (s @ c # t) = Some (length s)"
  by (induction s) auto

lemma last_index_byte_append:
  "c \<notin> set t \<Longrightarrow> last_index_byte c (s @ c # t) = Some (length s)"
proof (induction s)
  case Nil
  then show ?case by (simp add: option.case_eq_if)
next
  case (Cons x s)
  then show ?case by simp
qed

lemma last_index_byte_Some:
  "last_index_byte c s = Some i \<Longrightarrow>
     i < length s \<and> s = take i s @ c # drop (Suc i) s \<and> c \<notin> set (drop (Suc i) s)"
proof (induction s arbitrary: i)
  case Nil
  then show ?case by simp
next
  case (Cons x s)
  show ?case
  proof (cases "last_index_byte c s")
    case None
    with Cons.prems show ?thesis by (auto split: if_splits)
  next
    case (Some j)
    with Cons.prems Cons.IH[OF Some] show ?thesis by auto
  qed
qed

fun split_on :: "char \<Rightarrow> string \<Rightarrow> string list" where
  "split_on c [] = [[]]"
| "split_on c (x # xs) =
     (if x = c then [] # split_on c xs
      else (x # hd (split_on c xs)) # tl (split_on c xs))"

fun join_with :: "string \<Rightarrow> string list \<Rightarrow> string" where
  "join_with sep [] = []"
| "join_with sep [p] = p"
| "join_with sep (p # q # ps) = p @ sep @ join_with sep (q # ps)"

lemma split_on_not_Nil [simp]: "split_on c s \<noteq> []"
  by (cases s) auto

lemma split_on_no_sep: "p \<in> set (split_on c s) \<Longrightarrow> c \<notin> set p"
proof (induction s arbitrary: p)
  case Nil
  then show ?case by simp
next
  case (Cons x xs)
  obtain q qs where qs: "split_on c xs = q # qs" by (cases "split_on c xs") auto
  from Cons.prems Cons.IH qs show ?case by (auto split: if_splits)
qed

lemma join_with_Cons: "ps \<noteq> [] \<Longrightarrow> join_with sep (p # ps) = p @ sep @ join_with sep ps"
  by (cases ps) auto

lemma join_split_on [simp]: "join_with [c] (split_on c s) = s"
proof (induction s)
  case Nil
  then show ?case by simp
next
  case (Cons x xs)
  obtain p ps where ps: "split_on c xs = p # ps" by (cases "split_on c xs") auto
  show ?case
  proof (cases "x = c")
    case True
    then show ?thesis using Cons.IH by (simp add: join_with_Cons)
  next
    case False
    with Cons.IH ps show ?thesis by (cases ps) auto
  qed
qed

lemma split_on_clean: "c \<notin> set s \<Longrightarrow> split_on c s = [s]"
  by (induction s) auto

lemma split_on_append: "c \<notin> set s \<Longrightarrow> split_on c (s @ c # t) = s # split_on c t"
  by (induction s) auto

lemma split_join_with:
  "ps \<noteq> [] \<Longrightarrow> (\<And>p. p \<in> set ps \<Longrightarrow> c \<notin> set p) \<Longrightarrow> split_on c (join_with [c] ps) = ps"
proof (induction ps)
  case Nil
  then show ?case by simp
next
  case (Cons p ps)
  then have p: "c \<notin> set p" by simp
  show ?case
  proof (cases "ps = []")
    case True
    with p show ?thesis by (simp add: split_on_clean)
  next
    case False
    with p Cons show ?thesis by (simp add: join_with_Cons split_on_append)
  qed
qed

section \<open>White space\<close>

text \<open>
  \<^verbatim>\<open>strings.TrimSpace\<close> strips the runes of \<^verbatim>\<open>unicode.IsSpace\<close>. Their UTF-8 encodings are listed; a
  rune of the list decodes at the front (back) of a string exactly when its encoding is a prefix
  (suffix) of it.
\<close>

definition space_seqs :: "string list" where
  "space_seqs =
     [[CHR 0x09], [CHR 0x0A], [CHR 0x0B], [CHR 0x0C], [CHR 0x0D], [CHR 0x20],
      [CHR 0xC2, CHR 0x85], [CHR 0xC2, CHR 0xA0], [CHR 0xE1, CHR 0x9A, CHR 0x80]]
     @ map (\<lambda>b. [CHR 0xE2, CHR 0x80, b])
         [CHR 0x80, CHR 0x81, CHR 0x82, CHR 0x83, CHR 0x84, CHR 0x85, CHR 0x86, CHR 0x87,
          CHR 0x88, CHR 0x89, CHR 0x8A, CHR 0xA8, CHR 0xA9, CHR 0xAF]
     @ [[CHR 0xE2, CHR 0x81, CHR 0x9F], [CHR 0xE3, CHR 0x80, CHR 0x80]]"

function strip_seqs :: "string list \<Rightarrow> string \<Rightarrow> string" where
  "strip_seqs ps s =
     (case find (\<lambda>p. p \<noteq> [] \<and> HasPrefix s p) ps of
        None \<Rightarrow> s
      | Some p \<Rightarrow> strip_seqs ps (drop (length p) s))"
  by pat_completeness auto
termination
proof (relation "measure (\<lambda>(ps, s). length s)")
  fix ps s p
  assume "find (\<lambda>p. p \<noteq> [] \<and> HasPrefix s p) ps = Some p"
  then have "p \<noteq> []" and "HasPrefix s p" by (auto dest: find_Some_member)
  then obtain t where "s = p @ t" and "p \<noteq> []" by (auto simp: HasPrefix_iff)
  then show "((ps, drop (length p) s), ps, s) \<in> measure (\<lambda>(ps, s). length s)" by simp
qed simp

declare strip_seqs.simps [simp del]

definition trim_left_space :: "string \<Rightarrow> string" where
  "trim_left_space s = strip_seqs space_seqs s"

definition trim_right_space :: "string \<Rightarrow> string" where
  "trim_right_space s = rev (strip_seqs (map rev space_seqs) (rev s))"

definition TrimSpace :: "string \<Rightarrow> string" where
  "TrimSpace s = trim_right_space (trim_left_space s)"

lemma strip_seqs_suffix: "\<exists>t. s = t @ strip_seqs ps s"
proof (induction ps s rule: strip_seqs.induct)
  case (1 ps s)
  show ?case
  proof (cases "find (\<lambda>p. p \<noteq> [] \<and> HasPrefix s p) ps")
    case None
    then show ?thesis by (simp add: strip_seqs.simps)
  next
    case (Some p)
    then have "HasPrefix s p" by (auto dest: find_Some_member)
    then obtain t where s: "s = p @ t" by (auto simp: HasPrefix_iff)
    from 1[OF Some] obtain u where "drop (length p) s = u @ strip_seqs ps (drop (length p) s)"
      by blast
    moreover have "strip_seqs ps s = strip_seqs ps (drop (length p) s)"
      using Some by (simp add: strip_seqs.simps[of ps s])
    ultimately have "t = u @ strip_seqs ps s" using s by simp
    with s have "s = (p @ u) @ strip_seqs ps s" by simp
    then show ?thesis by blast
  qed
qed

lemma strip_seqs_none:
  "p \<in> set ps \<Longrightarrow> p \<noteq> [] \<Longrightarrow> \<not> HasPrefix (strip_seqs ps s) p"
proof (induction ps s rule: strip_seqs.induct)
  case (1 ps s)
  show ?case
  proof (cases "find (\<lambda>p. p \<noteq> [] \<and> HasPrefix s p) ps")
    case None
    then have "strip_seqs ps s = s" by (simp add: strip_seqs.simps[of ps s])
    with None 1(2,3) show ?thesis by (auto simp: find_None_iff)
  next
    case (Some q)
    with 1 show ?thesis by (simp add: strip_seqs.simps[of ps s])
  qed
qed

lemma strip_seqs_id:
  "(\<And>p. p \<in> set ps \<Longrightarrow> p \<noteq> [] \<Longrightarrow> \<not> HasPrefix s p) \<Longrightarrow> strip_seqs ps s = s"
proof -
  assume "\<And>p. p \<in> set ps \<Longrightarrow> p \<noteq> [] \<Longrightarrow> \<not> HasPrefix s p"
  then have "find (\<lambda>p. p \<noteq> [] \<and> HasPrefix s p) ps = None" by (auto simp: find_None_iff)
  then show ?thesis by (simp add: strip_seqs.simps)
qed

lemma HasPrefix_trans: "HasPrefix s t \<Longrightarrow> HasPrefix t p \<Longrightarrow> HasPrefix s p"
  by (auto simp: HasPrefix_iff)

text \<open>What \<^const>\<open>TrimSpace\<close> leaves starts and ends with no white space, and trimming is idempotent.\<close>

definition space_free_ends :: "string \<Rightarrow> bool" where
  "space_free_ends s \<longleftrightarrow>
     (\<forall>p \<in> set space_seqs. \<not> HasPrefix s p \<and> \<not> HasPrefix (rev s) (rev p))"

lemma space_seqs_not_Nil: "p \<in> set space_seqs \<Longrightarrow> p \<noteq> []"
  by (auto simp: space_seqs_def)

lemma trim_right_prefix: "HasPrefix s (trim_right_space s)"
proof -
  obtain t where "rev s = t @ strip_seqs (map rev space_seqs) (rev s)"
    using strip_seqs_suffix by blast
  then have "s = trim_right_space s @ rev t"
    by (metis rev_append rev_rev_ident trim_right_space_def)
  then show ?thesis by (metis HasPrefix_append)
qed

lemma TrimSpace_ends: "space_free_ends (TrimSpace s)"
  unfolding space_free_ends_def
proof (intro ballI conjI)
  fix p assume p: "p \<in> set space_seqs"
  then have ne: "p \<noteq> []" by (rule space_seqs_not_Nil)
  show "\<not> HasPrefix (TrimSpace s) p"
    using strip_seqs_none[OF p ne, of s] trim_right_prefix[of "trim_left_space s"]
    by (auto simp: TrimSpace_def trim_left_space_def intro: HasPrefix_trans)
  show "\<not> HasPrefix (rev (TrimSpace s)) (rev p)"
    using strip_seqs_none[of "rev p" "map rev space_seqs"] p ne
    by (simp add: TrimSpace_def trim_right_space_def)
qed

lemma TrimSpace_id: "space_free_ends s \<Longrightarrow> TrimSpace s = s"
proof -
  assume ends: "space_free_ends s"
  then have "trim_left_space s = s"
    unfolding trim_left_space_def by (intro strip_seqs_id) (auto simp: space_free_ends_def)
  moreover from ends have "strip_seqs (map rev space_seqs) (rev s) = rev s"
    by (intro strip_seqs_id) (auto simp: space_free_ends_def)
  ultimately show ?thesis by (simp add: TrimSpace_def trim_right_space_def)
qed

lemma TrimSpace_idem [simp]: "TrimSpace (TrimSpace s) = TrimSpace s"
  by (rule TrimSpace_id) (rule TrimSpace_ends)

lemma set_TrimSpace: "set (TrimSpace s) \<subseteq> set s"
proof -
  have "set (trim_left_space s) \<subseteq> set s"
    unfolding trim_left_space_def using strip_seqs_suffix[of s space_seqs]
    by (metis set_append sup_ge2)
  moreover have "set (trim_right_space t) \<subseteq> set t" for t
    using trim_right_prefix[of t] by (metis HasPrefix_def set_take_subset)
  ultimately show ?thesis by (auto simp: TrimSpace_def)
qed

section \<open>Case\<close>

definition is_ascii :: "string \<Rightarrow> bool" where
  "is_ascii s \<longleftrightarrow> (\<forall>c \<in> set s. byte_val c < 128)"

definition lower_byte :: "char \<Rightarrow> char" where
  "lower_byte c = (if 65 \<le> byte_val c \<and> byte_val c \<le> 90 then char_of (byte_val c + 32) else c)"

text \<open>
  \<^verbatim>\<open>strings.ToLower\<close>: ASCII strings are lowered byte by byte; a string with a byte beyond ASCII is
  mapped rune by rune with the Unicode case tables, which are the parameter \<open>ulower\<close>.
\<close>

definition ToLower :: "(string \<Rightarrow> string) \<Rightarrow> string \<Rightarrow> string" where
  "ToLower ulower s = (if is_ascii s then map lower_byte s else ulower s)"

text \<open>
  \<^verbatim>\<open>strings.EqualFold(s, t)\<close> for an ASCII \<open>t\<close>: bytes are compared up to ASCII case, and the two
  non-ASCII runes that simple folding maps into ASCII letters (U+017F to s, U+212A to k) match them.
\<close>

fun EqualFold :: "string \<Rightarrow> string \<Rightarrow> bool" where
  "EqualFold s [] = (s = [])"
| "EqualFold s (t # ts) =
     (if HasPrefix s [CHR 0xC5, CHR 0xBF] \<and> lower_byte t = CHR ''s'' then EqualFold (drop 2 s) ts
      else if HasPrefix s [CHR 0xE2, CHR 0x84, CHR 0xAA] \<and> lower_byte t = CHR ''k''
      then EqualFold (drop 3 s) ts
      else s \<noteq> [] \<and> lower_byte (hd s) = lower_byte t \<and> EqualFold (tl s) ts)"

lemma EqualFold_refl [simp]: "is_ascii s \<Longrightarrow> EqualFold s s"
proof (induction s)
  case Nil
  then show ?case by simp
next
  case (Cons x s)
  then have "byte_val x < 128" by (simp add: is_ascii_def)
  then have "x \<noteq> CHR 0xC5" "x \<noteq> CHR 0xE2" by auto
  with Cons show ?case by (auto simp: HasPrefix_def is_ascii_def)
qed

declare EqualFold.simps [simp del]

section \<open>UTF-8\<close>

text \<open>\<^verbatim>\<open>utf8.DecodeRuneInString\<close>: the first rune and its width; an invalid byte is U+FFFD of width 1.\<close>

definition rune_error :: nat where "rune_error = 0xFFFD"

definition between :: "nat \<Rightarrow> nat \<Rightarrow> char \<Rightarrow> bool" where
  "between lo hi c \<longleftrightarrow> lo \<le> byte_val c \<and> byte_val c \<le> hi"

definition cont_bits :: "char \<Rightarrow> nat" where
  "cont_bits c = byte_val c mod 64"

definition second_range :: "nat \<Rightarrow> nat \<times> nat" where
  "second_range b0 =
     (if b0 = 0xE0 then (0xA0, 0xBF) else if b0 = 0xED then (0x80, 0x9F)
      else if b0 = 0xF0 then (0x90, 0xBF) else if b0 = 0xF4 then (0x80, 0x8F) else (0x80, 0xBF))"

definition rune_width :: "nat \<Rightarrow> nat" where
  "rune_width b0 =
     (if b0 < 0x80 then 1 else if b0 < 0xC2 then 0 else if b0 < 0xE0 then 2
      else if b0 < 0xF0 then 3 else if b0 < 0xF5 then 4 else 0)"

fun decode_rune :: "string \<Rightarrow> nat \<times> nat" where
  "decode_rune [] = (rune_error, 0)"
| "decode_rune (c # cs) =
     (let b0 = byte_val c; w = rune_width b0; (lo, hi) = second_range b0 in
      if w = 1 then (b0, 1)
      else if w = 0 \<or> length cs < w - 1 then (rune_error, 1)
      else if \<not> between lo hi (cs ! 0) then (rune_error, 1)
      else if \<not> list_all (between 0x80 0xBF) (take (w - 2) (drop 1 cs)) then (rune_error, 1)
      else (if w = 2 then (b0 mod 32) * 64 + cont_bits (cs ! 0)
            else if w = 3 then ((b0 mod 16) * 64 + cont_bits (cs ! 0)) * 64 + cont_bits (cs ! 1)
            else (((b0 mod 8) * 64 + cont_bits (cs ! 0)) * 64 + cont_bits (cs ! 1)) * 64
                 + cont_bits (cs ! 2), w))"

lemma decode_rune_width_pos: "s \<noteq> [] \<Longrightarrow> 0 < snd (decode_rune s)"
  by (cases s) (auto simp: Let_def rune_width_def split: prod.splits)

lemma decode_rune_width_le: "snd (decode_rune s) \<le> length s"
  by (cases s) (auto simp: Let_def rune_width_def Suc_le_eq split: prod.splits)

text \<open>\<^verbatim>\<open>for _, r := range s\<close>: the runes of a string, each with the bytes it was decoded from.\<close>

function runes :: "string \<Rightarrow> (nat \<times> string) list" where
  "runes s =
     (if s = [] then []
      else let (r, w) = decode_rune s in (r, take w s) # runes (drop w s))"
  by pat_completeness auto
termination
proof (relation "measure length")
  fix s :: string and x r w
  assume "s \<noteq> []" and "x = decode_rune s" and "(r, w) = x"
  then have "0 < w" using decode_rune_width_pos[of s] by (metis snd_conv)
  with \<open>s \<noteq> []\<close> show "(drop w s, s) \<in> measure length" by simp
qed simp

declare runes.simps [simp del]

lemma runes_Nil [simp]: "runes [] = []"
  by (simp add: runes.simps)

lemma runes_nonempty [simp]: "runes s = [] \<longleftrightarrow> s = []"
  by (auto simp: runes.simps split: prod.splits)

lemma concat_runes: "concat (map snd (runes s)) = s"
proof (induction s rule: runes.induct)
  case (1 s)
  show ?case
  proof (cases "s = []")
    case True
    then show ?thesis by simp
  next
    case False
    obtain r w where d: "decode_rune s = (r, w)" by (cases "decode_rune s")
    with 1 False have "concat (map snd (runes (drop w s))) = drop w s" by simp
    with False d show ?thesis by (simp add: runes.simps[of s])
  qed
qed

lemma runes_ascii_Cons: "byte_val c < 128 \<Longrightarrow> runes (c # s) = (byte_val c, [c]) # runes s"
  by (subst runes.simps) (simp add: rune_width_def second_range_def Let_def)

text \<open>A string is valid UTF-8 when no rune of it was an invalid byte (\<^verbatim>\<open>utf8.ValidString\<close>).\<close>

definition valid_utf8 :: "string \<Rightarrow> bool" where
  "valid_utf8 s \<longleftrightarrow> (\<forall>(r, bs) \<in> set (runes s). \<not> (r = rune_error \<and> length bs = 1))"

section \<open>Numbers as text\<close>

fun digits :: "nat \<Rightarrow> string" where
  "digits n = (if n < 10 then [char_of (48 + n)] else digits (n div 10) @ [char_of (48 + n mod 10)])"

declare digits.simps [simp del]

definition fmt_int :: "int \<Rightarrow> string" where
  "fmt_int i = (if i < 0 then CHR ''-'' # digits (nat (- i)) else digits (nat i))"

text \<open>The same digits computed on integers, for evaluation.\<close>

fun digits_int :: "int \<Rightarrow> string" where
  "digits_int i = (if i < 10 then [char_of (48 + nat i)] else digits_int (i div 10) @ [char_of (48 + nat (i mod 10))])"

declare digits_int.simps [simp del]

lemma digits_int_nat: "0 \<le> i \<Longrightarrow> digits_int i = digits (nat i)"
proof (induction i rule: digits_int.induct)
  case (1 i)
  then show ?case
    by (subst digits_int.simps, subst digits.simps) (auto simp: nat_div_distrib nat_mod_distrib)
qed

lemma fmt_int_code [code]: "fmt_int i = (if i < 0 then CHR ''-'' # digits_int (- i) else digits_int i)"
  by (simp add: fmt_int_def digits_int_nat)

definition is_digit :: "char \<Rightarrow> bool" where
  "is_digit c \<longleftrightarrow> 48 \<le> byte_val c \<and> byte_val c \<le> 57"

definition digit_val :: "char \<Rightarrow> nat" where
  "digit_val c = byte_val c - 48"

definition digits_val :: "string \<Rightarrow> nat" where
  "digits_val s = foldl (\<lambda>n c. n * 10 + digit_val c) 0 s"

lemma digits_not_Nil [simp]: "digits n \<noteq> []"
  by (subst digits.simps) simp

lemma digit_char: "n < 10 \<Longrightarrow> is_digit (char_of (48 + n)) \<and> digit_val (char_of (48 + n)) = n"
  by (simp add: is_digit_def digit_val_def)

lemma set_digits: "c \<in> set (digits n) \<Longrightarrow> is_digit c"
proof (induction n rule: digits.induct)
  case (1 n)
  show ?case
  proof (cases "n < 10")
    case True
    with 1(2) show ?thesis by (simp add: digits.simps[of n] digit_char)
  next
    case False
    with 1 show ?thesis by (auto simp: digits.simps[of n] digit_char)
  qed
qed

lemma digits_val_digits [simp]: "digits_val (digits n) = n"
proof (induction n rule: digits.induct)
  case (1 n)
  show ?case
  proof (cases "n < 10")
    case True
    then show ?thesis by (simp add: digits.simps[of n] digits_val_def digit_char)
  next
    case False
    with 1 have "foldl (\<lambda>n c. n * 10 + digit_val c) 0 (digits (n div 10)) = n div 10"
      by (simp add: digits_val_def)
    with False show ?thesis
      by (simp add: digits.simps[of n] digits_val_def digit_char)
  qed
qed

text \<open>
  \<^verbatim>\<open>strconv.ParseInt(s, 10, 64)\<close>: an optional sign and decimal digits, the value in range. Base 10
  accepts no underscore.
\<close>

definition ParseInt :: "string \<Rightarrow> int option" where
  "ParseInt s =
     (let neg = (s \<noteq> [] \<and> hd s = CHR ''-'');
          ds = (if s \<noteq> [] \<and> (hd s = CHR ''-'' \<or> hd s = CHR ''+'') then tl s else s);
          v = (if neg then - int (digits_val ds) else int (digits_val ds))
      in if ds = [] \<or> \<not> list_all is_digit ds \<or> \<not> in_int64 v then None else Some v)"

lemma ParseInt_fmt_int: "in_int64 i \<Longrightarrow> ParseInt (fmt_int i) = Some i"
proof -
  assume r: "in_int64 i"
  have all: "list_all is_digit (digits n)" for n by (auto simp: list_all_iff set_digits)
  have hd: "hd (digits n) \<noteq> CHR ''-''" "hd (digits n) \<noteq> CHR ''+''" for n
    using set_digits[OF hd_in_set[OF digits_not_Nil[of n]]] by (auto simp: is_digit_def)
  show ?thesis
    using r by (cases "i < 0") (auto simp: ParseInt_def fmt_int_def Let_def all hd)
qed

end
