(* ===== verification/Go_Time.thy ===== *)
theory Go_Time
  imports Complex_Main Go_Strings
begin

text \<open>
  Calendar dates, the two time layouts the program prints, and the \<^verbatim>\<open>float64\<close> arithmetic behind
  \<^verbatim>\<open>Duration.Seconds\<close> and \<^verbatim>\<open>round6\<close>. A \<^typ>\<open>time\<close> counts nanoseconds since 1970-01-01T00:00:00Z.
\<close>

section \<open>Calendar\<close>

definition days_of :: "time \<Rightarrow> int" where
  "days_of t = t div (24 * hour)"

definition unix_seconds :: "time \<Rightarrow> int" where
  "unix_seconds t = t div second"

definition civil :: "int \<Rightarrow> int \<times> int \<times> int" where
  "civil z =
     (let z' = z + 719468;
          era = z' div 146097;
          doe = z' mod 146097;
          yoe = (doe - doe div 1460 + doe div 36524 - doe div 146096) div 365;
          doy = doe - (365 * yoe + yoe div 4 - yoe div 100);
          mp = (5 * doy + 2) div 153;
          d = doy - (153 * mp + 2) div 5 + 1;
          m = (if mp < 10 then mp + 3 else mp - 9);
          y = yoe + era * 400 + (if m \<le> 2 then 1 else 0)
      in (y, m, d))"

definition pad_int :: "nat \<Rightarrow> int \<Rightarrow> string" where
  "pad_int w i =
     (let ds = digits (nat \<bar>i\<bar>)
      in (if i < 0 then ''-'' else []) @ replicate (w - length ds) CHR ''0'' @ ds)"

lemma pad_int_code [code]:
  "pad_int w i = (let ds = digits_int \<bar>i\<bar> in (if i < 0 then ''-'' else []) @ replicate (w - length ds) CHR ''0'' @ ds)"
  by (simp add: pad_int_def digits_int_nat)

text \<open>Layout \<^verbatim>\<open>2006-01-02\<close>.\<close>

definition fmt_day :: "time \<Rightarrow> string" where
  "fmt_day t = (case civil (days_of t) of (y, m, d) \<Rightarrow>
     pad_int 4 y @ ''-'' @ pad_int 2 m @ ''-'' @ pad_int 2 d)"

text \<open>Decimal digits of a fraction below \<open>10 ^ w\<close>, trailing zeros dropped.\<close>

definition frac_digits :: "nat \<Rightarrow> int \<Rightarrow> string" where
  "frac_digits w n = rev (dropWhile (\<lambda>c. c = CHR ''0'') (rev (pad_int w n)))"

text \<open>\<^verbatim>\<open>time.RFC3339Nano\<close> of a UTC time.\<close>

definition fmt_rfc3339 :: "time \<Rightarrow> string" where
  "fmt_rfc3339 t =
     (let s = unix_seconds t mod 86400;
          ns = t mod second
      in fmt_day t @ ''T'' @ pad_int 2 (s div 3600) @ '':'' @ pad_int 2 (s mod 3600 div 60) @ '':'' @
         pad_int 2 (s mod 60) @
         (if ns = 0 then [] else ''.'' @ frac_digits 9 ns) @ ''Z'')"

lemma set_pad_int: "0 \<le> i \<Longrightarrow> c \<in> set (pad_int w i) \<Longrightarrow> is_digit c"
  by (auto simp: pad_int_def Let_def is_digit_def dest: set_digits)

lemma set_pad_int_signed: "c \<in> set (pad_int w i) \<Longrightarrow> is_digit c \<or> c = CHR ''-''"
  by (auto simp: pad_int_def Let_def is_digit_def split: if_splits dest: set_digits)

lemma set_fmt_day: "c \<in> set (fmt_day t) \<Longrightarrow> is_digit c \<or> c = CHR ''-''"
  by (auto simp: fmt_day_def split: prod.splits dest: set_pad_int_signed)

lemma fmt_day_not_Nil [simp]: "fmt_day t \<noteq> []"
  by (simp add: fmt_day_def split: prod.splits)

section \<open>Rounding to \<^verbatim>\<open>float64\<close>\<close>

text \<open>
  The value of a \<^verbatim>\<open>float64\<close> operation is the exact result rounded to the nearest number with a 53-bit
  significand, ties to even. Durations in seconds and their multiples by \<open>10 ^ 6\<close> stay inside the
  normal range, so exponent limits do not appear.
\<close>

fun bit_length :: "int \<Rightarrow> int" where
  "bit_length n = (if n \<le> 0 then 0 else 1 + bit_length (n div 2))"

declare bit_length.simps [simp del]

definition expo2 :: "rat \<Rightarrow> int" where
  "expo2 x = (case quotient_of x of (p, q) \<Rightarrow>
     let k = bit_length p - bit_length q
     in if x < 2 powi k then k - 1 else k)"

definition round_even :: "rat \<Rightarrow> int" where
  "round_even m =
     (let f = \<lfloor>m\<rfloor>; r = m - of_int f
      in if r < 1 / 2 then f else if 1 / 2 < r then f + 1 else if even f then f else f + 1)"

definition fl_pos :: "rat \<Rightarrow> rat" where
  "fl_pos x = (let u = 2 powi (expo2 x - 52) in of_int (round_even (x / u)) * u)"

definition fl64 :: "rat \<Rightarrow> rat" where
  "fl64 x = (if x = 0 then 0 else if 0 < x then fl_pos x else - fl_pos (- x))"

text \<open>Conversion \<^verbatim>\<open>int64(f)\<close> drops the fraction.\<close>

definition trunc_rat :: "rat \<Rightarrow> int" where
  "trunc_rat x = (if 0 \<le> x then \<lfloor>x\<rfloor> else \<lceil>x\<rceil>)"

text \<open>\<^verbatim>\<open>Duration.Seconds\<close>: whole seconds plus the rest, both converted first.\<close>

definition quot_trunc :: "int \<Rightarrow> int \<Rightarrow> int" where
  "quot_trunc a b = (if 0 \<le> a then a div b else - ((- a) div b))"

definition Seconds :: "duration \<Rightarrow> rat" where
  "Seconds d =
     (let sec = quot_trunc d second; nsec = d - sec * second
      in fl64 (fl64 (of_int sec) + fl64 (of_int nsec / 10 ^ 9)))"

text \<open>
  \<^verbatim>\<open>round6\<close> yields the \<^verbatim>\<open>float64\<close> nearest to \<open>k / 10 ^ 6\<close> for an integer \<open>k\<close>; it is represented by
  that \<open>k\<close>.
\<close>

definition round6 :: "rat \<Rightarrow> int" where
  "round6 v = trunc_rat (fl64 (fl64 (v * 10 ^ 6) + 1 / 2))"


subsection \<open>Rounding is monotone and accurate\<close>

lemma bit_length_bounds:
  "0 < n \<Longrightarrow> 1 \<le> bit_length n \<and> (2::rat) powi (bit_length n - 1) \<le> of_int n \<and> of_int n < (2::rat) powi bit_length n"
proof (induction n rule: bit_length.induct)
  case (1 n)
  show ?case
  proof (cases "n div 2 = 0")
    case True
    then have "n = 1" using 1(2) by linarith
    then show ?thesis by (simp add: bit_length.simps)
  next
    case False
    let ?b = "bit_length (n div 2)"
    have pos: "0 < n div 2" using False 1(2) by linarith
    have ih: "1 \<le> ?b" "(2::rat) powi (?b - 1) \<le> of_int (n div 2)" "of_int (n div 2) < (2::rat) powi ?b"
      using 1(1)[OF _ pos] 1(2) by auto
    have bl: "bit_length n = 1 + ?b" using 1(2) by (simp add: bit_length.simps[of n])
    obtain k where k: "?b = int k" using ih(1) by (metis nonneg_int_cases order_trans zero_le_one)
    obtain j where j: "k = Suc j" using ih(1) k by (cases k) auto
    have pw: "(2::rat) powi (?b - 1) = of_int (2 ^ j)" "(2::rat) powi ?b = of_int (2 ^ k)"
      by (simp_all add: k j power_int_def nat_add_distrib)
    have lo: "2 ^ j \<le> n div 2" and hi: "n div 2 < 2 ^ k"
      using ih(2,3) unfolding pw of_int_le_iff of_int_less_iff by auto
    have "2 ^ k \<le> n" using lo j by simp
    moreover have "n < 2 * 2 ^ k" using hi by linarith
    ultimately have "of_int (2 ^ k) \<le> (of_int n :: rat)" "(of_int n :: rat) < of_int (2 * 2 ^ k)"
      by (simp_all only: of_int_le_iff of_int_less_iff)
    moreover have "(2::rat) powi (1 + ?b) = 2 * 2 ^ k"
      by (simp add: k power_int_add)
    ultimately show ?thesis using ih(1) unfolding bl pw(2) by (simp add: k)
  qed
qed

lemma expo2_bounds:
  assumes "0 < x"
  shows "2 powi (expo2 x) \<le> x" "x < 2 powi (expo2 x + 1)"
proof -
  obtain p q where pq: "quotient_of x = (p, q)" by (cases "quotient_of x")
  have q: "0 < q" using quotient_of_denom_pos[OF pq] .
  have x: "x = of_int p / of_int q" using quotient_of_div[OF pq] .
  have p: "0 < p" using assms q unfolding x by (simp add: zero_less_divide_iff)
  let ?a = "bit_length p" and ?b = "bit_length q"
  note P = bit_length_bounds[OF p] and Q = bit_length_bounds[OF q]
  have k0: "(2::rat) powi (?a - 1) / 2 powi ?b < x"
    unfolding x using P Q by (intro frac_less2) (auto simp: q)
  have k1: "x < (2::rat) powi ?a / 2 powi (?b - 1)"
    unfolding x using P Q p by (intro frac_less) auto
  have lo: "(2::rat) powi (?a - ?b - 1) < x"
    using k0 by (simp add: power_int_diff power_int_add algebra_simps)
  have hi: "x < (2::rat) powi (?a - ?b + 1)"
    using k1 by (simp add: power_int_diff power_int_add algebra_simps)
  show "2 powi (expo2 x) \<le> x" "x < 2 powi (expo2 x + 1)"
    using lo hi by (auto simp: expo2_def pq Let_def algebra_simps)
qed

lemma round_even_error: "\<bar>of_int (round_even m) - m\<bar> \<le> 1 / 2"
proof -
  define f where "f = \<lfloor>m\<rfloor>"
  have "of_int f \<le> m" "m < of_int f + 1" unfolding f_def by linarith+
  then show ?thesis unfolding round_even_def Let_def abs_le_iff f_def[symmetric] by (auto simp: not_less)
qed

lemma round_even_mono: "m \<le> n \<Longrightarrow> round_even m \<le> round_even n"
proof -
  assume le: "m \<le> n"
  have f: "\<lfloor>m\<rfloor> \<le> \<lfloor>n\<rfloor>" using le by (rule floor_mono)
  show ?thesis
  proof (cases "\<lfloor>m\<rfloor> = \<lfloor>n\<rfloor>")
    case True
    then show ?thesis using le by (auto simp: round_even_def Let_def)
  next
    case False
    then have "\<lfloor>m\<rfloor> + 1 \<le> \<lfloor>n\<rfloor>" using f by linarith
    then show ?thesis by (auto simp: round_even_def Let_def)
  qed
qed

lemma round_even_of_int [simp]: "round_even (of_int k) = k"
  by (simp add: round_even_def)

lemma scaled_bounds:
  assumes "0 < x"
  defines "u \<equiv> 2 powi (expo2 x - 52)"
  shows "0 < u" "2 ^ 52 \<le> x / u" "x / u < 2 ^ 53"
proof -
  show u: "0 < u" by (simp add: u_def)
  have "2 ^ 52 * u = 2 powi (expo2 x)" by (simp add: u_def power_int_diff)
  then show "2 ^ 52 \<le> x / u" using expo2_bounds(1)[OF assms(1)] u by (simp add: pos_le_divide_eq)
  have "2 ^ 53 * u = 2 powi (expo2 x + 1)" by (simp add: u_def power_int_diff power_int_add)
  then show "x / u < 2 ^ 53" using expo2_bounds(2)[OF assms(1)] u by (simp add: pos_divide_less_eq)
qed

lemma fl_pos_error:
  assumes "0 < x"
  shows "\<bar>fl_pos x - x\<bar> \<le> x / 2 ^ 53"
proof -
  let ?u = "2 powi (expo2 x - 52) :: rat" and ?m = "round_even (x / 2 powi (expo2 x - 52))"
  note S = scaled_bounds[OF assms]
  have "fl_pos x - x = (of_int ?m - x / ?u) * ?u"
    using S(1) by (simp add: fl_pos_def Let_def left_diff_distrib)
  then have "\<bar>fl_pos x - x\<bar> = \<bar>of_int ?m - x / ?u\<bar> * ?u"
    using S(1) by (simp add: abs_mult)
  also have "\<dots> \<le> 1 / 2 * ?u"
    using round_even_error S(1) by (intro mult_right_mono) auto
  also have "\<dots> \<le> x / 2 ^ 53"
    using S(1,2) by (simp add: pos_le_divide_eq)
  finally show ?thesis .
qed

lemma fl_pos_range:
  assumes "0 < x"
  shows "2 powi (expo2 x) \<le> fl_pos x" "fl_pos x \<le> 2 powi (expo2 x + 1)"
proof -
  let ?u = "2 powi (expo2 x - 52) :: rat" and ?m = "round_even (x / 2 powi (expo2 x - 52))"
  note S = scaled_bounds[OF assms]
  have "round_even (of_int (2 ^ 52)) \<le> ?m" by (rule round_even_mono) (use S(2) in simp)
  then have "of_int (2 ^ 52) \<le> (of_int ?m :: rat)" unfolding round_even_of_int of_int_le_iff .
  then have "2 ^ 52 * ?u \<le> of_int ?m * ?u" using S(1) by (intro mult_right_mono) auto
  then show "2 powi (expo2 x) \<le> fl_pos x" by (simp add: fl_pos_def Let_def power_int_diff)
  have "?m \<le> round_even (of_int (2 ^ 53))" by (rule round_even_mono) (use S(3) in simp)
  then have "(of_int ?m :: rat) \<le> of_int (2 ^ 53)" unfolding round_even_of_int of_int_le_iff .
  then have "of_int ?m * ?u \<le> 2 ^ 53 * ?u" using S(1) by (intro mult_right_mono) auto
  then show "fl_pos x \<le> 2 powi (expo2 x + 1)"
    by (simp add: fl_pos_def Let_def power_int_diff power_int_add)
qed

lemma fl_pos_mono:
  assumes "0 < x" "x \<le> y"
  shows "fl_pos x \<le> fl_pos y"
proof (cases "expo2 x = expo2 y")
  case True
  let ?u = "2 powi (expo2 y - 52) :: rat"
  have u: "0 < ?u" by simp
  have "round_even (x / ?u) \<le> round_even (y / ?u)"
    using assms(2) u by (intro round_even_mono divide_right_mono) auto
  then show ?thesis using u unfolding fl_pos_def Let_def True by (intro mult_right_mono) auto
next
  case False
  have y: "0 < y" using assms by simp
  have "2 powi (expo2 x) \<le> y" using expo2_bounds(1)[OF assms(1)] assms(2) by simp
  then have "(2::rat) powi (expo2 x) < 2 powi (expo2 y + 1)" using expo2_bounds(2)[OF y] by simp
  then have "expo2 x < expo2 y + 1"
    using power_int_increasing[of "expo2 y + 1" "expo2 x" "2::rat"] by (cases "expo2 x < expo2 y + 1") auto
  then have "expo2 x + 1 \<le> expo2 y" using False by simp
  then have "(2::rat) powi (expo2 x + 1) \<le> 2 powi (expo2 y)" by (intro power_int_increasing) auto
  then show ?thesis using fl_pos_range[OF assms(1)] fl_pos_range[OF y] by linarith
qed

lemma fl64_nonneg [simp]: "0 \<le> x \<Longrightarrow> 0 \<le> fl64 x"
  using fl_pos_range(1)[of x] by (auto simp: fl64_def intro: order_trans[rotated])

lemma fl64_nonpos: "x \<le> 0 \<Longrightarrow> fl64 x \<le> 0"
  using fl64_nonneg[of "- x"] by (auto simp: fl64_def)

lemma fl64_mono: "0 \<le> x \<Longrightarrow> x \<le> y \<Longrightarrow> fl64 x \<le> fl64 y"
  using fl64_nonneg[of y] fl_pos_mono[of x y] by (auto simp: fl64_def)

lemma fl64_error: "0 \<le> x \<Longrightarrow> \<bar>fl64 x - x\<bar> \<le> x / 2 ^ 53"
  using fl_pos_error[of x] by (auto simp: fl64_def)

lemma quot_trunc_pos: "0 \<le> a \<Longrightarrow> quot_trunc a b = a div b"
  by (simp add: quot_trunc_def)

lemma Seconds_pos:
  "0 \<le> d \<Longrightarrow> Seconds d = fl64 (fl64 (of_int (d div second)) + fl64 (of_int (d mod second) / 10 ^ 9))"
  unfolding Seconds_def Let_def by (simp only: quot_trunc_pos minus_div_mult_eq_mod)

lemma Seconds_nonneg: "0 \<le> d \<Longrightarrow> 0 \<le> Seconds d"
  by (simp add: Seconds_pos second_def)

lemma fl64_of_int:
  assumes "0 \<le> n" "n < 2 ^ 53"
  shows "fl64 (of_int n) = of_int n"
proof (cases "n = 0")
  case False
  then have x: "(0::rat) < of_int n" using assms by simp
  have "(2::rat) powi (expo2 (of_int n)) < 2 powi 53"
    using expo2_bounds(1)[OF x] assms(2) by (simp add: power_int_def)
  then have "expo2 (of_int n) < 53"
    using power_int_increasing[of 53 "expo2 (of_int n)" "2::rat"] by (cases "expo2 (of_int n :: rat) < 53") auto
  then obtain k where k: "expo2 (of_int n :: rat) - 52 = - int k"
    by (intro that[of "nat (52 - expo2 (of_int n :: rat))"]) simp
  have "of_int n / (2::rat) powi (expo2 (of_int n) - 52) = of_int (n * 2 ^ k)"
    by (simp add: k power_int_minus divide_inverse)
  then have "fl_pos (of_int n) = of_int (n * 2 ^ k) * 2 powi (- int k)"
    unfolding fl_pos_def Let_def by (simp only: round_even_of_int k)
  then show ?thesis using x by (simp add: fl64_def power_int_minus)
qed (simp add: fl64_def)

lemma Seconds_mono:
  assumes "0 \<le> d" "d \<le> e" "in_int64 e"
  shows "Seconds d \<le> Seconds e"
proof -
  define s1 n1 s2 n2 where "s1 = d div second" "n1 = d mod second" "s2 = e div second" "n2 = e mod second"
  note defs = this
  have n: "0 \<le> n1" "n1 < 10 ^ 9" "0 \<le> n2" by (simp_all add: defs second_def)
  have s: "0 \<le> s1" "s1 \<le> s2" "s2 < 2 ^ 53"
    using assms by (auto simp: defs second_def int64_defs zdiv_mono1)
  have fs: "fl64 (of_int s1) = of_int s1" "fl64 (of_int s2) = of_int s2" using s by (auto intro!: fl64_of_int)
  have "of_int s1 + fl64 (of_int n1 / 10 ^ 9) \<le> of_int s2 + fl64 (of_int n2 / 10 ^ 9)"
  proof (cases "s1 = s2")
    case True
    then have "n1 \<le> n2" using assms(2) unfolding defs by (metis div_mult_mod_eq add_le_cancel_left)
    then show ?thesis using n True by (auto intro!: fl64_mono divide_right_mono)
  next
    case False
    have "fl64 (of_int n1 / 10 ^ 9) \<le> fl64 (of_int 1)"
      using n by (intro fl64_mono) (auto simp: divide_le_eq simp del: of_int_1)
    then have "fl64 (of_int n1 / 10 ^ 9) \<le> 1" using fl64_of_int[of 1] by simp
    moreover have "of_int s1 + 1 \<le> (of_int s2 :: rat)"
      using False s by (metis of_int_1 of_int_add of_int_le_iff order_le_less zless_imp_add1_zle)
    moreover have "0 \<le> fl64 (of_int n2 / 10 ^ 9)" using n by simp
    ultimately show ?thesis by linarith
  qed
  moreover have "0 \<le> of_int s1 + fl64 (of_int n1 / 10 ^ 9)" using n s by (intro add_nonneg_nonneg) auto
  ultimately show ?thesis
    using assms by (simp add: Seconds_pos fs fl64_mono flip: defs)
qed

lemma round6_nonneg: "0 \<le> v \<Longrightarrow> 0 \<le> round6 v"
  by (simp add: round6_def trunc_rat_def)

lemma round6_mono: "0 \<le> v \<Longrightarrow> v \<le> w \<Longrightarrow> round6 v \<le> round6 w"
  unfolding round6_def trunc_rat_def by (auto intro!: floor_mono fl64_mono simp: add_nonneg_nonneg)

text \<open>Below \<open>10 ^ 9\<close> seconds the printed time is within a microsecond of the duration.\<close>

lemma Seconds_error:
  assumes "0 \<le> d" "d \<le> 10 ^ 18"
  shows "\<bar>Seconds d - of_int d / 10 ^ 9\<bar> \<le> 13 / 10 ^ 8"
proof -
  define s n where "s = d div second" "n = d mod second"
  note defs = this
  have n: "0 \<le> n" "n < 10 ^ 9" by (simp_all add: defs second_def)
  have s: "0 \<le> s" "s \<le> 10 ^ 9" using assms by (auto simp: defs second_def)
  have d: "d = s * 10 ^ 9 + n" unfolding defs second_def by simp
  have fs: "fl64 (of_int s) = of_int s" using s by (intro fl64_of_int) auto
  have n': "0 \<le> (of_int n :: rat)" "(of_int n :: rat) < 10 ^ 9" "(0::rat) \<le> of_int s" "(of_int s :: rat) \<le> 10 ^ 9"
    using n s by (simp_all add: of_int_le_numeral_power_cancel_iff of_int_less_numeral_power_cancel_iff)
  let ?a = "of_int s + fl64 (of_int n / 10 ^ 9)"
  have e1: "\<bar>fl64 (of_int n / 10 ^ 9) - of_int n / 10 ^ 9\<bar> \<le> of_int n / 10 ^ 9 / 2 ^ 53"
    using n' by (intro fl64_error) simp
  have "0 \<le> fl64 (of_int n / 10 ^ 9)" using n' by simp
  then have "0 \<le> ?a" using n' by linarith
  then have e2: "\<bar>fl64 ?a - ?a\<bar> \<le> ?a / 2 ^ 53" by (rule fl64_error)
  have S: "Seconds d = fl64 ?a"
    using assms(1) by (simp add: Seconds_pos fs flip: defs)
  have D: "of_int d / 10 ^ 9 = (of_int s + of_int n / 10 ^ 9 :: rat)" by (simp add: d)
  show ?thesis using e1 e2 n' unfolding S D abs_le_iff by (simp add: field_simps)
qed

lemma round6_error:
  assumes "0 \<le> d" "d \<le> 10 ^ 18"
  shows "\<bar>of_int (round6 (Seconds d)) - (of_int d / 10 ^ 3 :: rat)\<bar> < 1"
proof -
  let ?v = "Seconds d" and ?x = "fl64 (Seconds d * 10 ^ 6)"
  have v: "0 \<le> ?v" using assms by (intro Seconds_nonneg)
  have d: "(0::rat) \<le> of_int d" "(of_int d :: rat) \<le> 10 ^ 18"
    using assms by (simp_all add: of_int_le_numeral_power_cancel_iff)
  note e0 = Seconds_error[OF assms]
  have e1: "\<bar>?x - ?v * 10 ^ 6\<bar> \<le> ?v * 10 ^ 6 / 2 ^ 53" using v by (intro fl64_error) simp
  have x: "0 \<le> ?x" using v by simp
  have e2: "\<bar>fl64 (?x + 1 / 2) - (?x + 1 / 2)\<bar> \<le> (?x + 1 / 2) / 2 ^ 53" using x by (intro fl64_error) simp
  have r: "round6 ?v = \<lfloor>fl64 (?x + 1 / 2)\<rfloor>" using x by (simp add: round6_def trunc_rat_def)
  have "of_int (round6 ?v) \<le> fl64 (?x + 1 / 2)" "fl64 (?x + 1 / 2) < of_int (round6 ?v) + 1"
    unfolding r by linarith+
  then show ?thesis using e0 e1 e2 d v x unfolding abs_less_iff abs_le_iff by (simp add: field_simps)
qed

end
