(* ===== verification/Go_Json.thy ===== *)
theory Go_Json
  imports Go_Time "HOL-Library.List_Lexorder" "HOL-Library.Char_ord"
begin

text \<open>
  The output side of Go's \<^verbatim>\<open>encoding/json\<close> as the program uses it: \<^verbatim>\<open>json.Marshal\<close> of structs, string
  maps and arrays, with its HTML-safe string escaping and its replacement of invalid UTF-8. The decoder
  of string literals is the one a JSON reader applies (RFC 8259); it serves to state what survives.
\<close>

section \<open>String literals\<close>

definition hex_digit :: "nat \<Rightarrow> char" where
  "hex_digit n = (if n < 10 then char_of (48 + n) else char_of (87 + n))"

definition html_safe :: "nat \<Rightarrow> bool" where
  "html_safe b \<longleftrightarrow> 0x20 \<le> b \<and> b \<notin> {0x22, 0x5C, 0x3C, 0x3E, 0x26}"

definition escape_ascii :: "nat \<Rightarrow> string" where
  "escape_ascii b =
     (if html_safe b then [char_of b]
      else if b = 0x22 \<or> b = 0x5C then [CHR 0x5C, char_of b]
      else if b = 8 then [CHR 0x5C, CHR ''b'']
      else if b = 12 then [CHR 0x5C, CHR ''f'']
      else if b = 10 then [CHR 0x5C, CHR ''n'']
      else if b = 13 then [CHR 0x5C, CHR ''r'']
      else if b = 9 then [CHR 0x5C, CHR ''t'']
      else [CHR 0x5C, CHR ''u'', CHR ''0'', CHR ''0'', hex_digit (b div 16), hex_digit (b mod 16)])"

definition escape_rune :: "nat \<times> string \<Rightarrow> string" where
  "escape_rune rb = (case rb of (r, bs) \<Rightarrow>
     if r < 128 then escape_ascii r
     else if r = rune_error \<and> length bs = 1 then CHR 0x5C # ''ufffd''
     else if r = 0x2028 \<or> r = 0x2029 then CHR 0x5C # ''u202'' @ [hex_digit (r mod 16)]
     else bs)"

definition json_escape :: "string \<Rightarrow> string" where
  "json_escape s = concat (map escape_rune (runes s))"

definition json_quote :: "string \<Rightarrow> string" where
  "json_quote s = CHR 0x22 # json_escape s @ [CHR 0x22]"

section \<open>Values\<close>

text \<open>
  \<open>JMicros k\<close> is the \<^verbatim>\<open>float64\<close> \<open>k / 10 ^ 6\<close> that \<^const>\<open>round6\<close> produces. Its shortest decimal is that
  of \<open>k / 10 ^ 6\<close> as long as \<open>k\<close> has at most fifteen digits (a duration below 31 years).
\<close>

datatype json = JInt int | JMicros int | JStr string | JArr "json list" | JObj "(string \<times> json) list"

definition fmt_micros :: "int \<Rightarrow> string" where
  "fmt_micros k =
     (let n = \<bar>k\<bar> in
      (if k < 0 then ''-'' else []) @ digits (nat (n div 1000000)) @
      (if n mod 1000000 = 0 then [] else ''.'' @ frac_digits 6 (n mod 1000000)))"

lemma fmt_micros_code [code]:
  "fmt_micros k =
     (let n = \<bar>k\<bar> in
      (if k < 0 then ''-'' else []) @ digits_int (n div 1000000) @
      (if n mod 1000000 = 0 then [] else ''.'' @ frac_digits 6 (n mod 1000000)))"
  by (simp add: fmt_micros_def digits_int_nat)

fun json_enc :: "json \<Rightarrow> string" where
  "json_enc (JInt i) = fmt_int i"
| "json_enc (JMicros k) = fmt_micros k"
| "json_enc (JStr s) = json_quote s"
| "json_enc (JArr xs) = ''['' @ join_with '','' (map json_enc xs) @ '']''"
| "json_enc (JObj kvs) =
     ''{'' @ join_with '','' (map (\<lambda>kv. json_quote (fst kv) @ '':'' @ json_enc (snd kv)) kvs) @ ''}''"

text \<open>\<^verbatim>\<open>map[string]any\<close> is marshalled in the order of its keys.\<close>

definition json_map :: "(string \<times> json) list \<Rightarrow> json" where
  "json_map kvs = JObj (sort_key fst kvs)"

section \<open>What a reader sees\<close>

definition utf8_encode3 :: "nat \<Rightarrow> string" where
  "utf8_encode3 r = [char_of (0xE0 + r div 4096), char_of (0x80 + r div 64 mod 64), char_of (0x80 + r mod 64)]"

definition hex_nibble :: "char \<Rightarrow> nat option" where
  "hex_nibble c =
     (let b = byte_val c in
      if 48 \<le> b \<and> b \<le> 57 then Some (b - 48)
      else if 97 \<le> b \<and> b \<le> 102 then Some (b - 87)
      else if 65 \<le> b \<and> b \<le> 70 then Some (b - 55) else None)"

definition hex4 :: "char \<Rightarrow> char \<Rightarrow> char \<Rightarrow> char \<Rightarrow> nat option" where
  "hex4 a b c d = (case (hex_nibble a, hex_nibble b, hex_nibble c, hex_nibble d) of
     (Some w, Some x, Some y, Some z) \<Rightarrow> Some (((w * 16 + x) * 16 + y) * 16 + z) | _ \<Rightarrow> None)"

definition utf8_encode_bmp :: "nat \<Rightarrow> string" where
  "utf8_encode_bmp r =
     (if r < 128 then [char_of r]
      else if r < 2048 then [char_of (0xC0 + r div 64), char_of (0x80 + r mod 64)]
      else utf8_encode3 r)"

definition short_escape :: "char \<Rightarrow> char option" where
  "short_escape c =
     (if c = CHR 0x22 \<or> c = CHR 0x5C \<or> c = CHR ''/'' then Some c
      else if c = CHR ''b'' then Some (CHR 8) else if c = CHR ''f'' then Some (CHR 12)
      else if c = CHR ''n'' then Some (CHR 10) else if c = CHR ''r'' then Some (CHR 13)
      else if c = CHR ''t'' then Some (CHR 9) else None)"

definition utf8_encode4 :: "nat \<Rightarrow> string" where
  "utf8_encode4 r = [char_of (0xF0 + r div 262144), char_of (0x80 + r div 4096 mod 64),
     char_of (0x80 + r div 64 mod 64), char_of (0x80 + r mod 64)]"

text \<open>\<^verbatim>\<open>utf16.DecodeRune\<close> of a surrogate and the escape that follows it, with the bytes after that escape.\<close>

definition surrogate :: "nat \<Rightarrow> bool" where
  "surrogate r \<longleftrightarrow> 0xD800 \<le> r \<and> r < 0xE000"

definition surrogate_pair :: "nat \<Rightarrow> string \<Rightarrow> (nat \<times> string) option" where
  "surrogate_pair hi s = (case s of b # u # w # x # y # z # rest \<Rightarrow>
       if b = CHR 0x5C \<and> u = CHR ''u'' then
         (case hex4 w x y z of
            None \<Rightarrow> None
          | Some lo \<Rightarrow> if hi < 0xDC00 \<and> 0xDC00 \<le> lo \<and> lo < 0xE000
                      then Some ((hi - 0xD800) * 1024 + (lo - 0xDC00) + 0x10000, rest) else None)
       else None
     | _ \<Rightarrow> None)"

text \<open>Invalid bytes become U+FFFD, every other rune stays as it is.\<close>

definition repair_rune :: "nat \<times> string \<Rightarrow> string" where
  "repair_rune rb = (case rb of (r, bs) \<Rightarrow>
     if r = rune_error \<and> length bs = 1 then utf8_encode3 rune_error else bs)"

definition repair_utf8 :: "string \<Rightarrow> string" where
  "repair_utf8 s = concat (map repair_rune (runes s))"

lemma surrogate_pair_shorter: "surrogate_pair r s = Some (r', t) \<Longrightarrow> length t < length s"
  by (auto simp: surrogate_pair_def split: list.splits if_splits option.splits)

text \<open>
  \<^verbatim>\<open>unquote\<close>: the contents of a string literal. A bare quote or control character is an error, a lone
  surrogate and an invalid byte become U+FFFD.
\<close>

function json_unescape :: "string \<Rightarrow> string option" where
  "json_unescape s = (case s of
       [] \<Rightarrow> Some []
     | c # cs \<Rightarrow>
         if c = CHR 0x5C then
           (case cs of
              [] \<Rightarrow> None
            | e # ds \<Rightarrow>
                if e = CHR ''u'' then
                  (case ds of
                     w # x # y # z # rest \<Rightarrow>
                       (case hex4 w x y z of
                          None \<Rightarrow> None
                        | Some r \<Rightarrow>
                            if \<not> surrogate r then map_option (append (utf8_encode_bmp r)) (json_unescape rest)
                            else (case surrogate_pair r rest of
                                    Some (r', rest') \<Rightarrow> map_option (append (utf8_encode4 r')) (json_unescape rest')
                                  | None \<Rightarrow> map_option (append (utf8_encode3 rune_error)) (json_unescape rest)))
                   | _ \<Rightarrow> None)
                else (case short_escape e of
                        None \<Rightarrow> None
                      | Some b \<Rightarrow> map_option (Cons b) (json_unescape ds)))
         else if c = CHR 0x22 \<or> byte_val c < 0x20 then None
         else if byte_val c < 128 then map_option (Cons c) (json_unescape cs)
         else let (r, w) = decode_rune s
              in map_option (append (repair_rune (r, take w s))) (json_unescape (drop w s)))"
  by pat_completeness auto
termination
proof (relation "measure length", goal_cases)
  case (7 s c cs x r w)
  then have "0 < w" using decode_rune_width_pos[of s] by (metis list.distinct(1) snd_conv)
  with 7 show ?case by simp
qed (auto dest!: surrogate_pair_shorter)

declare json_unescape.simps [simp del]

lemma json_unescape_Nil [simp]: "json_unescape [] = Some []"
  by (simp add: json_unescape.simps)

lemma repair_utf8_valid: "valid_utf8 s \<Longrightarrow> repair_utf8 s = s"
proof -
  assume v: "valid_utf8 s"
  have "map repair_rune (runes s) = map snd (runes s)"
    using v by (intro map_cong) (auto simp: valid_utf8_def repair_rune_def)
  then show ?thesis unfolding repair_utf8_def by (metis concat_runes)
qed

subsection \<open>Shape of decoded runes\<close>

lemma char_eq_of_val: "byte_val c = n \<Longrightarrow> c = char_of n"
  by (metis char_of_char)

lemma base_mod:
  fixes n a m :: nat
  assumes "a \<le> n" "n < a + m" "m dvd a"
  shows "n = a + n mod m" "n mod m < m"
proof -
  obtain k where k: "n = a + k" using assms(1) by (metis le_Suc_ex)
  with assms(2,3) have "n mod m = k" by (simp add: mod_add_eq mod_add_self1 dvd_eq_mod_eq_0 mod_add_left_eq[symmetric])
  with k assms(2) show "n = a + n mod m" "n mod m < m" by auto
qed

lemma utf8_sum2:
  fixes b x :: nat
  assumes "0xC2 \<le> b" "b < 0xE0"
  shows "128 \<le> (b mod 32) * 64 + x mod 64" "(b mod 32) * 64 + x mod 64 < 2048"
proof -
  have "b = 0xC0 + b mod 32" using assms by (intro base_mod) auto
  with assms have "2 \<le> b mod 32" by linarith
  moreover have "b mod 32 < 32" "x mod 64 < 64" by simp_all
  ultimately show "128 \<le> (b mod 32) * 64 + x mod 64" "(b mod 32) * 64 + x mod 64 < 2048" by linarith+
qed

lemma utf8_sum3:
  fixes b x y :: nat
  assumes b: "0xE0 \<le> b" "b < 0xF0" "b = 0xE0 \<longrightarrow> 0xA0 \<le> x" and x: "0x80 \<le> x" "x \<le> 0xBF"
    and y: "0x80 \<le> y" "y \<le> 0xBF"
  defines "r \<equiv> ((b mod 16) * 64 + x mod 64) * 64 + y mod 64"
  shows "2048 \<le> r" "b = 0xE0 + r div 4096" "x = 0x80 + r div 64 mod 64" "y = 0x80 + r mod 64"
proof -
  define b' x' y' where "b' = b mod 16" "x' = x mod 64" "y' = y mod 64"
  note defs = this
  have B: "b = 0xE0 + b'" "b' < 16" using base_mod[of "0xE0" b 16] b unfolding defs by simp_all
  have X: "x = 0x80 + x'" "x' < 64" using base_mod[of "0x80" x 64] x unfolding defs by simp_all
  have Y: "y = 0x80 + y'" "y' < 64" using base_mod[of "0x80" y 64] y unfolding defs by simp_all
  define k where "k = b' * 64 + x'"
  have r: "r = k * 64 + y'" by (simp add: r_def k_def defs)
  show "2048 \<le> r" using b(3) B X r k_def by (cases "b' = 0") auto
  show "y = 0x80 + r mod 64" using Y r by simp
  have d: "r div 64 = k" using Y r by simp
  have "k mod 64 = x'" "k div 64 = b'" using X by (simp_all add: k_def)
  moreover have "r div 4096 = r div 64 div 64" by (simp add: div_mult2_eq[symmetric])
  ultimately show "x = 0x80 + r div 64 mod 64" "b = 0xE0 + r div 4096" using B X d by simp_all
qed

lemma utf8_sum4:
  fixes b x y z :: nat
  assumes "0xF0 \<le> b" "b < 0xF5" "b = 0xF0 \<longrightarrow> 0x90 \<le> x" "0x80 \<le> x" "x \<le> 0xBF"
  shows "65536 \<le> (((b mod 8) * 64 + x mod 64) * 64 + y mod 64) * 64 + z mod 64"
proof -
  have b: "b = 0xF0 + b mod 8" using base_mod[of "0xF0" b 8] assms by simp
  have x: "x = 0x80 + x mod 64" using base_mod[of "0x80" x 64] assms by simp
  have "16 \<le> (b mod 8) * 64 + x mod 64" using assms b x by (cases "b mod 8 = 0") auto
  then have "(16 * 64 + 0) * 64 + 0 \<le> (((b mod 8) * 64 + x mod 64) * 64 + y mod 64) * 64 + z mod 64"
    by (intro add_mono mult_right_mono) simp_all
  then show ?thesis by simp
qed

lemma second_range_bounds:
  "second_range b = (lo, hi) \<Longrightarrow> 0x80 \<le> lo \<and> hi \<le> 0xBF \<and> (b = 0xE0 \<longrightarrow> lo = 0xA0) \<and> (b = 0xF0 \<longrightarrow> lo = 0x90)"
  by (auto simp: second_range_def split: if_splits)

definition rune_shape :: "nat \<Rightarrow> string \<Rightarrow> bool" where
  "rune_shape r bs \<longleftrightarrow>
     (r < 128 \<and> bs = [char_of r]) \<or>
     (r = rune_error \<and> length bs = 1) \<or>
     (128 \<le> r \<and> 2 \<le> length bs \<and> list_all (\<lambda>c. 128 \<le> byte_val c) bs \<and>
      (r = 0x2028 \<or> r = 0x2029 \<longrightarrow> bs = utf8_encode3 r))"

lemma rune_shape_error: "s \<noteq> [] \<Longrightarrow> rune_shape rune_error (take 1 s)"
  by (cases s) (simp_all add: rune_shape_def)

lemma rune_shape_multi:
  assumes "128 \<le> r" "list_all (\<lambda>c. 128 \<le> byte_val c) bs" "2 \<le> length bs" "r = 0x2028 \<or> r = 0x2029 \<Longrightarrow> bs = utf8_encode3 r"
  shows "rune_shape r bs"
  using assms unfolding rune_shape_def by blast

lemma decode_rune_shape:
  assumes dec: "decode_rune s = (r, w)" and ne: "s \<noteq> []"
  shows "rune_shape r (take w s)"
proof -
  obtain c cs where s: "s = c # cs" using ne by (cases s) auto
  obtain lo hi where sr: "second_range (byte_val c) = (lo, hi)" by (cases "second_range (byte_val c)")
  note B = second_range_bounds[OF sr]
  let ?b = "byte_val c" and ?w = "rune_width (byte_val c)"
  show ?thesis
  proof (cases "r = rune_error \<and> w = 1")
    case True
    then show ?thesis using rune_shape_error[OF ne] by simp
  next
    case noerr: False
    show ?thesis
    proof (cases "?w = 1")
      case True
      then have "?b < 128" by (simp add: rune_width_def split: if_splits)
      moreover have "w = 1" "r = ?b" using dec True by (auto simp: s sr Let_def)
      ultimately show ?thesis by (simp add: s rune_shape_def)
    next
      case False
      have w: "?w = w" "?w \<noteq> 0" "?w - 1 \<le> length cs" and x: "between lo hi (cs ! 0)"
        and l: "list_all (between 0x80 0xBF) (take (?w - 2) (drop 1 cs))"
        using dec False noerr by (simp_all add: s sr Let_def split: if_splits)
      have r: "r = (if w = 2 then (?b mod 32) * 64 + cont_bits (cs ! 0)
            else if w = 3 then ((?b mod 16) * 64 + cont_bits (cs ! 0)) * 64 + cont_bits (cs ! 1)
            else (((?b mod 8) * 64 + cont_bits (cs ! 0)) * 64 + cont_bits (cs ! 1)) * 64 + cont_bits (cs ! 2))"
        using dec False noerr w(1) by (auto simp: s sr Let_def split: if_splits)
      have "w = 2 \<or> w = 3 \<or> w = 4" using w False by (auto simp: rune_width_def split: if_splits)
      then show ?thesis
      proof (elim disjE)
        assume w2: "w = 2"
        then have b: "0xC2 \<le> ?b" "?b < 0xE0" using w(1) by (auto simp: rune_width_def split: if_splits)
        obtain x t where cs: "cs = x # t" using w w2 by (cases cs) auto
        show ?thesis unfolding w2 s
          by (rule rune_shape_multi)
            (use r w2 cs x B b utf8_sum2[OF b, of "byte_val x"] in \<open>auto simp: between_def cont_bits_def\<close>)
      next
        assume w3: "w = 3"
        then have b: "0xE0 \<le> ?b" "?b < 0xF0" using w(1) by (auto simp: rune_width_def split: if_splits)
        obtain x' y t where cs: "cs = x' # y # t"
          using w w3 by (cases cs; cases "tl cs") auto
        have X: "?b = 0xE0 \<longrightarrow> 0xA0 \<le> byte_val x'" "0x80 \<le> byte_val x'" "byte_val x' \<le> 0xBF"
          and Y: "0x80 \<le> byte_val y" "byte_val y \<le> 0xBF"
          using x l B w w3 cs by (auto simp: between_def)
        have r3: "r = ((?b mod 16) * 64 + byte_val x' mod 64) * 64 + byte_val y mod 64"
          using r w3 cs by (simp add: cont_bits_def)
        note S = utf8_sum3[OF b X Y, folded r3]
        show ?thesis unfolding w3 s
          by (rule rune_shape_multi)
            (use S(1) X Y b char_eq_of_val[OF S(2)] char_eq_of_val[OF S(3)] char_eq_of_val[OF S(4)]
              in \<open>auto simp: cs utf8_encode3_def\<close>)
      next
        assume w4: "w = 4"
        then have b: "0xF0 \<le> ?b" "?b < 0xF5" using w(1) by (auto simp: rune_width_def split: if_splits)
        obtain x' y z t where cs: "cs = x' # y # z # t"
          using w w4 by (cases cs; cases "tl cs"; cases "tl (tl cs)") auto
        have X: "?b = 0xF0 \<longrightarrow> 0x90 \<le> byte_val x'" "0x80 \<le> byte_val x'" "byte_val x' \<le> 0xBF"
          and Y: "0x80 \<le> byte_val y" "0x80 \<le> byte_val z"
          using x l B w w4 cs by (auto simp: between_def)
        show ?thesis unfolding w4 s
          by (rule rune_shape_multi)
            (use r w4 X Y b utf8_sum4[OF b X, of "byte_val y" "byte_val z"] in \<open>auto simp: cs cont_bits_def\<close>)
      qed
    qed
  qed
qed

lemma runes_shape: "(r, bs) \<in> set (runes s) \<Longrightarrow> rune_shape r bs"
proof (induction s rule: runes.induct)
  case (1 s)
  obtain r' w where d: "decode_rune s = (r', w)" by (cases "decode_rune s")
  show ?case
  proof (cases "s = []")
    case False
    then consider "r = r'" "bs = take w s" | "(r, bs) \<in> set (runes (drop w s))"
      using 1(2) d by (auto simp: runes.simps[of s])
    then show ?thesis
      using decode_rune_shape[OF d False] 1(1)[OF False refl d[symmetric]] by cases (simp_all add: d)
  qed (use 1(2) in simp)
qed

subsection \<open>Escaping is undone by the reader, up to invalid bytes\<close>

lemma hex_nibble_digit: "n < 16 \<Longrightarrow> hex_nibble (hex_digit n) = Some n"
  by (simp add: hex_nibble_def hex_digit_def Let_def)

lemma unescape_u:
  "hex4 w x y z = Some r \<Longrightarrow> \<not> surrogate r \<Longrightarrow>
   json_unescape (CHR 0x5C # CHR ''u'' # w # x # y # z # t) = map_option (append (utf8_encode_bmp r)) (json_unescape t)"
  by (subst json_unescape.simps) simp

lemma append_single: "append [b] = Cons b"
  by (simp add: fun_eq_iff)

lemma unescape_short:
  "short_escape e = Some b \<Longrightarrow> json_unescape (CHR 0x5C # e # t) = map_option (Cons b) (json_unescape t)"
  by (subst json_unescape.simps, cases "e = CHR ''u''") (simp_all add: short_escape_def)

lemma unescape_safe:
  "html_safe (byte_val c) \<Longrightarrow> byte_val c < 128 \<Longrightarrow> json_unescape (c # t) = map_option (Cons c) (json_unescape t)"
  by (subst json_unescape.simps) (auto simp: html_safe_def)

lemma unescape_multi:
  assumes "list_all (\<lambda>c. 128 \<le> byte_val c) bs" "bs \<noteq> []" "decode_rune (bs @ t) = (r, length bs)"
  shows "json_unescape (bs @ t) = map_option (append (repair_rune (r, bs))) (json_unescape t)"
proof -
  obtain c cs where bs: "bs = c # cs" using assms(2) by (cases bs) auto
  then have "c \<noteq> CHR 0x5C" "c \<noteq> CHR 0x22" "\<not> byte_val c < 0x20" "\<not> byte_val c < 128" using assms(1) by auto
  with assms(3) show ?thesis unfolding bs by (subst json_unescape.simps) (simp del: decode_rune.simps)
qed

text \<open>A rune of several bytes is decoded from these bytes alone.\<close>

lemma decode_rune_prefix:
  assumes "decode_rune s = (r, w)" "2 \<le> w"
  shows "decode_rune (take w s @ t) = (r, w)"
proof -
  obtain c cs where s: "s = c # cs" using assms by (cases s) auto
  obtain lo hi where sr: "second_range (byte_val c) = (lo, hi)" by (cases "second_range (byte_val c)")
  let ?w = "rune_width (byte_val c)"
  have w: "?w = w" "?w \<noteq> 0" "w - 1 \<le> length cs" using assms by (auto simp: s sr Let_def split: if_splits)
  have n: "(take (w - 1) cs @ t) ! i = cs ! i" if "i < w - 1" for i using that w(3) by (simp add: nth_append)
  have "w \<le> 4" using w(1) by (auto simp: rune_width_def split: if_splits)
  then have i: "0 < w - 1" "w \<noteq> 2 \<Longrightarrow> 1 < w - 1" "w \<noteq> 2 \<Longrightarrow> w \<noteq> 3 \<Longrightarrow> 2 < w - 1" using assms(2) by auto
  have tk: "take (w - 2) (drop 1 (take (w - 1) cs @ t)) = take (w - 2) (drop 1 cs)"
    using w(3) assms(2) by (simp add: drop_take)
  have "take w s = c # take (w - 1) cs" using assms(2) by (simp add: s take_Cons')
  with assms n[OF i(1)] n[OF i(2)] n[OF i(3)] tk w show ?thesis
    by (auto simp: s sr Let_def simp del: take_append drop_append split: if_splits)
qed

lemma runes_prefix: "(r, bs) \<in> set (runes s) \<Longrightarrow> 2 \<le> length bs \<Longrightarrow> decode_rune (bs @ t) = (r, length bs)"
proof (induction s rule: runes.induct)
  case (1 s)
  obtain r' w where d: "decode_rune s = (r', w)" by (cases "decode_rune s")
  show ?case
  proof (cases "s = []")
    case False
    then consider "r = r'" "bs = take w s" | "(r, bs) \<in> set (runes (drop w s))"
      using 1(2) d by (auto simp: runes.simps[of s])
    then show ?thesis
    proof cases
      case 1
      moreover have "w \<le> length s" using decode_rune_width_le[of s] d by simp
      ultimately show ?thesis using decode_rune_prefix[OF d] "1.prems"(2) by simp
    qed (use 1(1)[OF False refl d[symmetric]] 1(3) in simp)
  qed (use 1(2) in simp)
qed

lemma unescape_escape_ascii:
  assumes "b < 128"
  shows "json_unescape (escape_ascii b @ t) = map_option (append [char_of b]) (json_unescape t)"
proof (cases "html_safe b")
  case True
  then show ?thesis using assms unescape_safe[of "char_of b" t] by (simp add: escape_ascii_def append_single)
next
  case False
  show ?thesis
  proof (cases "b \<in> set [0x22, 0x5C, 8, 9, 10, 12, 13]")
    case True
    have "\<forall>b \<in> set [0x22, 0x5C, 8, 9, 10, 12, 13]. \<exists>e \<in> set [CHR 0x22, CHR 0x5C, CHR ''b'', CHR ''f'', CHR ''n'', CHR ''r'', CHR ''t''].
      escape_ascii b = [CHR 0x5C, e] \<and> short_escape e = Some (char_of b)" by code_simp
    with True obtain e where "escape_ascii b = [CHR 0x5C, e]" "short_escape e = Some (char_of b)" by blast
    then show ?thesis by (simp add: unescape_short append_single)
  next
    case other: False
    have z: "hex_nibble (CHR ''0'') = Some 0" by code_simp
    have "hex4 (CHR ''0'') (CHR ''0'') (hex_digit (b div 16)) (hex_digit (b mod 16)) = Some b"
      using assms by (simp add: hex4_def z hex_nibble_digit less_mult_imp_div_less)
    moreover have "escape_ascii b = [CHR 0x5C, CHR ''u'', CHR ''0'', CHR ''0'', hex_digit (b div 16), hex_digit (b mod 16)]"
      using False other by (simp add: escape_ascii_def)
    ultimately show ?thesis using assms by (simp add: unescape_u surrogate_def utf8_encode_bmp_def)
  qed
qed

lemma unescape_escape_rune:
  assumes "(r, bs) \<in> set (runes s)"
  shows "json_unescape (escape_rune (r, bs) @ t) = map_option (append (repair_rune (r, bs))) (json_unescape t)"
proof -
  consider (ascii) "r < 128" "bs = [char_of r]" | (err) "r = rune_error" "length bs = 1"
    | (sep) "r = 0x2028 \<or> r = 0x2029" "bs = utf8_encode3 r"
    | (multi) "128 \<le> r" "2 \<le> length bs" "list_all (\<lambda>c. 128 \<le> byte_val c) bs" "r \<noteq> 0x2028" "r \<noteq> 0x2029"
    using runes_shape[OF assms] unfolding rune_shape_def by argo
  then show ?thesis
  proof cases
    case ascii
    then show ?thesis by (simp add: escape_rune_def repair_rune_def unescape_escape_ascii rune_error_def)
  next
    case err
    have "hex4 (CHR ''f'') (CHR ''f'') (CHR ''f'') (CHR ''d'') = Some 0xFFFD" by (simp add: hex4_def hex_nibble_def Let_def)
    with err show ?thesis
      by (simp add: escape_rune_def repair_rune_def rune_error_def unescape_u surrogate_def utf8_encode_bmp_def)
  next
    case sep
    have n: "hex_nibble (CHR ''2'') = Some 2" "hex_nibble (CHR ''0'') = Some 0" by code_simp+
    have "hex4 (CHR ''2'') (CHR ''0'') (CHR ''2'') (hex_digit 8) = Some 0x2028"
      "hex4 (CHR ''2'') (CHR ''0'') (CHR ''2'') (hex_digit 9) = Some 0x2029"
      by (simp_all add: hex4_def n hex_nibble_digit)
    with sep show ?thesis
      by (auto simp: escape_rune_def repair_rune_def rune_error_def unescape_u surrogate_def utf8_encode_bmp_def)
  next
    case multi
    then have "bs \<noteq> []" by auto
    from unescape_multi[OF multi(3) this runes_prefix[OF assms multi(2)]] multi show ?thesis
      by (simp add: escape_rune_def rune_error_def)
  qed
qed

lemma json_unescape_escape: "json_unescape (json_escape s) = Some (repair_utf8 s)"
proof -
  have "set rs \<subseteq> set (runes s) \<Longrightarrow>
    json_unescape (concat (map escape_rune rs)) = Some (concat (map repair_rune rs))" for rs
    by (induction rs) (auto simp: unescape_escape_rune)
  then show ?thesis unfolding json_escape_def repair_utf8_def by blast
qed

subsection \<open>Encoded text stays on one line\<close>

definition printable :: "string \<Rightarrow> bool" where
  "printable s \<longleftrightarrow> list_all (\<lambda>c. 0x20 \<le> byte_val c) s"

lemma printable_append [simp]: "printable (s @ t) \<longleftrightarrow> printable s \<and> printable t"
  by (simp add: printable_def)

lemma printable_Cons [simp]: "printable (c # s) \<longleftrightarrow> 0x20 \<le> byte_val c \<and> printable s"
  by (simp add: printable_def)

lemma printable_Nil [simp]: "printable []"
  by (simp add: printable_def)

lemma printable_concat: "(\<And>s. s \<in> set ss \<Longrightarrow> printable s) \<Longrightarrow> printable (concat ss)"
  by (induction ss) auto

lemma printable_join: "printable sep \<Longrightarrow> (\<And>s. s \<in> set ss \<Longrightarrow> printable s) \<Longrightarrow> printable (join_with sep ss)"
  by (induction sep ss rule: join_with.induct) auto

lemma hex_digit_printable [simp]: "n < 16 \<Longrightarrow> 0x20 \<le> byte_val (hex_digit n)"
  by (auto simp: hex_digit_def)

lemma printable_escape_ascii: "b < 128 \<Longrightarrow> printable (escape_ascii b)"
  by (auto simp: escape_ascii_def html_safe_def less_mult_imp_div_less)

lemma printable_high: "list_all (\<lambda>c. 128 \<le> byte_val c) s \<Longrightarrow> printable s"
  by (induction s) auto

lemma printable_escape_rune: "rune_shape r bs \<Longrightarrow> printable (escape_rune (r, bs))"
  unfolding rune_shape_def
  by (auto simp: escape_rune_def printable_escape_ascii rune_error_def intro: printable_high)

lemma printable_json_escape: "printable (json_escape s)"
  unfolding json_escape_def by (intro printable_concat) (auto dest!: runes_shape intro: printable_escape_rune)

lemma printable_quote [simp]: "printable (json_quote s)"
  by (simp add: json_quote_def printable_json_escape)

lemma is_digit_printable: "is_digit c \<Longrightarrow> 0x20 \<le> byte_val c"
  by (simp add: is_digit_def)

lemma printable_digits [simp]: "printable (digits n)"
  by (auto simp: printable_def list_all_iff dest!: set_digits is_digit_printable)

lemma printable_fmt_int [simp]: "printable (fmt_int i)"
  by (simp add: fmt_int_def)

lemma printable_frac_digits: "0 \<le> n \<Longrightarrow> printable (frac_digits w n)"
  by (auto simp: frac_digits_def printable_def list_all_iff dest!: set_dropWhileD set_pad_int is_digit_printable)

lemma printable_fmt_micros [simp]: "printable (fmt_micros k)"
  by (simp add: fmt_micros_def Let_def printable_frac_digits)

lemma printable_json_enc: "printable (json_enc j)"
proof (induction j rule: json_enc.induct)
  case (4 xs)
  then show ?case by (auto intro!: printable_join)
next
  case (5 kvs)
  then show ?case by (auto intro!: printable_join)
qed simp_all

end
