(* ===== verification/Go_Rfc3339.thy ===== *)
theory Go_Rfc3339
  imports Go_Time "HOL-Library.Monad_Syntax"
begin

text \<open>
  Reading times back: the day number of a calendar date, and \<^verbatim>\<open>time.Parse\<close> with the layout
  \<^verbatim>\<open>time.RFC3339\<close>, which \<^verbatim>\<open>Time.UnmarshalJSON\<close> falls back to and which accepts all the stricter form
  accepts. The main lemma is that a printed time between the years 0 and 9999 is read back as it was.
\<close>

section \<open>Dates and days\<close>

definition leap :: "int \<Rightarrow> bool" where
  "leap y \<longleftrightarrow> y mod 4 = 0 \<and> (y mod 100 \<noteq> 0 \<or> y mod 400 = 0)"

definition daysIn :: "int \<Rightarrow> int \<Rightarrow> int" where
  "daysIn m y = (if m = 2 then (if leap y then 29 else 28) else if m \<in> {4, 6, 9, 11} then 30 else 31)"

text \<open>Days since 1970-01-01 of a date of the Gregorian calendar.\<close>

definition days_civil :: "int \<Rightarrow> int \<Rightarrow> int \<Rightarrow> int" where
  "days_civil y m d =
     (let y' = (if m \<le> 2 then y - 1 else y);
          era = y' div 400;
          yoe = y' mod 400;
          doy = (153 * (if m > 2 then m - 3 else m + 9) + 2) div 5 + d - 1
      in era * 146097 + (yoe * 365 + yoe div 4 - yoe div 100 + doy) - 719468)"

text \<open>The year of a day within its 400-year era, and the first day of that year.\<close>

definition year_start :: "int \<Rightarrow> int" where
  "year_start y = 365 * y + y div 4 - y div 100"

definition year_of :: "int \<Rightarrow> int" where
  "year_of doe = (doe - doe div 1460 + doe div 36524 - doe div 146096) div 365"

lemma div_between: "0 < k \<Longrightarrow> k * (x div k) \<le> x" "0 < k \<Longrightarrow> x < k * (x div k) + k" for x k :: int
  using mult_div_mod_eq[of k x] pos_mod_bound[of k x] pos_mod_sign[of k x] by linarith+

lemma div_unique: "k * q \<le> x \<Longrightarrow> x < k * q + k \<Longrightarrow> x div k = q" for x k q :: int
  by (rule int_div_pos_eq[of x k q "x - k * q"]) simp_all

lemma div_step:
  fixes y k :: int
  assumes "0 < k"
  shows "(y + 1) div k - y div k = (if (y + 1) mod k = 0 then 1 else 0)"
proof (cases "y mod k + 1 = k")
  case True
  then have e: "y + 1 = k * (y div k + 1) + 0" using mult_div_mod_eq[of k y] unfolding distrib_left by linarith
  show ?thesis unfolding int_div_pos_eq[OF e order.refl assms] int_mod_pos_eq[OF e order.refl assms] by simp
next
  case False
  then have r: "0 \<le> y mod k + 1" "y mod k + 1 < k" "y mod k + 1 \<noteq> 0"
    using assms pos_mod_bound[of k y] pos_mod_sign[of k y] by linarith+
  have e: "y + 1 = k * (y div k) + (y mod k + 1)" by simp
  show ?thesis unfolding int_div_pos_eq[OF e r(1,2)] int_mod_pos_eq[OF e r(1,2)] using r(3) by simp
qed

lemma year_of_century:
  fixes doe q c y :: int
  assumes "0 \<le> doe" "doe < 146096"
    and q: "1460 * q \<le> doe" "doe < 1460 * q + 1460"
    and c: "36524 * c \<le> doe" "doe < 36524 * c + 36524"
    and y: "365 * y \<le> doe - q + c" "doe - q + c < 365 * y + 365"
  shows "0 \<le> y" "y < 400" "y div 100 = c" "0 \<le> c" "c \<le> 3" "q \<le> 100"
proof -
  show c03: "0 \<le> c" "c \<le> 3" using assms by linarith+
  then have cs: "c = 0 \<or> c = 1 \<or> c = 2 \<or> c = 3" by linarith
  then have "100 * c \<le> y \<and> y < 100 * c + 100" using assms by (elim disjE) (simp; linarith)+
  then show "y div 100 = c" by (intro div_unique) blast+
  show "0 \<le> y" "y < 400" "q \<le> 100" using assms cs by linarith+
qed

lemma year_of_bounds_part:
  fixes doe q c y :: int
  assumes "0 \<le> doe" "doe < 146096"
    and q: "1460 * q \<le> doe" "doe < 1460 * q + 1460"
    and c: "36524 * c \<le> doe" "doe < 36524 * c + 36524"
    and y: "365 * y \<le> doe - q + c" "doe - q + c < 365 * y + 365"
  shows "year_start y \<le> doe" "doe < year_start (y + 1)"
proof -
  note C = year_of_century[OF assms]
  define f f' g where "f = y div 4" and "f' = (y + 1) div 4" and "g = (y + 1) div 100"
  have f: "4 * f \<le> y" "y < 4 * f + 4" "4 * f' \<le> y + 1" "y + 1 < 4 * f' + 4" unfolding f_def f'_def by (rule div_between; simp)+
  have "f \<le> q" using assms f C(4,5) by linarith
  then show "year_start y \<le> doe" using y C(3) by (simp add: year_start_def f_def)
  have "100 * c \<le> y" "y < 100 * c + 100" using div_between[of 100 y] C(3) by simp_all
  then have g: "g = c \<or> g = c + 1 \<and> y + 1 = 100 * (c + 1)"
    unfolding g_def by (cases "y + 1 = 100 * (c + 1)") (simp_all add: div_unique)
  then show "doe < year_start (y + 1)"
  proof
    assume "g = c"
    moreover have "q \<le> f'" using assms f C(6) by linarith
    ultimately show ?thesis using y by (simp add: year_start_def f'_def g_def)
  next
    assume h: "g = c + 1 \<and> y + 1 = 100 * (c + 1)"
    then have "f' = 25 * (c + 1)" unfolding f'_def by (intro div_unique) simp_all
    then show ?thesis using c h by (simp add: year_start_def f'_def g_def)
  qed
qed

lemma year_of_bounds:
  assumes "0 \<le> doe" "doe < 146097"
  shows "0 \<le> year_of doe" "year_of doe < 400" "year_start (year_of doe) \<le> doe"
    "doe < year_start (year_of doe + 1) \<or> doe = 146096 \<and> year_of doe = 399"
proof -
  let ?q = "doe div 1460" and ?c = "doe div 36524" and ?y = "year_of doe"
  have "0 \<le> ?y \<and> ?y < 400 \<and> year_start ?y \<le> doe \<and> (doe < year_start (?y + 1) \<or> doe = 146096 \<and> ?y = 399)"
  proof (cases "doe = 146096")
    case True
    then show ?thesis by (simp add: year_of_def year_start_def)
  next
    case False
    then have d: "0 \<le> doe" "doe < 146096" using assms by auto
    then have y: "?y = (doe - ?q + ?c) div 365" by (simp add: year_of_def)
    have b: "1460 * ?q \<le> doe" "doe < 1460 * ?q + 1460" "36524 * ?c \<le> doe" "doe < 36524 * ?c + 36524"
      "365 * ?y \<le> doe - ?q + ?c" "doe - ?q + ?c < 365 * ?y + 365" unfolding y by (simp_all add: div_between)
    show ?thesis using year_of_century[OF d b] year_of_bounds_part[OF d b] by blast
  qed
  then show "0 \<le> ?y" "?y < 400" "year_start ?y \<le> doe" "doe < year_start (?y + 1) \<or> doe = 146096 \<and> ?y = 399" by blast+
qed

lemma leap_era: "leap (y + era * 400) \<longleftrightarrow> leap y"
proof -
  have "era * 400 = 4 * (era * 100)" "era * 400 = 100 * (era * 4)" by simp_all
  then have "(y + era * 400) mod 4 = y mod 4" "(y + era * 400) mod 100 = y mod 100" by (metis mod_mult_self2)+
  then show ?thesis by (simp add: leap_def)
qed

text \<open>The day within a year that starts in March; the last day of a leap year is the 366th.\<close>

lemma day_of_year:
  assumes "0 \<le> doe" "doe < 146097"
  defines "doy \<equiv> doe - year_start (year_of doe)"
  shows "0 \<le> doy" "doy \<le> 364 \<or> doy = 365 \<and> leap (year_of doe + 1)"
proof -
  note Y = year_of_bounds[OF assms(1,2)]
  define y where "y = year_of doe"
  show "0 \<le> doy" using Y(3) by (simp add: doy_def)
  show "doy \<le> 364 \<or> doy = 365 \<and> leap (year_of doe + 1)"
  proof (cases "doe = 146096 \<and> year_of doe = 399")
    case True
    then have "doe = 146096" "year_of doe = 399" by blast+
    then show ?thesis unfolding doy_def \<open>year_of doe = 399\<close> by (simp add: year_start_def leap_def)
  next
    case False
    then have "doe < year_start (y + 1)" using Y(4) unfolding y_def by blast
    then have "doy < 365 + ((y + 1) div 4 - y div 4) - ((y + 1) div 100 - y div 100)"
      by (simp add: doy_def y_def year_start_def)
    moreover define a b where "a = (y + 1) div 4 - y div 4" and "b = (y + 1) div 100 - y div 100"
    ultimately have "doy < 365 + a - b" by simp
    moreover have "a = (if (y + 1) mod 4 = 0 then 1 else 0)" unfolding a_def by (rule div_step) simp
    moreover have "b = (if (y + 1) mod 100 = 0 then 1 else 0)" unfolding b_def by (rule div_step) simp
    ultimately show ?thesis unfolding leap_def y_def[symmetric] by (auto split: if_split_asm)
  qed
qed

text \<open>The month and the day within it of such a day; the months are counted from March.\<close>

lemma month_of_day:
  fixes doy :: int
  assumes "0 \<le> doy" "doy \<le> 365"
  defines "mp \<equiv> (5 * doy + 2) div 153"
  defines "d \<equiv> doy - (153 * mp + 2) div 5 + 1"
  shows "0 \<le> mp" "mp \<le> 11" "1 \<le> d"
    "d \<le> (if mp = 11 then (if doy = 365 then 29 else 28) else if mp \<in> {1, 3, 6, 8} then 30 else 31)"
proof -
  have b: "153 * mp \<le> 5 * doy + 2" "5 * doy + 2 < 153 * mp + 153" unfolding mp_def by (simp_all add: div_between)
  show mp: "0 \<le> mp" "mp \<le> 11" using b assms(1,2) by linarith+
  then have "mp \<in> set [0, 1, 2, 3, 4, 5, 6, 7, 8, 9, 10, 11]" unfolding set_simps insert_iff empty_iff by presburger
  then have "1 \<le> d \<and> d \<le> (if mp = 11 then (if doy = 365 then 29 else 28) else if mp \<in> {1, 3, 6, 8} then 30 else 31)"
    using b assms(2) unfolding d_def set_simps insert_iff empty_iff by (elim disjE) (simp_all; presburger?)+
  then show "1 \<le> d" "d \<le> (if mp = 11 then (if doy = 365 then 29 else 28) else if mp \<in> {1, 3, 6, 8} then 30 else 31)" by blast+
qed

text \<open>A date of the calendar: its month and day exist, and it has the day number it came from.\<close>

lemma civil_valid:
  assumes "civil z = (y, m, d)"
  shows "1 \<le> m" "m \<le> 12" "1 \<le> d" "d \<le> daysIn m y" "days_civil y m d = z"
proof -
  define era doe where "era = (z + 719468) div 146097" and "doe = (z + 719468) mod 146097"
  define yoe where "yoe = year_of doe"
  define doy where "doy = doe - year_start yoe"
  define mp where "mp = (5 * doy + 2) div 153"
  have z: "z = era * 146097 + doe - 719468" by (simp add: era_def doe_def)
  have doe: "0 \<le> doe" "doe < 146097" by (simp_all add: doe_def)
  note Y = year_of_bounds[OF doe, folded yoe_def] and D = day_of_year[OF doe, folded yoe_def, folded doy_def]
  have "doy \<le> 365" using D(2) by auto
  note M = month_of_day[OF D(1) this, folded mp_def]
  have m: "m = (if mp < 10 then mp + 3 else mp - 9)" and d: "d = doy - (153 * mp + 2) div 5 + 1"
    and y: "y = yoe + era * 400 + (if m \<le> 2 then 1 else 0)"
    using assms unfolding civil_def Let_def year_of_def[symmetric] year_start_def[symmetric]
      era_def[symmetric] doe_def[symmetric] yoe_def[symmetric] doy_def[symmetric] mp_def[symmetric] by auto
  show "1 \<le> m" "m \<le> 12" "1 \<le> d" using M by (auto simp: m d)
  have e: "(yoe + era * 400) div 400 = era" "(yoe + era * 400) mod 400 = yoe" "yoe mod 400 = yoe" using Y(1,2) by simp_all
  have "(if m > 2 then m - 3 else m + 9) = mp" "(if m \<le> 2 then y - 1 else y) = yoe + era * 400" using M(1,2) by (auto simp: m y)
  then show "days_civil y m d = z" by (simp add: days_civil_def Let_def e d doy_def year_start_def z)
  have "leap y" if "mp = 11" "doy = 365" using D(2) that leap_era[of "yoe + 1" era] by (simp add: y m algebra_simps)
  then show "d \<le> daysIn m y" using M by (auto simp: d daysIn_def m split: if_split_asm)
qed

section \<open>Decimal fields\<close>

lemma all_digits: "list_all is_digit (digits n)"
  by (auto simp: list_all_iff dest: set_digits)

lemma digits_leading: "digits n = CHR ''0'' # ds \<Longrightarrow> n = 0 \<and> ds = []"
proof (induction n arbitrary: ds rule: digits.induct)
  case (1 n)
  show ?case
  proof (cases "n < 10")
    case True
    then have "char_of (48 + n) = CHR ''0''" "ds = []" using 1(2) by (simp_all add: digits.simps[of n])
    then have "byte_val (char_of (48 + n) :: char) = 48" by simp
    with True \<open>ds = []\<close> show ?thesis by simp
  next
    case False
    then obtain ds' where "digits (n div 10) = CHR ''0'' # ds'" using 1(2)
      by (cases "digits (n div 10)") (auto simp: digits.simps[of n])
    with 1(1)[OF False this] False show ?thesis by (simp add: div_eq_0_iff)
  qed
qed

lemma frac_digits_not_Nil:
  assumes "0 < n"
  shows "frac_digits w n \<noteq> []"
proof
  assume "frac_digits w n = []"
  then have "\<forall>c \<in> set (pad_int w n). c = CHR ''0''" by (simp add: frac_digits_def dropWhile_eq_Nil_conv)
  then have "\<forall>c \<in> set (digits (nat n)). c = CHR ''0''" using assms by (simp add: pad_int_def Let_def)
  then obtain ds where "digits (nat n) = CHR ''0'' # ds" by (cases "digits (nat n)") auto
  with digits_leading[OF this] assms show False by simp
qed

lemma all_frac_digits: "0 \<le> n \<Longrightarrow> list_all is_digit (frac_digits w n)"
  by (auto simp: frac_digits_def list_all_iff dest!: set_dropWhileD set_pad_int)

lemma length_digits: "n < 10 ^ w \<Longrightarrow> 0 < w \<Longrightarrow> length (digits n) \<le> w"
proof (induction n arbitrary: w rule: digits.induct)
  case (1 n)
  show ?case
  proof (cases "n < 10")
    case True
    then show ?thesis using 1(3) by (simp add: digits.simps[of n])
  next
    case False
    then obtain v where w: "w = Suc v" "0 < v" using 1(2,3) by (cases w; cases "w - 1") auto
    then have "n div 10 < 10 ^ v" using 1(2) by (simp add: less_mult_imp_div_less mult.commute)
    then show ?thesis using 1(1)[OF False] w False by (simp add: digits.simps[of n])
  qed
qed

lemma digits_val_append: "digits_val (xs @ ys) = digits_val xs * 10 ^ length ys + digits_val ys"
proof (induction ys rule: rev_induct)
  case (snoc y ys)
  then show ?case by (simp add: digits_val_def algebra_simps flip: append_assoc)
qed (simp add: digits_val_def)

lemma digits_val_zeros [simp]: "digits_val (replicate n (CHR ''0'')) = 0"
  by (induction n) (simp_all add: digits_val_def digit_val_def)

lemma pad_int_value:
  assumes "0 \<le> i" "i < 10 ^ w" "0 < w"
  shows "length (pad_int w i) = w" "list_all is_digit (pad_int w i)" "int (digits_val (pad_int w i)) = i"
proof -
  have "nat i < 10 ^ w" using assms(1,2) by (simp add: nat_less_iff)
  then show "length (pad_int w i) = w" using length_digits[of "nat i" w] assms(1,3) by (simp add: pad_int_def Let_def)
  show "list_all is_digit (pad_int w i)" using set_pad_int[OF assms(1)] by (auto simp: list_all_iff)
  show "int (digits_val (pad_int w i)) = i" using assms(1) by (simp add: pad_int_def Let_def digits_val_append)
qed

text \<open>Dropping trailing zeros keeps the value of a fraction.\<close>

lemma frac_digits_value:
  assumes "0 \<le> n" "n < 10 ^ w" "0 < w"
  shows "length (frac_digits w n) \<le> w" "int (digits_val (frac_digits w n)) * 10 ^ (w - length (frac_digits w n)) = n"
proof -
  define zs where "zs = rev (takeWhile (\<lambda>c. c = CHR ''0'') (rev (pad_int w n)))"
  have p: "pad_int w n = frac_digits w n @ zs"
    unfolding frac_digits_def zs_def by (simp flip: rev_append)
  have z: "zs = replicate (length zs) (CHR ''0'')"
    by (rule replicate_length_same[symmetric]) (auto simp: zs_def dest: set_takeWhileD)
  note P = pad_int_value[OF assms, unfolded p]
  from P(1) show "length (frac_digits w n) \<le> w" by simp
  have "digits_val zs = 0" using z digits_val_zeros by metis
  with P(1,3) show "int (digits_val (frac_digits w n)) * 10 ^ (w - length (frac_digits w n)) = n"
    by (simp add: digits_val_append) (metis add_diff_cancel_left')
qed

section \<open>Reading a time\<close>

definition take_char :: "char \<Rightarrow> string \<Rightarrow> string option" where
  "take_char c s = (if HasPrefix s [c] then Some (tl s) else None)"

text \<open>A field of exactly \<open>n\<close> digits, in a range; the hour may also be a single digit.\<close>

definition take_digits :: "nat \<Rightarrow> string \<Rightarrow> (int \<times> string) option" where
  "take_digits n s =
     (if length s < n \<or> \<not> list_all is_digit (take n s) then None
      else Some (int (digits_val (take n s)), drop n s))"

definition take_field :: "nat \<Rightarrow> int \<Rightarrow> int \<Rightarrow> string \<Rightarrow> (int \<times> string) option" where
  "take_field n lo hi s = do { (v, r) \<leftarrow> take_digits n s; if lo \<le> v \<and> v \<le> hi then Some (v, r) else None }"

definition take_hour :: "string \<Rightarrow> (int \<times> string) option" where
  "take_hour s = (if 2 \<le> length s \<and> is_digit (s ! 1) then take_field 2 0 23 s else take_field 1 0 23 s)"

text \<open>A fraction after a period or a comma, cut at nanoseconds.\<close>

definition take_fraction :: "string \<Rightarrow> int \<times> string" where
  "take_fraction s =
     (if 2 \<le> length s \<and> (hd s = CHR ''.'' \<or> hd s = CHR '','') \<and> is_digit (s ! 1)
      then (let ds = take 9 (takeWhile is_digit (tl s))
            in (int (digits_val ds) * 10 ^ (9 - length ds), dropWhile is_digit (tl s)))
      else (0, s))"

text \<open>The zone, in seconds east of Greenwich; nothing may follow it.\<close>

definition take_zone :: "string \<Rightarrow> int option" where
  "take_zone s =
     (if s = ''Z'' then Some 0
      else if length s = 6 \<and> (hd s = CHR ''+'' \<or> hd s = CHR ''-'') then do {
        (hh, r) \<leftarrow> take_field 2 0 24 (tl s);
        r \<leftarrow> take_char (CHR '':'') r;
        (mm, r) \<leftarrow> take_field 2 0 60 r;
        Some ((if hd s = CHR ''-'' then - 1 else 1) * (hh * 60 + mm) * 60) }
      else None)"

definition parse_rfc3339 :: "string \<Rightarrow> time option" where
  "parse_rfc3339 s = do {
     (y, s) \<leftarrow> take_field 4 0 9999 s; s \<leftarrow> take_char (CHR ''-'') s;
     (m, s) \<leftarrow> take_field 2 1 12 s; s \<leftarrow> take_char (CHR ''-'') s;
     (d, s) \<leftarrow> take_field 2 1 (daysIn m y) s; s \<leftarrow> take_char (CHR ''T'') s;
     (hh, s) \<leftarrow> take_hour s; s \<leftarrow> take_char (CHR '':'') s;
     (mm, s) \<leftarrow> take_field 2 0 59 s; s \<leftarrow> take_char (CHR '':'') s;
     (ss, s) \<leftarrow> take_field 2 0 59 s;
     (case take_fraction s of (ns, s) \<Rightarrow> do {
        off \<leftarrow> take_zone s;
        Some ((days_civil y m d * 86400 + hh * 3600 + mm * 60 + ss - off) * second + ns) }) }"

text \<open>The zero \<^verbatim>\<open>time.Time\<close>, 0001-01-01T00:00:00Z.\<close>

definition zero_time :: time where "zero_time = - 62135596800 * second"

lemma take_field_pad:
  assumes "0 \<le> i" "i < 10 ^ n" "0 < n" "lo \<le> i" "i \<le> hi"
  shows "take_field n lo hi (pad_int n i @ r) = Some (i, r)"
  using pad_int_value[OF assms(1-3)] assms(4,5) by (simp add: take_field_def take_digits_def)

lemma take_char_Cons [simp]: "take_char c (c # s) = Some s"
  by (simp add: take_char_def HasPrefix_def)

lemma take_hour_pad: "0 \<le> i \<Longrightarrow> i \<le> 23 \<Longrightarrow> take_hour (pad_int 2 i @ r) = Some (i, r)"
  using pad_int_value[of i 2] take_field_pad[of i 2 0 23 r]
  by (auto simp: take_hour_def nth_append list_all_length)

lemma take_fraction_Z: "take_fraction ''Z'' = (0, ''Z'')"
  by (simp add: take_fraction_def)

lemma take_fraction_print:
  assumes "0 < ns" "ns < second"
  shows "take_fraction (CHR ''.'' # frac_digits 9 ns @ ''Z'') = (ns, ''Z'')"
proof -
  let ?f = "frac_digits 9 ns"
  have f: "length ?f \<le> 9" "int (digits_val ?f) * 10 ^ (9 - length ?f) = ns"
    using frac_digits_value[of ns 9] assms by (simp_all add: second_def)
  have a: "list_all is_digit ?f" "?f \<noteq> []" using all_frac_digits assms frac_digits_not_Nil by auto
  then have "is_digit (hd ?f)" by (cases ?f) auto
  have "takeWhile is_digit (?f @ ''Z'') = ?f" "dropWhile is_digit (?f @ ''Z'') = ''Z''"
    using a(1) by (simp_all add: takeWhile_append dropWhile_append list_all_iff is_digit_def)
  with f a \<open>is_digit (hd ?f)\<close> show ?thesis by (simp add: take_fraction_def Let_def nth_append hd_conv_nth)
qed

lemma parse_fmt_rfc3339:
  assumes "0 \<le> fst (civil (days_of t))" "fst (civil (days_of t)) \<le> 9999"
  shows "parse_rfc3339 (fmt_rfc3339 t) = Some t"
proof -
  obtain y m d where c: "civil (days_of t) = (y, m, d)" by (metis prod_cases3)
  note V = civil_valid[OF c]
  have d31: "d \<le> 31" using V(4) by (auto simp: daysIn_def split: if_split_asm)
  define s ns where "s = unix_seconds t mod 86400" and "ns = t mod second"
  define hh mm ss where "hh = s div 3600" and "mm = s mod 3600 div 60" and "ss = s mod 60"
  have s: "0 \<le> s" "s < 86400" by (simp_all add: s_def)
  have ns: "0 \<le> ns" "ns < second" by (simp_all add: ns_def second_def)
  have h: "0 \<le> hh" "hh \<le> 23" "0 \<le> mm" "mm \<le> 59" "0 \<le> ss" "ss \<le> 59"
    using s by (simp_all add: hh_def mm_def ss_def pos_imp_zdiv_nonneg_iff)
  have "ss = s mod 3600 mod 60" by (simp add: ss_def mod_mod_cancel)
  then have sum: "hh * 3600 + mm * 60 + ss = s" by (simp add: hh_def mm_def add.assoc)
  have "days_of t = unix_seconds t div 86400" by (simp add: days_of_def unix_seconds_def duration_units flip: zdiv_zmult2_eq)
  then have t: "(days_of t * 86400 + s) * second + ns = t" by (simp add: s_def ns_def unix_seconds_def)
  have y: "0 \<le> y" "y \<le> 9999" using assms c by simp_all
  have R: "take_field 4 0 9999 (pad_int 4 y @ r) = Some (y, r)" "take_field 2 1 12 (pad_int 2 m @ r) = Some (m, r)"
    "take_field 2 1 (daysIn m y) (pad_int 2 d @ r) = Some (d, r)" "take_hour (pad_int 2 hh @ r) = Some (hh, r)"
    "take_field 2 0 59 (pad_int 2 mm @ r) = Some (mm, r)"
    "take_field 2 0 59 (pad_int 2 ss @ r) = Some (ss, r)" for r
    using y V(1-4) d31 h by (intro take_field_pad take_hour_pad; simp)+
  have "parse_rfc3339 (fmt_rfc3339 t) =
      Some ((days_civil y m d * 86400 + hh * 3600 + mm * 60 + ss - 0) * second + ns)"
    unfolding parse_rfc3339_def fmt_rfc3339_def fmt_day_def c Let_def s_def[symmetric] ns_def[symmetric]
      hh_def[symmetric] mm_def[symmetric] ss_def[symmetric]
    by (simp only: R take_char_Cons append_assoc append_Cons append_Nil prod.case Option.bind.bind_lunit)
      (cases "ns = 0"; use ns take_fraction_print[of ns] in \<open>simp add: take_zone_def take_fraction_Z\<close>)
  also have "\<dots> = Some t" using sum t by (simp add: V(5) add.assoc)
  finally show ?thesis .
qed

end
