(* ===== verification/Go_Json_Read.thy ===== *)
theory Go_Json_Read
  imports Go_Json Go_Rfc3339
begin

text \<open>
  The input side of \<^verbatim>\<open>encoding/json\<close> as the program uses it: \<^verbatim>\<open>json.Unmarshal\<close> into structs whose fields are
  strings, unsigned numbers, floats, times and slices of such structs. A text is scanned into a tree whose
  string and number literals are kept as written; the fields of a struct are then set from the tree in the
  order of the text. The main lemma is that scanning undoes \<^const>\<open>json_enc\<close>.
\<close>

section \<open>Scanning\<close>

datatype jval = VNull | VBool bool | VNum string | VStr string | VArr "jval list" | VObj "(string \<times> jval) list"

definition skip_ws :: "string \<Rightarrow> string" where
  "skip_ws = dropWhile (\<lambda>c. c \<in> {CHR '' '', CHR 0x09, CHR 0x0A, CHR 0x0D})"

text \<open>The body of a string literal up to its closing quote, escapes kept and checked.\<close>

fun scan_string :: "string \<Rightarrow> (string \<times> string) option" where
  "scan_string [] = None"
| "scan_string (c # cs) =
     (if c = CHR 0x22 then Some ([], cs)
      else if c = CHR 0x5C then
        (case cs of
           [] \<Rightarrow> None
         | e # ds \<Rightarrow>
             if e = CHR ''u'' then
               (case ds of
                  w # x # y # z # rest \<Rightarrow>
                    if hex4 w x y z = None then None
                    else map_option (apfst (append [c, e, w, x, y, z])) (scan_string rest)
                | _ \<Rightarrow> None)
             else if short_escape e = None then None
             else map_option (apfst (append [c, e])) (scan_string ds))
      else if byte_val c < 0x20 then None
      else map_option (apfst (Cons c)) (scan_string cs))"

declare scan_string.simps(2) [simp del]

text \<open>A number: sign, integer part without leading zeros, fraction, exponent.\<close>

definition scan_digits :: "string \<Rightarrow> (string \<times> string) option" where
  "scan_digits s = (let ds = takeWhile is_digit s in if ds = [] then None else Some (ds, dropWhile is_digit s))"

definition scan_int :: "string \<Rightarrow> (string \<times> string) option" where
  "scan_int s = (if HasPrefix s ''0'' then Some (''0'', tl s) else scan_digits s)"

definition scan_frac :: "string \<Rightarrow> (string \<times> string) option" where
  "scan_frac s = (if HasPrefix s ''.'' then map_option (apfst (append ''.'')) (scan_digits (tl s)) else Some ([], s))"

definition scan_sign :: "string \<Rightarrow> string \<times> string" where
  "scan_sign s = (if HasPrefix s ''-'' \<or> HasPrefix s ''+'' then (take 1 s, tl s) else ([], s))"

definition scan_exp :: "string \<Rightarrow> (string \<times> string) option" where
  "scan_exp s =
     (if HasPrefix s ''e'' \<or> HasPrefix s ''E''
      then (let (sg, r) = scan_sign (tl s) in map_option (apfst (append (take 1 s @ sg))) (scan_digits r))
      else Some ([], s))"

definition scan_number :: "string \<Rightarrow> (string \<times> string) option" where
  "scan_number s = (let (sg, r) = (if HasPrefix s ''-'' then (''-'', tl s) else ([], s)) in
     do { (i, r) \<leftarrow> scan_int r; (f, r) \<leftarrow> scan_frac r; (e, r) \<leftarrow> scan_exp r; Some (sg @ i @ f @ e, r) })"

text \<open>
  One value. The first argument is the nesting still allowed, of \<^verbatim>\<open>maxNestingDepth\<close>; the number given to
  the element and member loops bounds their rounds, and the length of the text is enough.
\<close>

fun scan_value :: "int \<Rightarrow> string \<Rightarrow> (jval \<times> string) option"
  and scan_elements :: "int \<Rightarrow> nat \<Rightarrow> string \<Rightarrow> (jval list \<times> string) option"
  and scan_members :: "int \<Rightarrow> nat \<Rightarrow> string \<Rightarrow> ((string \<times> jval) list \<times> string) option" where
  "scan_value d s =
     (case skip_ws s of
        [] \<Rightarrow> None
      | c # r \<Rightarrow>
          if c = CHR ''{'' then
            (if d \<le> 0 then None
             else if HasPrefix (skip_ws r) ''}'' then Some (VObj [], tl (skip_ws r))
             else map_option (apfst VObj) (scan_members (d - 1) (length r) r))
          else if c = CHR ''['' then
            (if d \<le> 0 then None
             else if HasPrefix (skip_ws r) '']'' then Some (VArr [], tl (skip_ws r))
             else map_option (apfst VArr) (scan_elements (d - 1) (length r) r))
          else if c = CHR 0x22 then map_option (apfst VStr) (scan_string r)
          else if HasPrefix (c # r) ''null'' then Some (VNull, drop 3 r)
          else if HasPrefix (c # r) ''true'' then Some (VBool True, drop 3 r)
          else if HasPrefix (c # r) ''false'' then Some (VBool False, drop 4 r)
          else map_option (apfst VNum) (scan_number (c # r)))"
| "scan_elements d 0 s = None"
| "scan_elements d (Suc n) s = do {
     (v, r) \<leftarrow> scan_value d s;
     (case skip_ws r of
        [] \<Rightarrow> None
      | c # t \<Rightarrow>
          if c = CHR '','' then map_option (apfst (Cons v)) (scan_elements d n t)
          else if c = CHR '']'' then Some ([v], t) else None) }"
| "scan_members d 0 s = None"
| "scan_members d (Suc n) s =
     (if \<not> HasPrefix (skip_ws s) [CHR 0x22] then None
      else do {
        (k, r) \<leftarrow> scan_string (tl (skip_ws s));
        (if \<not> HasPrefix (skip_ws r) '':'' then None
         else do {
           (v, t) \<leftarrow> scan_value d (tl (skip_ws r));
           (case skip_ws t of
              [] \<Rightarrow> None
            | c # u \<Rightarrow>
                if c = CHR '','' then map_option (apfst (Cons (k, v))) (scan_members d n u)
                else if c = CHR ''}'' then Some ([(k, v)], u) else None) }) })"

definition max_depth :: int where "max_depth = 10000"

definition json_scan :: "string \<Rightarrow> jval option" where
  "json_scan s = do { (v, r) \<leftarrow> scan_value max_depth s; if skip_ws r = [] then Some v else None }"

declare scan_value.simps [simp del] scan_elements.simps(2) [simp del] scan_members.simps(2) [simp del]

subsection \<open>The loops' rounds are enough\<close>

lemma skip_ws_length: "length (skip_ws s) \<le> length s"
  unfolding skip_ws_def by (rule length_dropWhile_le)

lemma skip_ws_Nil [simp]: "skip_ws [] = []"
  by (simp add: skip_ws_def)

lemma skip_ws_Cons_length: "skip_ws s = c # r \<Longrightarrow> length r < length s"
  using skip_ws_length[of s] by simp

lemma scan_string_length: "scan_string s = Some (b, r) \<Longrightarrow> length r < length s"
  by (induction s arbitrary: b rule: scan_string.induct)
    (fastforce simp: scan_string.simps(2) split: if_splits list.splits)+

lemma scan_digits_length: "scan_digits s = Some (b, r) \<Longrightarrow> length r < length s"
  by (cases s) (auto simp: scan_digits_def Let_def length_dropWhile_le less_Suc_eq_le split: if_splits)

lemma scan_int_length: "scan_int s = Some (b, r) \<Longrightarrow> length r < length s"
  by (cases s) (auto simp: scan_int_def HasPrefix_def split: if_splits dest: scan_digits_length)

lemma scan_frac_length: "scan_frac s = Some (b, r) \<Longrightarrow> length r \<le> length s"
  by (cases s) (auto simp: scan_frac_def split: if_splits dest: scan_digits_length)

lemma scan_exp_length: "scan_exp s = Some (b, r) \<Longrightarrow> length r \<le> length s"
  by (cases s) (auto simp: scan_exp_def scan_sign_def split: if_splits dest!: scan_digits_length)

lemma scan_number_length: "scan_number s = Some (b, r) \<Longrightarrow> length r < length s"
  by (auto simp: scan_number_def bind_eq_Some_conv split: if_splits
      dest!: scan_int_length scan_frac_length scan_exp_length)

lemmas scan_lengths = scan_string_length scan_number_length skip_ws_Cons_length

lemma scan_value_length:
  "scan_value d s = Some (v, r) \<Longrightarrow> length r < length s"
  "scan_elements d n s = Some (vs, r) \<Longrightarrow> length r < length s"
  "scan_members d n s = Some (kvs, r) \<Longrightarrow> length r < length s"
proof (induction d s and d n s and d n s arbitrary: v r and vs r and kvs r
    rule: scan_value_scan_elements_scan_members.induct)
  case (1 d s)
  obtain c t where s: "skip_ws s = c # t" using 1 by (auto simp: scan_value.simps split: list.splits)
  have t: "length t < length s" by (rule skip_ws_Cons_length[OF s])
  have w: "length (tl (skip_ws t)) \<le> length t" using skip_ws_length[of t] by simp
  have m: "scan_members (d - 1) (length t) t = Some (kvs, r) \<Longrightarrow> \<not> d \<le> 0 \<Longrightarrow> c = CHR ''{'' \<Longrightarrow>
      \<not> HasPrefix (skip_ws t) ''}'' \<Longrightarrow> length r < length t" for kvs using 1(1)[OF s] by blast
  have e: "scan_elements (d - 1) (length t) t = Some (vs, r) \<Longrightarrow> \<not> d \<le> 0 \<Longrightarrow> c = CHR ''['' \<Longrightarrow>
      \<not> HasPrefix (skip_ws t) '']'' \<Longrightarrow> length r < length t" for vs using 1(2)[OF s] by blast
  have n: "scan_number (c # t) = Some (b, r) \<Longrightarrow> length r < length s" for b
    using scan_number_length[of "c # t" b r] skip_ws_length[of s] by (simp add: s)
  have q: "scan_string t = Some (b, r) \<Longrightarrow> length r < length t" for b by (rule scan_string_length)
  consider (obj) "c = CHR ''{''" | (arr) "c = CHR ''[''" | (str) "c = CHR 0x22"
    | (lit) "c \<noteq> CHR ''{''" "c \<noteq> CHR ''[''" "c \<noteq> CHR 0x22" by blast
  then show ?case
  proof cases
    case obj
    then show ?thesis using 1(3) t w m by (auto simp: scan_value.simps s split: if_split_asm)
  next
    case arr
    then show ?thesis using 1(3) t w e by (auto simp: scan_value.simps s split: if_split_asm)
  next
    case str
    then show ?thesis using 1(3) t by (auto simp: scan_value.simps s dest!: scan_string_length)
  next
    case lit
    then show ?thesis using 1(3) t n by (auto simp: scan_value.simps s split: if_split_asm)
  qed
next
  case (3 d n s)
  obtain v t where v: "scan_value d s = Some (v, t)" using 3(3) by (auto simp: scan_elements.simps(2) bind_eq_Some_conv)
  obtain c u where t: "skip_ws t = c # u" using 3(3) v by (auto simp: scan_elements.simps(2) split: list.splits)
  have "length u < length s" using skip_ws_Cons_length[OF t] 3(1)[OF v] by simp
  then show ?case using 3(2)[OF v refl t] 3(3) by (auto simp: scan_elements.simps(2) v t split: if_split_asm)
next
  case (5 d n s)
  have p: "HasPrefix (skip_ws s) [CHR 0x22]" using 5(3) by (auto simp: scan_members.simps(2) split: if_split_asm)
  obtain k r' where k: "scan_string (tl (skip_ws s)) = Some (k, r')"
    using 5(3) p by (auto simp: scan_members.simps(2) bind_eq_Some_conv)
  have c: "HasPrefix (skip_ws r') '':''" using 5(3) p k by (auto simp: scan_members.simps(2) split: if_split_asm)
  obtain v t where v: "scan_value d (tl (skip_ws r')) = Some (v, t)"
    using 5(3) p k c by (auto simp: scan_members.simps(2) bind_eq_Some_conv)
  obtain x u where t: "skip_ws t = x # u" using 5(3) p k c v by (auto simp: scan_members.simps(2) split: list.splits)
  have "length u < length s"
    using skip_ws_Cons_length[OF t] 5(1)[OF _ k refl _ v] p c scan_string_length[OF k] skip_ws_length[of s] skip_ws_length[of r']
    by simp
  then show ?case using 5(2)[OF _ k refl _ v refl t] p c 5(3) by (auto simp: scan_members.simps(2) k v t split: if_split_asm)
qed simp_all

lemma scan_elements_rounds: "length s \<le> n \<Longrightarrow> length s \<le> m \<Longrightarrow> scan_elements d n s = scan_elements d m s"
proof (induction n arbitrary: s m)
  case 0
  then show ?case by (cases m) (simp_all add: scan_elements.simps(2) scan_value.simps)
next
  case (Suc n)
  show ?case
  proof (cases m)
    case 0
    then show ?thesis using Suc by (simp add: scan_elements.simps(2) scan_value.simps)
  next
    case m: (Suc m')
    have "scan_elements d n u = scan_elements d m' u" if "scan_value d s = Some (v, t)" "skip_ws t = c # u" for v t c u
      using Suc.IH[of u m'] Suc.prems scan_value_length(1)[OF that(1)] skip_ws_Cons_length[OF that(2)] by (simp add: m)
    then show ?thesis by (auto simp: m scan_elements.simps(2) split: bind_splits list.splits)
  qed
qed

lemma scan_members_rounds: "length s \<le> n \<Longrightarrow> length s \<le> m \<Longrightarrow> scan_members d n s = scan_members d m s"
proof (induction n arbitrary: s m)
  case 0
  then show ?case by (cases m) (simp_all add: scan_members.simps(2) HasPrefix_def)
next
  case (Suc n)
  show ?case
  proof (cases m)
    case 0
    then show ?thesis using Suc by (simp add: scan_members.simps(2) HasPrefix_def)
  next
    case m: (Suc m')
    have "scan_members d n u = scan_members d m' u"
      if "scan_string (tl (skip_ws s)) = Some (k, r)" "scan_value d (tl (skip_ws r)) = Some (v, t)" "skip_ws t = c # u" for k r v t c u
    proof -
      have "length u < length s"
        using skip_ws_Cons_length[OF that(3)] scan_value_length(1)[OF that(2)] scan_string_length[OF that(1)]
          skip_ws_length[of s] skip_ws_length[of r] by simp
      then show ?thesis using Suc.IH[of u m'] Suc.prems by (simp add: m)
    qed
    then show ?thesis by (auto simp: m scan_members.simps(2) split: bind_splits list.splits)
  qed
qed

section \<open>Scanning undoes encoding\<close>

fun scanned :: "json \<Rightarrow> jval" where
  "scanned (JInt i) = VNum (fmt_int i)"
| "scanned (JMicros k) = VNum (fmt_micros k)"
| "scanned (JStr s) = VStr (json_escape s)"
| "scanned (JArr xs) = VArr (map scanned xs)"
| "scanned (JObj kvs) = VObj (map (\<lambda>kv. (json_escape (fst kv), scanned (snd kv))) kvs)"

text \<open>Nesting within a bound.\<close>

fun nested :: "int \<Rightarrow> json \<Rightarrow> bool" where
  "nested d (JArr xs) \<longleftrightarrow> 0 < d \<and> (\<forall>x \<in> set xs. nested (d - 1) x)"
| "nested d (JObj kvs) \<longleftrightarrow> 0 < d \<and> (\<forall>kv \<in> set kvs. nested (d - 1) (snd kv))"
| "nested d _ \<longleftrightarrow> True"

text \<open>What may follow a number without being read as part of it.\<close>

definition number_ends :: "string \<Rightarrow> bool" where
  "number_ends t \<longleftrightarrow> (case t of [] \<Rightarrow> True | c # _ \<Rightarrow> \<not> is_digit c \<and> c \<notin> {CHR ''.'', CHR ''e'', CHR ''E''})"

lemma scan_string_high:
  "list_all (\<lambda>c. 128 \<le> byte_val c) bs \<Longrightarrow> scan_string (bs @ t) = map_option (apfst (append bs)) (scan_string t)"
proof (induction bs)
  case Nil
  then show ?case by (cases "scan_string t") auto
next
  case (Cons c bs)
  then have "c \<noteq> CHR 0x5C" "c \<noteq> CHR 0x22" "\<not> byte_val c < 0x20" by auto
  then show ?case using Cons by (simp add: scan_string.simps(2) option.map_comp comp_def apfst_compose)
qed

lemma scan_string_u:
  "hex4 w x y z = Some r \<Longrightarrow> scan_string (CHR 0x5C # CHR ''u'' # w # x # y # z # t) =
     map_option (apfst (append [CHR 0x5C, CHR ''u'', w, x, y, z])) (scan_string t)"
  by (simp add: scan_string.simps(2))

lemma surrogate_pair_Some:
  "surrogate_pair r s = Some (r', t) \<Longrightarrow>
   \<exists>w x y z. s = CHR 0x5C # CHR ''u'' # w # x # y # z # t \<and> hex4 w x y z \<noteq> None"
  by (auto simp: surrogate_pair_def split: list.splits if_splits option.splits)

text \<open>Whatever has a value as the contents of a literal is scanned as one.\<close>

lemma scan_unicode_escape:
  assumes b: "b = CHR 0x5C # CHR ''u'' # w # x # y # z # rest" and h: "hex4 w x y z = Some r"
    and ok: "json_unescape b \<noteq> None"
    and IH: "\<And>b'. length b' < length b \<Longrightarrow> json_unescape b' \<noteq> None \<Longrightarrow> scan_string (b' @ CHR 0x22 # t) = Some (b', t)"
  shows "scan_string (b @ CHR 0x22 # t) = Some (b, t)"
proof -
  consider (pair) r' rest' where "surrogate r" "surrogate_pair r rest = Some (r', rest')"
    | (one) "json_unescape rest \<noteq> None"
    using ok h unfolding b by (subst (asm) json_unescape.simps) (auto split: if_split_asm option.splits)
  then show ?thesis
  proof cases
    case pair
    then have u: "json_unescape rest' \<noteq> None" using ok h by (subst (asm) json_unescape.simps) (simp add: b)
    obtain w' x' y' z' r2 where p: "rest = CHR 0x5C # CHR ''u'' # w' # x' # y' # z' # rest'" "hex4 w' x' y' z' = Some r2"
      using surrogate_pair_Some[OF pair(2)] by blast
    then show ?thesis using IH[OF _ u] by (simp add: b scan_string_u[OF h] scan_string_u[OF p(2)])
  next
    case one
    then show ?thesis using IH[OF _ one] by (simp add: b scan_string_u[OF h])
  qed
qed

lemma scan_escape:
  assumes b: "b = CHR 0x5C # cs" and ok: "json_unescape b \<noteq> None"
    and IH: "\<And>b'. length b' < length b \<Longrightarrow> json_unescape b' \<noteq> None \<Longrightarrow> scan_string (b' @ CHR 0x22 # t) = Some (b', t)"
  shows "scan_string (b @ CHR 0x22 # t) = Some (b, t)"
proof -
  obtain e ds where cs: "cs = e # ds" using ok b by (subst (asm) json_unescape.simps) (auto split: list.splits)
  show ?thesis
  proof (cases "e = CHR ''u''")
    case False
    then have u: "short_escape e \<noteq> None" "json_unescape ds \<noteq> None"
      using ok b cs by (subst (asm) json_unescape.simps, auto split: option.splits)+
    then show ?thesis using IH[OF _ u(2)] False by (simp add: b cs scan_string.simps(2))
  next
    case True
    then obtain w x y z rest r where "ds = w # x # y # z # rest" "hex4 w x y z = Some r"
      using ok b cs by (subst (asm) json_unescape.simps) (auto split: list.splits option.splits)
    with scan_unicode_escape[OF _ _ ok IH] True show ?thesis by (simp add: b cs)
  qed
qed

lemma scan_high:
  assumes b: "b = c # cs" "128 \<le> byte_val c" and ok: "json_unescape b \<noteq> None"
    and IH: "\<And>b'. length b' < length b \<Longrightarrow> json_unescape b' \<noteq> None \<Longrightarrow> scan_string (b' @ CHR 0x22 # t) = Some (b', t)"
  shows "scan_string (b @ CHR 0x22 # t) = Some (b, t)"
proof -
  obtain r w where d: "decode_rune b = (r, w)" by (cases "decode_rune b")
  have ne: "b \<noteq> []" using b by simp
  have w: "0 < w" using decode_rune_width_pos[OF ne] d by simp
  then have h: "list_all (\<lambda>c. 128 \<le> byte_val c) (take w b)"
    using decode_rune_shape[OF d ne] b by (cases w) (auto simp: rune_shape_def min_def split: if_split_asm)
  have "c \<noteq> CHR 0x5C" using b(2) by auto
  then have u: "json_unescape (drop w b) \<noteq> None"
    using ok b d by (subst (asm) json_unescape.simps) (auto split: if_split_asm)
  have "scan_string (drop w b @ CHR 0x22 # t) = Some (drop w b, t)" using IH[OF _ u] w ne by simp
  then show ?thesis using scan_string_high[OF h, of "drop w b @ CHR 0x22 # t"] by (simp flip: append_assoc)
qed

lemma scan_string_body: "json_unescape b \<noteq> None \<Longrightarrow> scan_string (b @ CHR 0x22 # t) = Some (b, t)"
proof (induction b rule: length_induct)
  case (1 b)
  then have IH: "length b' < length b \<Longrightarrow> json_unescape b' \<noteq> None \<Longrightarrow> scan_string (b' @ CHR 0x22 # t) = Some (b', t)" for b' by blast
  show ?case
  proof (cases b)
    case Nil
    then show ?thesis by (simp add: scan_string.simps(2))
  next
    case (Cons c cs)
    consider "c = CHR 0x5C" | "128 \<le> byte_val c" | (plain) "c \<noteq> CHR 0x5C" "byte_val c < 128" by linarith
    then show ?thesis
    proof cases
      case plain
      then have u: "c \<noteq> CHR 0x22" "\<not> byte_val c < 0x20" "json_unescape cs \<noteq> None"
        using 1(2) Cons by (subst (asm) json_unescape.simps, auto split: if_split_asm)+
      then show ?thesis using IH[OF _ u(3)] plain Cons by (simp add: scan_string.simps(2))
    qed (use scan_escape[OF _ 1(2) IH] scan_high[OF Cons _ 1(2) IH] Cons in \<open>simp_all\<close>)
  qed
qed

text \<open>Conversely, a scanned literal always has a value: filling a struct never fails on its keys.\<close>

lemma map_apfst_Some [simp]: "map_option (apfst (append xs)) z = Some (xs @ ys, t) \<longleftrightarrow> z = Some (ys, t)"
  by (cases z) auto

lemma map_apfst_SomeE:
  assumes "map_option (apfst (append p)) (scan_string s) = Some (b, r)"
  obtains b' where "scan_string s = Some (b', r)" "b = p @ b'"
  using assms by (cases "scan_string s") auto

lemma scan_string_step:
  assumes "scan_string (c # cs) = Some (b, r)" "c \<noteq> CHR 0x22"
  shows "\<exists>p s' b'. p \<noteq> [] \<and> c # cs = p @ s' \<and> b = p @ b' \<and> scan_string s' = Some (b', r)"
proof -
  consider (u) w x y z rest where "c = CHR 0x5C" "cs = CHR ''u'' # w # x # y # z # rest" "hex4 w x y z \<noteq> None"
    | (short) e ds where "c = CHR 0x5C" "cs = e # ds" "e \<noteq> CHR ''u''" "short_escape e \<noteq> None"
    | (plain) "c \<noteq> CHR 0x5C" "\<not> byte_val c < 0x20"
    using assms by (auto simp: scan_string.simps(2) split: list.splits if_split_asm)
  then show ?thesis
  proof cases
    case u
    then have "map_option (apfst (append [c, CHR ''u'', w, x, y, z])) (scan_string rest) = Some (b, r)"
      using assms(1) by (auto simp: scan_string_u)
    then obtain b' where "scan_string rest = Some (b', r)" "b = [c, CHR ''u'', w, x, y, z] @ b'" by (rule map_apfst_SomeE)
    with u show ?thesis by (intro exI[of _ "[c, CHR ''u'', w, x, y, z]"] exI[of _ rest] exI[of _ b']) simp
  next
    case short
    then have "map_option (apfst (append [c, e])) (scan_string ds) = Some (b, r)"
      using assms(1) by (auto simp: scan_string.simps(2))
    then obtain b' where "scan_string ds = Some (b', r)" "b = [c, e] @ b'" by (rule map_apfst_SomeE)
    with short show ?thesis by (intro exI[of _ "[c, e]"] exI[of _ ds] exI[of _ b']) simp
  next
    case plain
    then have "map_option (apfst (append [c])) (scan_string cs) = Some (b, r)"
      using assms by (simp add: scan_string.simps(2) append_single)
    then obtain b' where "scan_string cs = Some (b', r)" "b = [c] @ b'" by (rule map_apfst_SomeE)
    with plain show ?thesis by (intro exI[of _ "[c]"] exI[of _ cs] exI[of _ b']) simp
  qed
qed

lemma scan_string_split: "scan_string s = Some (b, r) \<Longrightarrow> s = b @ CHR 0x22 # r"
proof (induction s arbitrary: b rule: length_induct)
  case (1 s)
  obtain c cs where s: "s = c # cs" using 1(2) by (cases s) auto
  show ?case
  proof (cases "c = CHR 0x22")
    case True
    then show ?thesis using 1(2) by (simp add: s scan_string.simps(2))
  next
    case False
    obtain p s' b' where p: "p \<noteq> []" "c # cs = p @ s'" "b = p @ b'" "scan_string s' = Some (b', r)"
      using scan_string_step[OF 1(2)[unfolded s] False] by blast
    then have "length s' < length s" by (simp add: s)
    with 1(1) p have "s' = b' @ CHR 0x22 # r" by blast
    with p show ?thesis by (simp add: s)
  qed
qed

lemma hex4_quote: "hex4 (CHR 0x22) x y z = None" "hex4 w (CHR 0x22) y z = None" "hex4 w x (CHR 0x22) z = None" "hex4 w x y (CHR 0x22) = None"
  by (simp_all add: hex4_def hex_nibble_def Let_def split: option.splits)

lemma unescape_Cons_None:
  "json_unescape (c # cs) = None \<Longrightarrow> c \<noteq> CHR 0x5C \<Longrightarrow> c \<noteq> CHR 0x22 \<Longrightarrow> \<not> byte_val c < 0x20 \<Longrightarrow>
   (if byte_val c < 128 then json_unescape cs else json_unescape (drop (snd (decode_rune (c # cs))) (c # cs))) = None"
  by (subst (asm) json_unescape.simps) (auto simp: split_def Let_def simp del: decode_rune.simps split: if_split_asm)

lemma scan_escape_value:
  assumes b: "b = CHR 0x5C # cs" and sc: "scan_string (b @ CHR 0x22 # t) = Some (b, t)"
    and IH: "\<And>b'. length b' < length b \<Longrightarrow> scan_string (b' @ CHR 0x22 # t) = Some (b', t) \<Longrightarrow> json_unescape b' \<noteq> None"
  shows "json_unescape b \<noteq> None"
proof -
  obtain e ds where cs: "cs = e # ds" using sc b by (cases cs) (auto simp: scan_string.simps(2) short_escape_def split: list.splits)
  show ?thesis
  proof (cases "e = CHR ''u''")
    case False
    then obtain c where c: "short_escape e = Some c" using sc by (auto simp: b cs scan_string.simps(2) split: if_split_asm)
    then have "scan_string (ds @ CHR 0x22 # t) = Some (ds, t)"
      using sc False map_apfst_Some[of "[CHR 0x5C, e]"] by (simp add: b cs scan_string.simps(2))
    then show ?thesis using IH[of ds] unescape_short[OF c] by (simp add: b cs)
  next
    case True
    obtain w x y z rest where ds: "ds = w # x # y # z # rest"
      using sc True by (cases ds; cases "tl ds"; cases "tl (tl ds)"; cases "tl (tl (tl ds))")
        (auto simp: b cs scan_string.simps(2) hex4_quote split: list.splits)
    obtain r where h: "hex4 w x y z = Some r" using sc True by (auto simp: b cs ds scan_string.simps(2) split: if_split_asm)
    have rest: "scan_string (rest @ CHR 0x22 # t) = Some (rest, t)"
      using sc map_apfst_Some[of "[CHR 0x5C, CHR ''u'', w, x, y, z]"] by (simp add: b cs ds True scan_string_u[OF h])
    then have u: "json_unescape rest \<noteq> None" using IH[of rest] by (simp add: b cs ds)
    have "json_unescape rest' \<noteq> None" if p: "surrogate_pair r rest = Some (r', rest')" for r' rest'
    proof -
      obtain w' x' y' z' r2 where q: "rest = CHR 0x5C # CHR ''u'' # w' # x' # y' # z' # rest'" "hex4 w' x' y' z' = Some r2"
        using surrogate_pair_Some[OF p] by blast
      then have "scan_string (rest' @ CHR 0x22 # t) = Some (rest', t)"
        using rest map_apfst_Some[of "[CHR 0x5C, CHR ''u'', w', x', y', z']"] by (simp add: scan_string_u[OF q(2)])
      then show ?thesis using IH[of rest'] by (simp add: b cs ds q)
    qed
    with u h show ?thesis by (subst json_unescape.simps) (auto simp: b cs ds True split: option.splits)
  qed
qed

lemma scan_string_value: "scan_string (b @ CHR 0x22 # t) = Some (b, t) \<Longrightarrow> json_unescape b \<noteq> None"
proof (induction b rule: length_induct)
  case (1 b)
  then have IH: "length b' < length b \<Longrightarrow> scan_string (b' @ CHR 0x22 # t) = Some (b', t) \<Longrightarrow> json_unescape b' \<noteq> None" for b' by blast
  show ?case
  proof (cases b)
    case (Cons c cs)
    note sc = 1(2)[unfolded Cons append_Cons scan_string.simps(2)]
    show ?thesis
    proof (cases "c = CHR 0x5C")
      case True
      then show ?thesis using scan_escape_value[OF _ 1(2) IH] Cons by blast
    next
      case False
      have q: "c \<noteq> CHR 0x22" "\<not> byte_val c < 0x20" using sc False by (auto split: if_split_asm)
      have cs: "scan_string (cs @ CHR 0x22 # t) = Some (cs, t)" using sc False q by (auto split: if_split_asm)
      define w where "w = snd (decode_rune b)"
      have "json_unescape cs \<noteq> None" using IH[OF _ cs] Cons by simp
      moreover have "json_unescape (drop w b) \<noteq> None" if "\<not> byte_val c < 128"
      proof -
        have ne: "b \<noteq> []" using Cons by simp
        have w: "0 < w" using decode_rune_width_pos[OF ne] by (simp add: w_def)
        have h: "list_all (\<lambda>c. 128 \<le> byte_val c) (take w b)"
          using decode_rune_shape[of b "fst (decode_rune b)" w, OF _ ne] Cons that w
          by (cases w) (auto simp: rune_shape_def min_def w_def split: if_split_asm)
        have "scan_string (drop w b @ CHR 0x22 # t) = Some (drop w b, t)"
          using scan_string_high[OF h, of "drop w b @ CHR 0x22 # t"] 1(2)
            map_apfst_Some[of "take w b" "scan_string (drop w b @ CHR 0x22 # t)" "drop w b" t]
          by (metis append_assoc append_take_drop_id)
        then show ?thesis using IH[of "drop w b"] w ne by simp
      qed
      ultimately show ?thesis using unescape_Cons_None[of c cs] False q
        unfolding w_def Cons by argo
    qed
  qed simp
qed

corollary scanned_string_value: "scan_string s = Some (b, r) \<Longrightarrow> json_unescape b \<noteq> None"
  using scan_string_value scan_string_split by blast

lemma scan_string_escape: "scan_string (json_escape s @ CHR 0x22 # t) = Some (json_escape s, t)"
  by (rule scan_string_body) (simp add: json_unescape_escape)


subsection \<open>Numbers\<close>

lemma takeWhile_digits:
  "list_all is_digit ds \<Longrightarrow> number_ends t \<Longrightarrow> takeWhile is_digit (ds @ t) = ds \<and> dropWhile is_digit (ds @ t) = t"
  by (induction ds) (auto simp: number_ends_def split: list.splits)

lemma number_ends_scan [simp]: "number_ends t \<Longrightarrow> scan_frac t = Some ([], t)" "number_ends t \<Longrightarrow> scan_exp t = Some ([], t)"
  by (auto simp: scan_frac_def scan_exp_def number_ends_def HasPrefix_iff)

lemma scan_digits_all: "list_all is_digit ds \<Longrightarrow> ds \<noteq> [] \<Longrightarrow> number_ends t \<Longrightarrow> scan_digits (ds @ t) = Some (ds, t)"
  using takeWhile_digits[of ds t] by (simp add: scan_digits_def Let_def)

lemma scan_int_digits:
  assumes "t = [] \<or> \<not> is_digit (hd t)"
  shows "scan_int (digits n @ t) = Some (digits n, t)"
proof (cases "HasPrefix (digits n @ t) ''0''")
  case True
  then obtain ds where "digits n = CHR ''0'' # ds" by (cases "digits n") (auto simp: HasPrefix_def)
  with digits_leading[OF this] show ?thesis by (simp add: scan_int_def HasPrefix_def)
next
  case False
  have "takeWhile is_digit t = []" "dropWhile is_digit t = t" using assms by (cases t; simp)+
  moreover have "takeWhile is_digit (digits n) = digits n" "dropWhile is_digit (digits n) = []"
    using set_digits by (simp_all add: takeWhile_eq_all_conv)
  ultimately show ?thesis using False set_digits
    by (simp add: scan_int_def scan_digits_def Let_def takeWhile_append dropWhile_append)
qed

lemma number_ends_digit: "number_ends t \<Longrightarrow> t = [] \<or> \<not> is_digit (hd t)"
  by (cases t) (auto simp: number_ends_def)

lemma digits_no_minus: "\<not> HasPrefix (digits n @ t) ''-''"
proof -
  have "CHR ''-'' \<notin> set (digits n)" using set_digits[of "CHR ''-''" n] by (auto simp: is_digit_def)
  then show ?thesis by (cases "digits n") (auto simp: HasPrefix_def)
qed

lemma HasPrefix_Cons [simp]: "HasPrefix (c # s) [d] \<longleftrightarrow> c = d"
  by (auto simp: HasPrefix_def)

text \<open>A number is an optional sign, digits and what the fraction scanner takes.\<close>

lemma scan_number_parts:
  assumes "scan_frac u = Some (f, t)" "number_ends t" "u = [] \<or> \<not> is_digit (hd u)"
  shows "scan_number ((if neg then ''-'' else []) @ digits n @ u) = Some ((if neg then ''-'' else []) @ digits n @ f, t)"
  using assms by (cases neg) (simp_all add: scan_number_def digits_no_minus scan_int_digits)

lemma scan_number_int: "number_ends t \<Longrightarrow> scan_number (fmt_int i @ t) = Some (fmt_int i, t)"
  using scan_number_parts[of t "[]" t "i < 0" "nat \<bar>i\<bar>"] number_ends_digit[of t] by (cases "i < 0") (simp_all add: fmt_int_def)

lemma scan_number_micros:
  assumes "number_ends t"
  shows "scan_number (fmt_micros k @ t) = Some (fmt_micros k, t)"
proof -
  define m where "m = \<bar>k\<bar> mod 1000000"
  define u where "u = (if m = 0 then [] else ''.'' @ frac_digits 6 m)"
  have "scan_frac (u @ t) = Some (u, t)"
  proof (cases "m = 0")
    case False
    then have "0 < m" by (simp add: m_def pos_mod_sign less_le)
    then show ?thesis using scan_digits_all[OF all_frac_digits frac_digits_not_Nil assms] 
      by (simp add: u_def scan_frac_def)
  qed (use assms in \<open>simp add: u_def\<close>)
  moreover have "u @ t = [] \<or> \<not> is_digit (hd (u @ t))" using number_ends_digit[OF assms] by (auto simp: u_def is_digit_def)
  moreover have "fmt_micros k = (if k < 0 then ''-'' else []) @ digits (nat (\<bar>k\<bar> div 1000000)) @ u"
    by (simp only: fmt_micros_def Let_def u_def m_def)
  ultimately show ?thesis
    using scan_number_parts[of "u @ t" u t "k < 0" "nat (\<bar>k\<bar> div 1000000)"] assms by simp
qed

subsection \<open>Values\<close>

lemma skip_ws_id: "c \<notin> {CHR '' '', CHR 0x09, CHR 0x0A, CHR 0x0D} \<Longrightarrow> skip_ws (c # s) = c # s"
  by (simp add: skip_ws_def)

lemma scan_value_number:
  assumes "scan_number s = Some (b, t)" "s = c # r" "is_digit c \<or> c = CHR ''-''"
  shows "scan_value d s = Some (VNum b, t)"
proof -
  have c: "c \<notin> {CHR '' '', CHR 0x09, CHR 0x0A, CHR 0x0D, CHR ''{'', CHR ''['', CHR 0x22, CHR ''n'', CHR ''t'', CHR ''f''}"
    using assms(3) by (auto simp: is_digit_def)
  then have "\<not> HasPrefix (c # r) ''null''" "\<not> HasPrefix (c # r) ''true''" "\<not> HasPrefix (c # r) ''false''"
    by (auto simp: HasPrefix_def)
  with c assms(1) show ?thesis unfolding assms(2) by (simp add: scan_value.simps skip_ws_id)
qed

lemma digits_Cons: "\<exists>c r. digits n = c # r \<and> is_digit c"
  using set_digits[of _ n] by (cases "digits n") auto

lemma scan_value_int: "number_ends t \<Longrightarrow> scan_value d (fmt_int i @ t) = Some (VNum (fmt_int i), t)"
  using digits_Cons[of "nat \<bar>i\<bar>"]
  by (cases "i < 0") (auto simp: fmt_int_def intro!: scan_value_number dest: scan_number_int[of t i])

lemma scan_value_string: "scan_value d (json_quote s @ t) = Some (VStr (json_escape s), t)"
  by (simp add: scan_value.simps json_quote_def skip_ws_id scan_string_escape)

text \<open>An encoded value starts with none of the characters that end a list or separate its parts.\<close>

lemma number_head: "\<exists>c r. fmt_int i = c # r \<and> (is_digit c \<or> c = CHR ''-'')"
  using digits_Cons[of "nat i"] by (cases "i < 0") (auto simp: fmt_int_def)

lemma micros_head: "\<exists>c r. fmt_micros k = c # r \<and> (is_digit c \<or> c = CHR ''-'')"
proof -
  obtain c r where "digits (nat (\<bar>k\<bar> div 1000000)) = c # r" "is_digit c" using digits_Cons by blast
  then show ?thesis by (cases "k < 0") (simp_all add: fmt_micros_def Let_def)
qed

lemma scan_value_micros: "number_ends t \<Longrightarrow> scan_value d (fmt_micros k @ t) = Some (VNum (fmt_micros k), t)"
  using micros_head[of k] by (auto dest: scan_number_micros[of t k] intro!: scan_value_number)

lemma json_enc_head: "\<exists>c r. json_enc j = c # r \<and> c \<notin> {CHR '' '', CHR 0x09, CHR 0x0A, CHR 0x0D, CHR '']''}"
proof -
  have "is_digit c \<or> c = CHR ''-'' \<Longrightarrow> c \<notin> {CHR '' '', CHR 0x09, CHR 0x0A, CHR 0x0D, CHR '']''}" for c
    by (auto simp: is_digit_def)
  then show ?thesis using number_head micros_head by (cases j) (fastforce simp: json_quote_def)+
qed

lemma json_enc_not_Nil: "json_enc j \<noteq> []"
  using json_enc_head[of j] by auto

lemma length_join_with: "[] \<notin> set ss \<Longrightarrow> length ss \<le> length (join_with sep ss)"
proof (induction sep ss rule: join_with.induct)
  case (3 sep s t ss)
  then have "1 \<le> length s" "length (t # ss) \<le> length (join_with sep (t # ss))" by (auto simp: Suc_le_eq)
  then show ?case unfolding join_with.simps length_append length_Cons by linarith
qed (auto simp: Suc_le_eq)

lemma number_ends_sep [simp]: "number_ends (CHR '','' # t)" "number_ends (CHR '']'' # t)" "number_ends (CHR ''}'' # t)" "number_ends []"
  by (simp_all add: number_ends_def is_digit_def)

lemma skip_ws_sep [simp]: "skip_ws (CHR '','' # t) = CHR '','' # t" "skip_ws (CHR '']'' # t) = CHR '']'' # t"
  "skip_ws (CHR ''}'' # t) = CHR ''}'' # t" "skip_ws (CHR '':'' # t) = CHR '':'' # t" "skip_ws (CHR 0x22 # t) = CHR 0x22 # t"
  by (simp_all add: skip_ws_def)

lemma scan_elements_enc:
  assumes "\<And>x t. x \<in> set xs \<Longrightarrow> number_ends t \<Longrightarrow> scan_value d (json_enc x @ t) = Some (scanned x, t)"
    and "xs \<noteq> []" "length xs \<le> n"
  shows "scan_elements d n (join_with '','' (map json_enc xs) @ CHR '']'' # t) = Some (map scanned xs, t)"
  using assms
proof (induction xs arbitrary: n)
  case (Cons x xs)
  then obtain m where n: "n = Suc m" "length xs \<le> m" by (cases n) auto
  show ?case
  proof (cases "xs = []")
    case True
    then show ?thesis by (simp add: n scan_elements.simps(2) Cons.prems(1))
  next
    case False
    then have "scan_elements d m (join_with '','' (map json_enc xs) @ CHR '']'' # t) = Some (map scanned xs, t)"
      using Cons n by simp
    then show ?thesis using False
      by (simp add: n scan_elements.simps(2) Cons.prems(1) join_with_Cons)
  qed
qed simp

lemma scan_members_enc:
  assumes "\<And>kv t. kv \<in> set kvs \<Longrightarrow> number_ends t \<Longrightarrow> scan_value d (json_enc (snd kv) @ t) = Some (scanned (snd kv), t)"
    and "kvs \<noteq> []" "length kvs \<le> n"
  shows "scan_members d n (join_with '','' (map (\<lambda>kv. json_quote (fst kv) @ '':'' @ json_enc (snd kv)) kvs) @ CHR ''}'' # t) =
     Some (map (\<lambda>kv. (json_escape (fst kv), scanned (snd kv))) kvs, t)"
  using assms
proof (induction kvs arbitrary: n)
  case (Cons kv kvs)
  then obtain m where n: "n = Suc m" "length kvs \<le> m" by (cases n) auto
  show ?case
  proof (cases "kvs = []")
    case True
    then show ?thesis by (simp add: n scan_members.simps(2) Cons.prems(1) json_quote_def scan_string_escape)
  next
    case False
    then have "scan_members d m (join_with '','' (map (\<lambda>kv. json_quote (fst kv) @ '':'' @ json_enc (snd kv)) kvs) @ CHR ''}'' # t) =
       Some (map (\<lambda>kv. (json_escape (fst kv), scanned (snd kv))) kvs, t)"
      using Cons n by simp
    then show ?thesis using False
      by (simp add: n scan_members.simps(2) Cons.prems(1) join_with_Cons json_quote_def scan_string_escape)
  qed
qed simp

lemma scan_json_enc: "nested d j \<Longrightarrow> number_ends t \<Longrightarrow> scan_value d (json_enc j @ t) = Some (scanned j, t)"
proof (induction j arbitrary: d t rule: json_enc.induct)
  case (4 xs)
  have "scan_elements (d - 1) n (join_with '','' (map json_enc xs) @ CHR '']'' # t) = Some (map scanned xs, t)"
    if "xs \<noteq> []" "length xs \<le> n" for n
    using scan_elements_enc[of xs "d - 1"] 4 that by simp
  moreover have "length xs \<le> length (join_with '','' (map json_enc xs))"
    using length_join_with[of "map json_enc xs" "'',''"] json_enc_not_Nil by (auto dest: sym)
  moreover have "\<not> HasPrefix (skip_ws (join_with '','' (map json_enc xs) @ CHR '']'' # t)) '']''" if ne: "xs \<noteq> []"
  proof -
    obtain x ys where xs: "xs = x # ys" using ne by (cases xs) auto
    obtain c r where c: "json_enc x = c # r" "c \<notin> {CHR '' '', CHR 0x09, CHR 0x0A, CHR 0x0D, CHR '']''}"
      using json_enc_head by blast
    then show ?thesis by (cases ys) (simp_all add: xs skip_ws_id)
  qed
  ultimately show ?case using 4(2) by (cases "xs = []") (simp_all add: scan_value.simps skip_ws_id)
next
  case (5 kvs)
  let ?m = "\<lambda>kv. json_quote (fst kv) @ '':'' @ json_enc (snd kv)"
  have "scan_members (d - 1) n (join_with '','' (map ?m kvs) @ CHR ''}'' # t) =
      Some (map (\<lambda>kv. (json_escape (fst kv), scanned (snd kv))) kvs, t)" if "kvs \<noteq> []" "length kvs \<le> n" for n
    using scan_members_enc[of kvs "d - 1"] 5 that by simp
  moreover have "length kvs \<le> length (join_with '','' (map ?m kvs))"
    using length_join_with[of "map ?m kvs" "'',''"] by (simp add: json_quote_def image_iff)
  moreover have "\<not> HasPrefix (skip_ws (join_with '','' (map ?m kvs) @ CHR ''}'' # t)) ''}''" if ne: "kvs \<noteq> []"
    using ne by (cases kvs; cases "tl kvs") (simp_all add: json_quote_def)
  ultimately show ?case using 5(2) by (cases "kvs = []") (simp_all add: scan_value.simps skip_ws_id)
qed (simp_all add: scan_value_int scan_value_micros scan_value_string)

lemma json_scan_enc: "nested max_depth j \<Longrightarrow> json_scan (json_enc j) = Some (scanned j)"
  using scan_json_enc[of max_depth j "[]"] by (simp add: json_scan_def)

section \<open>Filling structs\<close>

text \<open>
  A struct is a list of fields, each with what a value does to the struct. A key selects the field of
  that name, else the first field whose name it equals up to case folding; a key without a field is skipped. A value that does
  not fit makes the whole decoding fail. A \<^verbatim>\<open>null\<close> leaves scalars and structs as they are.
\<close>

type_synonym 'r field = "string \<times> (jval \<Rightarrow> 'r \<Rightarrow> 'r option)"

definition find_field :: "'r field list \<Rightarrow> string \<Rightarrow> (jval \<Rightarrow> 'r \<Rightarrow> 'r option) option" where
  "find_field fs k =
     (case map_of fs k of Some f \<Rightarrow> Some f | None \<Rightarrow> map_option snd (find (\<lambda>f. EqualFold k (fst f)) fs))"

fun fill_object :: "'r field list \<Rightarrow> (string \<times> jval) list \<Rightarrow> 'r \<Rightarrow> 'r option" where
  "fill_object fs [] r = Some r"
| "fill_object fs ((k, v) # kvs) r = do {
     name \<leftarrow> json_unescape k;
     r' \<leftarrow> (case find_field fs name of None \<Rightarrow> Some r | Some f \<Rightarrow> f v r);
     fill_object fs kvs r' }"

fun fill_struct :: "'r field list \<Rightarrow> jval \<Rightarrow> 'r \<Rightarrow> 'r option" where
  "fill_struct fs VNull r = Some r"
| "fill_struct fs (VObj kvs) r = fill_object fs kvs r"
| "fill_struct fs _ r = None"

fun read_str :: "jval \<Rightarrow> string \<Rightarrow> string option" where
  "read_str VNull old = Some old"
| "read_str (VStr b) old = json_unescape b"
| "read_str _ old = None"

definition ParseUint :: "string \<Rightarrow> 64 word option" where
  "ParseUint s = (if s = [] \<or> \<not> list_all is_digit s \<or> 2 ^ 64 \<le> int (digits_val s) then None
                  else Some (word_of_int (int (digits_val s))))"

fun read_uint64 :: "jval \<Rightarrow> 64 word \<Rightarrow> 64 word option" where
  "read_uint64 VNull old = Some old"
| "read_uint64 (VNum s) old = ParseUint s"
| "read_uint64 _ old = None"

text \<open>\<^verbatim>\<open>Time.UnmarshalJSON\<close> looks at the literal as written: an escape in it is an error.\<close>

fun read_time :: "jval \<Rightarrow> time \<Rightarrow> time option" where
  "read_time VNull old = Some old"
| "read_time (VStr b) old = parse_rfc3339 b"
| "read_time _ old = None"

text \<open>The exact value of a number literal, and \<^verbatim>\<open>strconv.ParseFloat\<close>: the nearest float, an error when that is infinite.\<close>

definition decimal_parts :: "string \<Rightarrow> bool \<times> string \<times> string \<times> int" where
  "decimal_parts s =
     (let neg = HasPrefix s ''-'';
          r = (if neg then tl s else s);
          ip = takeWhile is_digit r;
          r1 = dropWhile is_digit r;
          fp = (if HasPrefix r1 ''.'' then takeWhile is_digit (tl r1) else []);
          r2 = (if HasPrefix r1 ''.'' then dropWhile is_digit (tl r1) else r1);
          (sg, es) = scan_sign (tl r2);
          ex = (if r2 = [] then 0 else if sg = ''-'' then - int (digits_val es) else int (digits_val es))
      in (neg, ip, fp, ex))"

definition ten_to :: "int \<Rightarrow> rat" where
  "ten_to e = (if 0 \<le> e then 10 ^ nat e else 1 / 10 ^ nat (- e))"

definition number_value :: "string \<Rightarrow> rat" where
  "number_value s = (case decimal_parts s of (neg, ip, fp, ex) \<Rightarrow>
     (if neg then - 1 else 1) * of_int (int (digits_val (ip @ fp))) * ten_to (ex - int (length fp)))"

definition ParseFloat :: "string \<Rightarrow> rat option" where
  "ParseFloat s = (let v = fl64 (number_value s) in if 2 ^ 1024 \<le> \<bar>v\<bar> then None else Some v)"

fun read_float64 :: "jval \<Rightarrow> rat \<Rightarrow> rat option" where
  "read_float64 VNull old = Some old"
| "read_float64 (VNum s) old = ParseFloat s"
| "read_float64 _ old = None"

text \<open>
  A slice is its backing array and its length. Decoding an array writes over the elements already there,
  also those beyond the length; an empty array and \<^verbatim>\<open>null\<close> drop them.
\<close>

type_synonym 'a slice = "'a list \<times> nat"

definition slice_list :: "'a slice \<Rightarrow> 'a list" where
  "slice_list s = take (snd s) (fst s)"

fun read_elements :: "(jval \<Rightarrow> 'a \<Rightarrow> 'a option) \<Rightarrow> 'a \<Rightarrow> jval list \<Rightarrow> 'a list \<Rightarrow> 'a list option" where
  "read_elements f zero [] backing = Some backing"
| "read_elements f zero (v # vs) backing = do {
     x \<leftarrow> f v (case backing of [] \<Rightarrow> zero | y # _ \<Rightarrow> y);
     xs \<leftarrow> read_elements f zero vs (tl backing);
     Some (x # xs) }"

fun read_slice :: "(jval \<Rightarrow> 'a \<Rightarrow> 'a option) \<Rightarrow> 'a \<Rightarrow> jval \<Rightarrow> 'a slice \<Rightarrow> 'a slice option" where
  "read_slice f zero VNull old = Some ([], 0)"
| "read_slice f zero (VArr vs) old =
     (if vs = [] then Some ([], 0) else do { xs \<leftarrow> read_elements f zero vs (fst old); Some (xs, length vs) })"
| "read_slice f zero _ old = None"

text \<open>A field of a scalar type, given how to read and how to set it.\<close>

definition scalar_field :: "(jval \<Rightarrow> 'a \<Rightarrow> 'a option) \<Rightarrow> string \<Rightarrow> ('r \<Rightarrow> 'a) \<Rightarrow> ('a \<Rightarrow> 'r \<Rightarrow> 'r) \<Rightarrow> 'r field" where
  "scalar_field rd k get put = (k, \<lambda>v r. map_option (\<lambda>x. put x r) (rd v (get r)))"

text \<open>\<^verbatim>\<open>json.Unmarshal\<close> into a struct that starts as \<open>zero\<close>.\<close>

definition Unmarshal :: "'r field list \<Rightarrow> 'r \<Rightarrow> string \<Rightarrow> 'r option" where
  "Unmarshal fs zero s = do { v \<leftarrow> json_scan s; fill_struct fs v zero }"

section \<open>Decoding what was encoded\<close>

lemma takeWhile_digits_all [simp]: "takeWhile is_digit (digits n) = digits n" "dropWhile is_digit (digits n) = []"
  using set_digits by (simp_all add: takeWhile_eq_all_conv)

lemma micros_parts:
  assumes "m = \<bar>k\<bar> mod 1000000" "f = (if m = 0 then [] else frac_digits 6 m)"
  shows "decimal_parts (fmt_micros k) = (k < 0, digits (nat (\<bar>k\<bar> div 1000000)), f, 0)"
proof -
  let ?ip = "digits (nat (\<bar>k\<bar> div 1000000))" and ?u = "if m = 0 then [] else ''.'' @ f"
  have e: "fmt_micros k = (if k < 0 then ''-'' else []) @ ?ip @ ?u"
    unfolding fmt_micros_def Let_def assms by simp
  have f: "list_all is_digit f" using assms all_frac_digits[of m 6] by simp
  then have f': "takeWhile is_digit f = f" "dropWhile is_digit f = []" by (auto simp: list_all_iff takeWhile_eq_all_conv)
  have "\<not> is_digit (CHR ''.'')" by (simp add: is_digit_def)
  then have "takeWhile is_digit (?ip @ ?u) = ?ip" "dropWhile is_digit (?ip @ ?u) = ?u"
    using set_digits by (auto simp: takeWhile_append dropWhile_append takeWhile_eq_all_conv)
  moreover have "HasPrefix ?u ''.'' \<longleftrightarrow> m \<noteq> 0" "m = 0 \<Longrightarrow> f = []" using assms(2) by (auto simp: HasPrefix_def)
  moreover have "HasPrefix (fmt_micros k) ''-'' \<longleftrightarrow> k < 0" "k < 0 \<Longrightarrow> tl (fmt_micros k) = ?ip @ ?u"
    unfolding e by (auto simp: digits_no_minus)
  moreover have "\<not> k < 0 \<Longrightarrow> fmt_micros k = ?ip @ ?u" unfolding e by simp
  ultimately show ?thesis using f' unfolding decimal_parts_def Let_def
    by (cases "k < 0"; cases "m = 0") (simp_all add: scan_sign_def)
qed

lemma number_value_micros: "number_value (fmt_micros k) = of_int k / 1000000"
proof -
  define a m f where "a = \<bar>k\<bar> div 1000000" and "m = \<bar>k\<bar> mod 1000000" and "f = (if m = 0 then [] else frac_digits 6 m)"
  have k: "k = (if k < 0 then - 1 else 1) * (a * 1000000 + m)" "0 \<le> a" by (auto simp: a_def m_def)
  have m: "0 \<le> m" "m < 10 ^ 6" by (simp_all add: m_def)
  have f: "length f \<le> 6" "int (digits_val f) * 10 ^ (6 - length f) = m"
    using frac_digits_value[OF m] by (auto simp: f_def digits_val_def)
  define L where "L = length f"
  have ten: "(10 :: rat) ^ L * 10 ^ (6 - L) = 1000000" using f(1) by (simp add: L_def flip: power_add)
  have "(of_int m :: rat) = of_nat (digits_val f) * 10 ^ (6 - L)"
    unfolding L_def by (subst f(2)[symmetric]) simp
  then have "(of_int m :: rat) * 10 ^ L = of_nat (digits_val f) * 1000000" using ten by (simp add: mult.assoc mult.commute)
  then have v: "of_int a + of_nat (digits_val f) / 10 ^ L = (of_int (a * 1000000 + m) / 1000000 :: rat)"
    by (simp add: field_simps)
  have "number_value (fmt_micros k) = (if k < 0 then - 1 else 1) * (of_int a + of_nat (digits_val f) / 10 ^ L)"
    unfolding number_value_def micros_parts[OF m_def f_def] a_def[symmetric]
    using k(2) by (simp add: digits_val_append ten_to_def L_def field_simps)
  also have "\<dots> = of_int k / 1000000" unfolding v by (subst k(1)) simp
  finally show ?thesis .
qed

lemma read_float64_micros:
  assumes "0 \<le> k" "k \<le> 2 ^ 63"
  shows "read_float64 (scanned (JMicros k)) old = Some (fl64 (of_int k / 1000000))"
proof -
  let ?x = "of_int k / 1000000 :: rat"
  have "of_int k \<le> (2 ^ 63 :: rat)" using assms(2) by (metis of_int_le_iff of_int_numeral of_int_power)
  then have x: "0 \<le> ?x" "?x \<le> 2 ^ 63" using assms(1) by simp_all
  have "\<bar>fl64 ?x - ?x\<bar> \<le> 2 ^ 63 / 2 ^ 53" using fl64_error[OF x(1)] x(2) by (auto intro: order_trans divide_right_mono)
  then have "\<bar>fl64 ?x\<bar> \<le> 2 ^ 64" using x by (simp add: abs_le_iff)
  then have "\<bar>fl64 ?x\<bar> < 2 ^ 1024" by (rule order_le_less_trans) (rule power_strict_increasing; simp)
  then show ?thesis by (simp add: ParseFloat_def number_value_micros Let_def)
qed

lemma read_str_scanned [simp]: "read_str (scanned (JStr s)) old = Some (repair_utf8 s)"
  by (simp add: json_unescape_escape)

lemma ascii_rune: "is_ascii s \<Longrightarrow> runes s = map (\<lambda>c. (byte_val c, [c])) s"
  by (induction s) (simp_all add: is_ascii_def runes_ascii_Cons)

lemma ascii_valid: "is_ascii s \<Longrightarrow> valid_utf8 s"
  by (auto simp: valid_utf8_def ascii_rune is_ascii_def rune_error_def)

lemma repair_ascii: "is_ascii s \<Longrightarrow> repair_utf8 s = s"
  by (rule repair_utf8_valid) (rule ascii_valid)

text \<open>Filling from the encoded pairs directly, and the pair of a string tagged \<^verbatim>\<open>omitempty\<close>.\<close>

fun fill_pairs :: "'r field list \<Rightarrow> (string \<times> json) list \<Rightarrow> 'r \<Rightarrow> 'r option" where
  "fill_pairs fs [] r = Some r"
| "fill_pairs fs ((k, j) # kvs) r = do {
     r' \<leftarrow> (case find_field fs (repair_utf8 k) of None \<Rightarrow> Some r | Some f \<Rightarrow> f (scanned j) r);
     fill_pairs fs kvs r' }"

definition omitempty :: "string \<Rightarrow> string \<Rightarrow> (string \<times> json) list" where
  "omitempty k s = (if s = [] then [] else [(k, JStr s)])"

lemma fill_scanned:
  "fill_object fs (map (\<lambda>kv. (json_escape (fst kv), scanned (snd kv))) kvs) r = fill_pairs fs kvs r"
proof (induction kvs arbitrary: r)
  case (Cons kv kvs)
  then show ?case by (cases kv) (auto simp: json_unescape_escape split: bind_splits)
qed simp

lemma Unmarshal_enc: "nested max_depth (JObj kvs) \<Longrightarrow> Unmarshal fs zero (json_enc (JObj kvs)) = fill_pairs fs kvs zero"
  unfolding Unmarshal_def by (simp only: json_scan_enc) (simp add: fill_scanned)

lemma fill_struct_scanned: "fill_struct fs (scanned (JObj kvs)) r = fill_pairs fs kvs r"
  by (simp add: fill_scanned)

lemma fill_pairs_append: "fill_pairs fs (kvs @ kvs') r = fill_pairs fs kvs r \<bind> fill_pairs fs kvs'"
proof (induction kvs arbitrary: r)
  case (Cons kv kvs)
  then show ?case by (cases kv) (auto split: bind_splits)
qed simp

text \<open>A pair whose key names no field is skipped; a string reaches its field repaired, left out or not.\<close>

lemma find_field_None:
  "list_all (\<lambda>n. k \<noteq> n \<and> \<not> EqualFold k n) (map fst fs) \<Longrightarrow> find_field fs k = None"
  by (auto simp: find_field_def list_all_iff find_None_iff map_of_eq_None_iff split: option.splits dest: map_of_SomeD)

lemma find_field_Some: "map_of fs k = Some f \<Longrightarrow> find_field fs k = Some f"
  by (simp add: find_field_def)

lemma fill_string:
  assumes "map_of fs k = Some (snd (scalar_field read_str k get put))" "repair_utf8 k = k"
  shows "fill_pairs fs ((k, JStr s) # rest) r = fill_pairs fs rest (put (repair_utf8 s) r)"
  using assms by (simp add: find_field_Some scalar_field_def json_unescape_escape)

lemma fill_omitempty:
  assumes "map_of fs k = Some (snd (scalar_field read_str k get put))" "repair_utf8 k = k" "put [] r = r"
  shows "fill_pairs fs (omitempty k s @ rest) r = fill_pairs fs rest (put (repair_utf8 s) r)"
  using assms fill_string[OF assms(1,2)] by (simp add: omitempty_def repair_utf8_def)

lemma fill_skip:
  assumes "list_all (\<lambda>n. k \<noteq> n \<and> \<not> EqualFold k n) (map fst fs)" "repair_utf8 k = k"
  shows "fill_pairs fs ((k, j) # rest) r = fill_pairs fs rest r" "fill_pairs fs (omitempty k s @ rest) r = fill_pairs fs rest r"
  using assms by (simp_all add: find_field_None omitempty_def)

lemma read_elements_map:
  "(\<And>e. e \<in> set es \<Longrightarrow> f (g e) zero = Some (h e)) \<Longrightarrow> read_elements f zero (map g es) [] = Some (map h es)"
  by (induction es) auto

text \<open>A printed time is read back.\<close>

definition json_time :: "time \<Rightarrow> bool" where
  "json_time t \<longleftrightarrow> (let y = fst (civil (days_of t)) in 0 \<le> y \<and> y \<le> 9999)"

definition plain_text :: "string \<Rightarrow> bool" where
  "plain_text s \<longleftrightarrow> list_all (\<lambda>c. html_safe (byte_val c) \<and> byte_val c < 128) s"

lemma plain_text_simps [simp]: "plain_text []" "plain_text (c # s) \<longleftrightarrow> html_safe (byte_val c) \<and> byte_val c < 128 \<and> plain_text s"
  "plain_text (s @ t) \<longleftrightarrow> plain_text s \<and> plain_text t"
  by (simp_all add: plain_text_def conj_assoc)

lemma escape_plain: "plain_text s \<Longrightarrow> json_escape s = s"
  by (induction s) (simp_all add: json_escape_def runes_ascii_Cons escape_rune_def escape_ascii_def)

lemma plain_digits: "list_all is_digit s \<Longrightarrow> plain_text s"
  by (auto simp: list_all_iff is_digit_def html_safe_def plain_text_def)

lemma plain_pad_int: "plain_text (pad_int w i)"
  using set_pad_int_signed[of _ w i] by (fastforce simp: plain_text_def list_all_iff html_safe_def is_digit_def)

lemma plain_fmt_rfc3339: "plain_text (fmt_rfc3339 t)"
  using plain_digits[OF all_frac_digits[of "t mod second" 9]]
  by (simp add: fmt_rfc3339_def fmt_day_def Let_def plain_pad_int second_def html_safe_def split: prod.splits)

lemma read_time_scanned: "json_time t \<Longrightarrow> read_time (scanned (JStr (fmt_rfc3339 t))) old = Some t"
  by (simp add: escape_plain plain_fmt_rfc3339 json_time_def Let_def parse_fmt_rfc3339)

end
