(* ===== verification/Go_Path.thy ===== *)
theory Go_Path
  imports Go_Strings
begin

text \<open>
  Unix paths as Go's \<^verbatim>\<open>path/filepath\<close> treats them (\<^verbatim>\<open>Clean\<close>, \<^verbatim>\<open>Join\<close>, \<^verbatim>\<open>Abs\<close>) and the file system calls of
  \<^verbatim>\<open>os\<close> that the recorder, the certificate renewer and the portal make. A file system is a finite map from
  absolute paths to nodes; a call can fail for reasons outside the model (permissions, a full disk),
  which enter as the \<open>faults\<close> of the file system.
\<close>

section \<open>Paths\<close>

definition proper_elem :: "string \<Rightarrow> bool" where
  "proper_elem e \<longleftrightarrow> e \<noteq> [] \<and> e \<noteq> ''.'' \<and> e \<noteq> ''..'' \<and> CHR ''/'' \<notin> set e"

text \<open>The stack of kept elements is held reversed.\<close>

fun clean_elems :: "bool \<Rightarrow> string list \<Rightarrow> string list \<Rightarrow> string list" where
  "clean_elems rooted out [] = rev out"
| "clean_elems rooted out (e # es) =
     (if e = [] \<or> e = ''.'' then clean_elems rooted out es
      else if e = ''..'' then
        (case out of
           [] \<Rightarrow> clean_elems rooted (if rooted then [] else [e]) es
         | x # xs \<Rightarrow> clean_elems rooted (if x = ''..'' then e # out else xs) es)
      else clean_elems rooted (e # out) es)"

definition IsAbs :: "string \<Rightarrow> bool" where
  "IsAbs p \<longleftrightarrow> HasPrefix p ''/''"

definition Clean :: "string \<Rightarrow> string" where
  "Clean p =
     (let es = clean_elems (IsAbs p) [] (split_on (CHR ''/'') p) in
      if IsAbs p then ''/'' @ join_with ''/'' es
      else if es = [] then ''.'' else join_with ''/'' es)"

fun path_join :: "string list \<Rightarrow> string" where
  "path_join [] = []"
| "path_join (e # es) = (if e = [] then path_join es else Clean (join_with ''/'' (e # es)))"

definition Abs_path :: "string \<Rightarrow> string \<Rightarrow> string" where
  "Abs_path cwd p = (if IsAbs p then Clean p else path_join [cwd, p])"

definition rooted_path :: "string list \<Rightarrow> string" where
  "rooted_path es = ''/'' @ join_with ''/'' es"

definition clean_abs :: "string \<Rightarrow> bool" where
  "clean_abs p \<longleftrightarrow> (\<exists>es. list_all proper_elem es \<and> p = rooted_path es)"

lemma clean_elems_proper:
  "list_all proper_elem es \<Longrightarrow> clean_elems rooted out es = rev out @ es"
  by (induction es arbitrary: out) (auto simp: proper_elem_def)

lemma clean_elems_rooted:
  "list_all (\<lambda>e. CHR ''/'' \<notin> set e) es \<Longrightarrow> list_all proper_elem out \<Longrightarrow>
   list_all proper_elem (clean_elems True out es)"
proof (induction es arbitrary: out)
  case Nil
  then show ?case by (simp add: list_all_iff)
next
  case (Cons e es)
  then show ?case by (cases out) (auto simp: proper_elem_def)
qed

lemma split_rooted:
  assumes "list_all proper_elem es"
  shows "split_on (CHR ''/'') (rooted_path es) = [] # (if es = [] then [[]] else es)"
proof (cases "es = []")
  case False
  have "split_on (CHR ''/'') (join_with [CHR ''/''] es) = es"
    using assms False by (intro split_join_with) (auto simp: list_all_iff proper_elem_def)
  then show ?thesis using False by (simp add: rooted_path_def)
qed (simp add: rooted_path_def)

lemma Clean_rooted: "list_all proper_elem es \<Longrightarrow> Clean (rooted_path es) = rooted_path es"
proof -
  assume es: "list_all proper_elem es"
  have abs: "IsAbs (rooted_path es)" by (simp add: IsAbs_def rooted_path_def HasPrefix_def)
  have "clean_elems True [] (split_on (CHR ''/'') (rooted_path es)) = es"
    using es by (simp add: split_rooted clean_elems_proper)
  then show ?thesis using abs by (simp add: Clean_def Let_def rooted_path_def)
qed

lemma Clean_abs: "IsAbs p \<Longrightarrow> clean_abs (Clean p)"
proof -
  assume p: "IsAbs p"
  have "list_all (\<lambda>e. CHR ''/'' \<notin> set e) (split_on (CHR ''/'') p)"
    using split_on_no_sep by (auto simp: list_all_iff)
  then have "list_all proper_elem (clean_elems True [] (split_on (CHR ''/'') p))"
    by (rule clean_elems_rooted) simp
  then show ?thesis using p by (auto simp: clean_abs_def Clean_def Let_def rooted_path_def)
qed

lemma Clean_clean_abs: "clean_abs p \<Longrightarrow> Clean p = p"
  by (auto simp: clean_abs_def Clean_rooted)

lemma clean_abs_IsAbs: "clean_abs p \<Longrightarrow> IsAbs p"
  by (auto simp: clean_abs_def IsAbs_def rooted_path_def HasPrefix_def)

lemma Abs_path_clean: "IsAbs cwd \<Longrightarrow> clean_abs (Abs_path cwd p)"
proof -
  assume c: "IsAbs cwd"
  then have "cwd \<noteq> []" by (auto simp: IsAbs_def HasPrefix_def)
  moreover have "IsAbs (cwd @ x)" for x using c by (auto simp: IsAbs_def HasPrefix_iff)
  ultimately show ?thesis by (auto simp: Abs_path_def intro!: Clean_abs)
qed

lemma Abs_path_id: "clean_abs p \<Longrightarrow> Abs_path cwd p = p"
  by (simp add: Abs_path_def clean_abs_IsAbs Clean_clean_abs)

text \<open>Joining a proper element below a clean directory.\<close>

definition below :: "string \<Rightarrow> string \<Rightarrow> string" where
  "below dir e = (if dir = ''/'' then ''/'' @ e else dir @ ''/'' @ e)"

lemma rooted_path_root [simp]: "rooted_path es = ''/'' \<longleftrightarrow> join_with ''/'' es = []"
  by (simp add: rooted_path_def)

lemma join_with_Nil_iff: "list_all proper_elem es \<Longrightarrow> join_with ''/'' es = [] \<longleftrightarrow> es = []"
  by (cases es; cases "tl es") (auto simp: proper_elem_def)

lemma join_with_snoc: "es \<noteq> [] \<Longrightarrow> join_with sep (es @ [e]) = join_with sep es @ sep @ e"
  by (induction sep es rule: join_with.induct) (auto simp: join_with_Cons)

lemma below_rooted: "list_all proper_elem es \<Longrightarrow> below (rooted_path es) e = rooted_path (es @ [e])"
  by (cases "es = []") (auto simp: below_def join_with_Nil_iff rooted_path_def join_with_snoc)

lemma clean_abs_below: "clean_abs dir \<Longrightarrow> proper_elem e \<Longrightarrow> clean_abs (below dir e)"
  unfolding clean_abs_def
proof (elim exE conjE)
  fix es
  assume "proper_elem e" "list_all proper_elem es" "dir = rooted_path es"
  then show "\<exists>es. list_all proper_elem es \<and> below dir e = rooted_path es"
    by (intro exI[of _ "es @ [e]"]) (simp add: below_rooted)
qed

lemma path_join_below:
  assumes "clean_abs dir" "proper_elem e"
  shows "path_join [dir, e] = below dir e"
proof -
  obtain es where es: "list_all proper_elem es" "dir = rooted_path es"
    using assms(1) by (auto simp: clean_abs_def)
  have es': "list_all proper_elem (es @ [e])" using es assms by simp
  have "Clean (dir @ ''/'' @ e) = below dir e"
  proof (cases "es = []")
    case True
    have abs: "IsAbs (''//'' @ e)" by (simp add: IsAbs_def HasPrefix_def)
    have "split_on (CHR ''/'') (''//'' @ e) = [[], [], e]"
      using assms(2) by (simp add: split_on_clean proper_elem_def)
    then show ?thesis
      using True es assms(2) abs
      by (simp add: Clean_def below_def rooted_path_def clean_elems_proper proper_elem_def Let_def)
  next
    case False
    then have "dir @ ''/'' @ e = rooted_path (es @ [e])" by (simp add: es rooted_path_def join_with_snoc)
    then show ?thesis using Clean_rooted[OF es'] below_rooted[OF es(1)] es(2) by simp
  qed
  moreover have "dir \<noteq> []" by (simp add: es rooted_path_def)
  ultimately show ?thesis by simp
qed

lemma below_prefix: "HasPrefix (below dir e) (if dir = ''/'' then ''/'' else dir @ ''/'')"
  by (simp add: below_def HasPrefix_def)

lemma below_inj: "CHR ''/'' \<notin> set d \<Longrightarrow> CHR ''/'' \<notin> set e \<Longrightarrow> below r d = below r e \<longleftrightarrow> d = e"
  by (simp add: below_def)

section \<open>Files\<close>

datatype fs_node = FDir | FFile string

text \<open>
  \<open>faults\<close> says of an operation (by name) on a path whether it fails and how; \<open>quota\<close> bounds the bytes a
  file can hold before a write to it fails.
\<close>

record fs =
  nodes :: "(string \<times> fs_node) list"
  faults :: "string \<Rightarrow> string \<Rightarrow> go_error option"
  quota :: "string \<Rightarrow> nat option"

definition ErrNotExist :: go_error where "ErrNotExist = Sentinel ''file does not exist''"
definition ErrExist :: go_error where "ErrExist = Sentinel ''file exists''"

definition node_at :: "fs \<Rightarrow> string \<Rightarrow> fs_node option" where
  "node_at f p = map_of (nodes f) p"

definition set_node :: "string \<Rightarrow> fs_node \<Rightarrow> fs \<Rightarrow> fs" where
  "set_node p n f = f\<lparr>nodes := AList.update p n (nodes f)\<rparr>"

definition del_node :: "string \<Rightarrow> fs \<Rightarrow> fs" where
  "del_node p f = f\<lparr>nodes := AList.delete p (nodes f)\<rparr>"

lemma node_at_set [simp]: "node_at (set_node p n f) q = (if q = p then Some n else node_at f q)"
  by (simp add: node_at_def set_node_def update_conv')

lemma node_at_del [simp]: "node_at (del_node p f) q = (if q = p then None else node_at f q)"
  by (simp add: node_at_def del_node_def delete_conv')

lemma faults_set [simp]: "faults (set_node p n f) = faults f"
  by (simp add: set_node_def)

lemma faults_del [simp]: "faults (del_node p f) = faults f"
  by (simp add: del_node_def)

lemma quota_set [simp]: "quota (set_node p n f) = quota f"
  by (simp add: set_node_def)

definition ErrNoSpace :: go_error where "ErrNoSpace = Sentinel ''no space left on device''"

definition file_bytes :: "fs \<Rightarrow> string \<Rightarrow> string" where
  "file_bytes f p = (case node_at f p of Some (FFile c) \<Rightarrow> c | _ \<Rightarrow> [])"

text \<open>\<^verbatim>\<open>(*os.File).Write\<close> at the end of a file opened for writing: what fits is written.\<close>

definition append_file :: "string \<Rightarrow> string \<Rightarrow> fs \<Rightarrow> go_error option \<times> fs" where
  "append_file p b f =
     (let c = file_bytes f p in
      case quota f p of
        None \<Rightarrow> (None, set_node p (FFile (c @ b)) f)
      | Some q \<Rightarrow>
          if length c + length b \<le> q then (None, set_node p (FFile (c @ b)) f)
          else (Some ErrNoSpace, set_node p (FFile (take (max q (length c)) (c @ b))) f))"

lemma file_bytes_set [simp]: "file_bytes (set_node p (FFile c) f) q = (if q = p then c else file_bytes f q)"
  by (simp add: file_bytes_def)

lemma append_file_other: "append_file p b f = (e, f') \<Longrightarrow> q \<noteq> p \<Longrightarrow> node_at f' q = node_at f q"
  by (auto simp: append_file_def Let_def split: option.splits if_splits)

lemma append_file_quota: "append_file p b f = (e, f') \<Longrightarrow> quota f' = quota f \<and> faults f' = faults f"
  by (auto simp: append_file_def Let_def split: option.splits if_splits)

lemma append_file_grows:
  "append_file p b f = (e, f') \<Longrightarrow> HasPrefix (file_bytes f' p) (file_bytes f p)"
  by (auto simp: append_file_def Let_def HasPrefix_def split: option.splits if_splits)

text \<open>\<^verbatim>\<open>os.MkdirAll\<close> of the directory itself (parents of a clean directory are its prefixes).\<close>

fun parent_dirs :: "string list \<Rightarrow> string list \<Rightarrow> string list" where
  "parent_dirs acc [] = []"
| "parent_dirs acc (e # es) = rooted_path (acc @ [e]) # parent_dirs (acc @ [e]) es"

fun mkdir_each :: "string list \<Rightarrow> fs \<Rightarrow> go_error option \<times> fs" where
  "mkdir_each [] f = (None, f)"
| "mkdir_each (p # ps) f =
     (case node_at f p of
        Some FDir \<Rightarrow> mkdir_each ps f
      | Some (FFile _) \<Rightarrow> (Some (Msg ''not a directory''), f)
      | None \<Rightarrow> (case faults f ''mkdir'' p of
                   Some e \<Rightarrow> (Some e, f)
                 | None \<Rightarrow> mkdir_each ps (set_node p FDir f)))"

definition MkdirAll :: "string \<Rightarrow> fs \<Rightarrow> go_error option \<times> fs" where
  "MkdirAll p f = mkdir_each (parent_dirs [] (tl (split_on (CHR ''/'') p))) f"

text \<open>\<^verbatim>\<open>os.OpenFile(p, O_WRONLY|O_CREATE|O_EXCL, ..)\<close>.\<close>

definition create_excl :: "string \<Rightarrow> fs \<Rightarrow> fs result" where
  "create_excl p f =
     (case node_at f p of
        Some _ \<Rightarrow> Inl ErrExist
      | None \<Rightarrow> (case faults f ''open'' p of Some e \<Rightarrow> Inl e | None \<Rightarrow> Inr (set_node p (FFile []) f)))"

lemma mkdir_each_new:
  "mkdir_each ps f = (None, f') \<Longrightarrow> node_at f' p = (if p \<in> set ps then Some FDir else node_at f p)"
  by (induction ps f rule: mkdir_each.induct) (auto split: option.splits fs_node.splits if_splits)

lemma mkdir_each_adds:
  "mkdir_each ps f = (e, f') \<Longrightarrow> node_at f' p = node_at f p \<or> node_at f p = None \<and> node_at f' p = Some FDir"
  by (induction ps f rule: mkdir_each.induct) (auto split: option.splits fs_node.splits if_splits)

lemma mkdir_each_faults: "mkdir_each ps f = (e, f') \<Longrightarrow> faults f' = faults f \<and> quota f' = quota f"
  by (induction ps f rule: mkdir_each.induct) (auto split: option.splits fs_node.splits)

lemma mkdir_each_ok:
  "(\<And>p. faults f ''mkdir'' p = None) \<Longrightarrow> (\<And>p c. p \<in> set ps \<Longrightarrow> node_at f p \<noteq> Some (FFile c)) \<Longrightarrow>
   \<exists>f'. mkdir_each ps f = (None, f')"
proof (induction ps f rule: mkdir_each.induct)
  case (2 p ps f)
  then show ?case by (auto split: option.splits fs_node.splits)
qed simp

text \<open>Making directories only adds directories.\<close>

lemma MkdirAll_adds:
  "MkdirAll d f = (e, f') \<Longrightarrow> node_at f' p = node_at f p \<or> node_at f p = None \<and> node_at f' p = Some FDir"
  unfolding MkdirAll_def by (rule mkdir_each_adds)

lemma MkdirAll_file: "MkdirAll d f = (e, f') \<Longrightarrow> node_at f p = Some (FFile c) \<Longrightarrow> node_at f' p = Some (FFile c)"
  by (frule MkdirAll_adds[of _ _ _ _ p]) auto

lemma MkdirAll_faults: "MkdirAll d f = (e, f') \<Longrightarrow> faults f' = faults f \<and> quota f' = quota f"
  unfolding MkdirAll_def by (rule mkdir_each_faults)

end
