(* ===== verification/Audit_Log.thy ===== *)
theory Audit_Log
  imports Go_Json_Read Go_Path
begin

text \<open>
  \<^verbatim>\<open>internal/audit\<close>: the audit entry, its action names and the sink. The world the session code acts on is
  the file system, the clock, the source of UUIDs and the journal; it is passed along explicitly.
  The journal client (package \<^verbatim>\<open>tokyo3-base/journal\<close>) is a parameter: a sink is what its \<^verbatim>\<open>Append\<close> answers for an
  entry, and the model keeps every entry handed to it together with that answer.
\<close>

record audit_entry =
  EntryID :: string
  Action :: string
  SessionID :: string
  User :: string
  Principals :: string
  Target :: string
  RemoteUser :: string
  ClientIP :: string
  RecordingPath :: string
  Reason :: string
  Metadata :: string
  OccurredAt :: time

text \<open>
  The JSON of an entry by its struct tags, as the journal publishes it. A \<^verbatim>\<open>time.Time\<close> marshals between
  the years 0 and 9999 only; outside, the entry has no JSON.
\<close>

definition entry_pairs :: "audit_entry \<Rightarrow> (string \<times> json) list" where
  "entry_pairs e =
     [(''id'', JStr (EntryID e)), (''action'', JStr (Action e))] @
     omitempty ''session_id'' (SessionID e) @ omitempty ''user'' (User e) @ omitempty ''principals'' (Principals e) @
     omitempty ''target'' (Target e) @ omitempty ''remote_user'' (RemoteUser e) @ omitempty ''client_ip'' (ClientIP e) @
     omitempty ''recording_path'' (RecordingPath e) @ omitempty ''reason'' (Reason e) @ omitempty ''metadata'' (Metadata e) @
     [(''occurred_at'', JStr (fmt_rfc3339 (OccurredAt e)))]"

definition entry_marshal :: "audit_entry \<Rightarrow> string option" where
  "entry_marshal e = (if json_time (OccurredAt e) then Some (json_enc (JObj (entry_pairs e))) else None)"

lemma nested_entry: "nested max_depth (JObj (entry_pairs e))"
  by (simp add: max_depth_def entry_pairs_def omitempty_def)

definition ActionSessionOpened :: string where "ActionSessionOpened = ''ssh.session.opened''"
definition ActionSessionClosed :: string where "ActionSessionClosed = ''ssh.session.closed''"
definition ActionChannelRejected :: string where "ActionChannelRejected = ''ssh.channel.rejected''"
definition ActionRecordingComplete :: string where "ActionRecordingComplete = ''ssh.recording.completed''"
definition ActionPortForwardOpened :: string where "ActionPortForwardOpened = ''ssh.port_forward.opened''"
definition ActionPortForwardClosed :: string where "ActionPortForwardClosed = ''ssh.port_forward.closed''"
definition ActionSubsystemOpened :: string where "ActionSubsystemOpened = ''ssh.subsystem.opened''"

lemmas action_defs = ActionSessionOpened_def ActionSessionClosed_def ActionChannelRejected_def
  ActionRecordingComplete_def ActionPortForwardOpened_def ActionPortForwardClosed_def ActionSubsystemOpened_def

definition audit_Subject :: string where "audit_Subject = ''ssh.audit.events''"
definition audit_StreamName :: string where "audit_StreamName = ''ssh_audit''"
definition audit_StreamMaxAge :: duration where "audit_StreamMaxAge = 400 * 24 * hour"

datatype audit_sink = NoopSink | JournalSink "audit_entry \<Rightarrow> go_error option"

record world =
  clock :: "nat \<Rightarrow> time"
  ticks :: nat
  uuids :: "nat \<Rightarrow> string"
  drawn :: nat
  journal :: "(audit_entry \<times> go_error option) list"
  files :: fs

definition Now :: "world \<Rightarrow> time \<times> world" where
  "Now w = (clock w (ticks w), w\<lparr>ticks := Suc (ticks w)\<rparr>)"

definition NewString :: "world \<Rightarrow> string \<times> world" where
  "NewString w = (uuids w (drawn w), w\<lparr>drawn := Suc (drawn w)\<rparr>)"

fun Append :: "audit_sink \<Rightarrow> audit_entry \<Rightarrow> world \<Rightarrow> go_error option \<times> world" where
  "Append NoopSink e w = (None, w)"
| "Append (JournalSink f) e w = (f e, w\<lparr>journal := journal w @ [(e, f e)]\<rparr>)"

text \<open>What the entries handed to the journal look like, in order.\<close>

definition published :: "world \<Rightarrow> audit_entry list" where
  "published w = map fst (journal w)"

definition actions :: "world \<Rightarrow> string list" where
  "actions w = map Action (published w)"

lemma published_Append: "published (snd (Append s e w)) = (case s of NoopSink \<Rightarrow> published w | JournalSink _ \<Rightarrow> published w @ [e])"
  by (cases s) (simp_all add: published_def)

lemma files_Append [simp]: "files (snd (Append s e w)) = files w"
  by (cases s) simp_all

lemma clock_Append [simp]: "clock (snd (Append s e w)) = clock w" "ticks (snd (Append s e w)) = ticks w"
  by (cases s; simp)+

text \<open>An entry's time never precedes the entries before it when the clock does not run backwards.\<close>

definition clock_mono :: "world \<Rightarrow> bool" where
  "clock_mono w \<longleftrightarrow> (\<forall>i j. i \<le> j \<longrightarrow> clock w i \<le> clock w j)"

end
