(* ===== verification/Recording.thy ===== *)
theory Recording
  imports Audit_Log
begin

text \<open>
  \<^verbatim>\<open>internal/proxyd/recording\<close>: the asciinema recorder (\<^verbatim>\<open>recording.go\<close>) and the sinks casts are written to
  (\<^verbatim>\<open>sink.go\<close>). A cast under way is the file it is written to, or nothing for the discarding sink.
\<close>

section \<open>The recorder\<close>

datatype cast = CastFile string | CastNop

fun cast_write :: "cast \<Rightarrow> string \<Rightarrow> world \<Rightarrow> go_error option \<times> world" where
  "cast_write (CastFile p) b w = (case append_file p b (files w) of (e, f) \<Rightarrow> (e, w\<lparr>files := f\<rparr>))"
| "cast_write CastNop b w = (None, w)"

definition EventOutput :: string where "EventOutput = ''o''"
definition EventResize :: string where "EventResize = ''r''"

record cast_header =
  Version :: int
  Width :: int
  Height :: int
  Timestamp :: int
  Title :: string

definition header_json :: "cast_header \<Rightarrow> json" where
  "header_json h = JObj
     ([(''version'', JInt (Version h)), (''width'', JInt (Width h)), (''height'', JInt (Height h))] @
      (if Timestamp h = 0 then [] else [(''timestamp'', JInt (Timestamp h))]) @
      (if Title h = [] then [] else [(''title'', JStr (Title h))]))"

record recorder =
  rec_header :: cast_header
  rec_started :: time
  rec_encoded :: cast
  rec_closed :: bool

text \<open>Two writes: the encoded value, then the newline.\<close>

definition write_line :: "cast \<Rightarrow> string \<Rightarrow> world \<Rightarrow> go_error option \<times> world" where
  "write_line c b w =
     (case cast_write c b w of
        (Some e, w1) \<Rightarrow> (Some e, w1)
      | (None, w1) \<Rightarrow> cast_write c [CHR 0x0A] w1)"

definition writeHeader :: "recorder \<Rightarrow> world \<Rightarrow> go_error option \<times> world" where
  "writeHeader r w = write_line (rec_encoded r) (json_enc (header_json (rec_header r))) w"

definition recording_New ::
  "cast option \<Rightarrow> int \<Rightarrow> int \<Rightarrow> string \<Rightarrow> time \<Rightarrow> world \<Rightarrow> recorder result \<times> world" where
  "recording_New dest width height title started w =
     (case dest of
        None \<Rightarrow> (Inl (Msg ''dest is required''), w)
      | Some c \<Rightarrow>
          if width \<le> 0 \<or> height \<le> 0
          then (Inl (Msg (''invalid dimensions '' @ fmt_int width @ ''x'' @ fmt_int height)), w)
          else
            let r = \<lparr>rec_header = \<lparr>Version = 2, Width = width, Height = height,
                                    Timestamp = unix_seconds started, Title = title\<rparr>,
                     rec_started = started, rec_encoded = c, rec_closed = False\<rparr> in
            case writeHeader r w of
              (Some e, w1) \<Rightarrow> (Inl (Wrap ''write header'' e), w1)
            | (None, w1) \<Rightarrow> (Inr r, w1))"

definition event_line :: "int \<Rightarrow> string \<Rightarrow> string \<Rightarrow> string" where
  "event_line k kind payload = json_enc (JArr [JMicros k, JStr kind, JStr payload])"

definition elapsed_micros :: "time \<Rightarrow> time \<Rightarrow> int" where
  "elapsed_micros started t =
     (let elapsed = Seconds (time_sub t started) in round6 (if elapsed < 0 then 0 else elapsed))"

definition writeEvent :: "recorder \<Rightarrow> string \<Rightarrow> string \<Rightarrow> world \<Rightarrow> go_error option \<times> world" where
  "writeEvent r kind payload w =
     (if rec_closed r then (None, w)
      else case Now w of (t, w1) \<Rightarrow>
        write_line (rec_encoded r) (event_line (elapsed_micros (rec_started r) t) kind payload) w1)"

definition Output :: "recorder \<Rightarrow> string \<Rightarrow> world \<Rightarrow> world" where
  "Output r p w = (if p = [] then w else snd (writeEvent r EventOutput p w))"

definition recorder_Resize :: "recorder \<Rightarrow> int \<Rightarrow> int \<Rightarrow> world \<Rightarrow> world" where
  "recorder_Resize r width height w =
     (if width \<le> 0 \<or> height \<le> 0 then w
      else snd (writeEvent r EventResize (fmt_int width @ ''x'' @ fmt_int height) w))"

definition recorder_Close :: "recorder \<Rightarrow> recorder" where
  "recorder_Close r = r\<lparr>rec_closed := True\<rparr>"

section \<open>Sinks\<close>

text \<open>A zero \<^verbatim>\<open>Started\<close> is \<^const>\<open>None\<close>.\<close>

record cast_meta =
  castSessionID :: string
  castUser :: string
  castTarget :: string
  castStarted :: "time option"

record local_dir_sink =
  sink_root :: string

text \<open>\<open>cwd\<close> is the answer of \<^verbatim>\<open>os.Getwd\<close>, which \<^verbatim>\<open>filepath.Abs\<close> asks for relative paths only.\<close>

definition abs_or :: "string result \<Rightarrow> string \<Rightarrow> string result" where
  "abs_or cwd p =
     (if IsAbs p then Inr (Clean p)
      else case cwd of Inl e \<Rightarrow> Inl e | Inr d \<Rightarrow> Inr (Abs_path d p))"

definition NewLocalDirSink :: "string \<Rightarrow> string result \<Rightarrow> fs \<Rightarrow> local_dir_sink result \<times> fs" where
  "NewLocalDirSink rt cwd f =
     (if rt = [] then (Inl (Msg ''root is required''), f)
      else case abs_or cwd rt of
        Inl e \<Rightarrow> (Inl (Wrap (''resolve '' @ rt) e), f)
      | Inr ap \<Rightarrow> (case MkdirAll ap f of
          (Some e, f') \<Rightarrow> (Inl (Wrap (''mkdir '' @ ap) e), f')
        | (None, f') \<Rightarrow> (Inr \<lparr>sink_root = ap\<rparr>, f')))"

definition keep_rune :: "nat \<Rightarrow> bool" where
  "keep_rune r \<longleftrightarrow> 97 \<le> r \<and> r \<le> 122 \<or> 65 \<le> r \<and> r \<le> 90 \<or> 48 \<le> r \<and> r \<le> 57 \<or> r = 45 \<or> r = 95"

definition sanitizeFilename :: "string \<Rightarrow> string" where
  "sanitizeFilename sid =
     (let b = map (\<lambda>(r, _). if keep_rune r then char_of r else CHR ''_'') (runes sid)
      in if b = [] then ''unnamed'' else b)"

definition cast_path :: "string \<Rightarrow> string \<Rightarrow> time \<Rightarrow> string" where
  "cast_path rt sid started =
     path_join [path_join [rt, fmt_day started], sanitizeFilename sid @ ''.cast'']"

definition LocalDirSink_OpenCast ::
  "local_dir_sink \<Rightarrow> cast_meta \<Rightarrow> world \<Rightarrow> (cast \<times> string) result \<times> world" where
  "LocalDirSink_OpenCast s meta w =
     (if castSessionID meta = [] then (Inl (Msg ''CastMeta.SessionID is required''), w)
      else
        case (case castStarted meta of None \<Rightarrow> Now w | Some t \<Rightarrow> (t, w)) of (started, w1) \<Rightarrow>
          let dir = path_join [sink_root s, fmt_day started];
              path = cast_path (sink_root s) (castSessionID meta) started in
          case MkdirAll dir (files w1) of
            (Some e, f) \<Rightarrow> (Inl (Wrap (''mkdir '' @ dir) e), w1\<lparr>files := f\<rparr>)
          | (None, f) \<Rightarrow> (case create_excl path f of
              Inl e \<Rightarrow> (Inl (Wrap (''create '' @ path) e), w1\<lparr>files := f\<rparr>)
            | Inr f' \<Rightarrow> (Inr (CastFile path, path), w1\<lparr>files := f'\<rparr>)))"

definition NopSink_OpenCast :: "cast_meta \<Rightarrow> world \<Rightarrow> (cast \<times> string) result \<times> world" where
  "NopSink_OpenCast meta w = (Inr (CastNop, []), w)"

datatype rec_sink = LocalDirSink local_dir_sink | NopSink

fun OpenCast :: "rec_sink \<Rightarrow> cast_meta \<Rightarrow> world \<Rightarrow> (cast \<times> string) result \<times> world" where
  "OpenCast (LocalDirSink s) meta w = LocalDirSink_OpenCast s meta w"
| "OpenCast NopSink meta w = NopSink_OpenCast meta w"

section \<open>Runs of a recorder\<close>

text \<open>
  What the session does with a recorder, and the events a cast should hold for it: every event takes one
  reading of the clock, empty output and impossible sizes leave no trace, nothing follows a close.
\<close>

datatype rec_op = OpOutput string | OpResize int int | OpClose

fun rec_run :: "recorder \<Rightarrow> rec_op list \<Rightarrow> world \<Rightarrow> recorder \<times> world" where
  "rec_run r [] w = (r, w)"
| "rec_run r (OpOutput p # ops) w = rec_run r ops (Output r p w)"
| "rec_run r (OpResize x y # ops) w = rec_run r ops (recorder_Resize r x y w)"
| "rec_run r (OpClose # ops) w = rec_run (recorder_Close r) ops w"

definition op_event :: "rec_op \<Rightarrow> (string \<times> string) option" where
  "op_event op = (case op of
     OpOutput p \<Rightarrow> if p = [] then None else Some (EventOutput, p)
   | OpResize x y \<Rightarrow> if x \<le> 0 \<or> y \<le> 0 then None else Some (EventResize, fmt_int x @ ''x'' @ fmt_int y)
   | OpClose \<Rightarrow> None)"

fun cast_events :: "time \<Rightarrow> (nat \<Rightarrow> time) \<Rightarrow> nat \<Rightarrow> rec_op list \<Rightarrow> (int \<times> string \<times> string) list" where
  "cast_events st ck n [] = []"
| "cast_events st ck n (op # ops) =
     (if op = OpClose then []
      else case op_event op of
        None \<Rightarrow> cast_events st ck n ops
      | Some (kind, payload) \<Rightarrow> (elapsed_micros st (ck n), kind, payload) # cast_events st ck (Suc n) ops)"

definition ev_line :: "int \<times> string \<times> string \<Rightarrow> string" where
  "ev_line ev = event_line (fst ev) (fst (snd ev)) (snd (snd ev))"

definition as_lines :: "string list \<Rightarrow> string" where
  "as_lines ls = concat (map (\<lambda>l. l @ [CHR 0x0A]) ls)"

lemma as_lines_simps [simp]: "as_lines [] = []" "as_lines (l # ls) = l @ CHR 0x0A # as_lines ls"
  by (simp_all add: as_lines_def)

text \<open>An unbounded file takes every line whole.\<close>

definition unbounded :: "string \<Rightarrow> world \<Rightarrow> bool" where
  "unbounded p w \<longleftrightarrow> quota (files w) p = None"

abbreviation cast_bytes :: "world \<Rightarrow> string \<Rightarrow> string" where
  "cast_bytes w p \<equiv> file_bytes (files w) p"

lemma write_line_file:
  assumes "unbounded p w" "write_line (CastFile p) b w = (e, w')"
  shows "e = None" "cast_bytes w' p = cast_bytes w p @ b @ [CHR 0x0A]" "unbounded p w'"
    "clock w' = clock w" "ticks w' = ticks w"
  using assms by (auto simp: write_line_def append_file_def unbounded_def Let_def)

lemma writeEvent_file:
  assumes "unbounded p w" "rec_encoded r = CastFile p" "\<not> rec_closed r"
  shows "cast_bytes (snd (writeEvent r kind pl w)) p =
           cast_bytes w p @ event_line (elapsed_micros (rec_started r) (clock w (ticks w))) kind pl @ [CHR 0x0A]"
    "unbounded p (snd (writeEvent r kind pl w))"
    "clock (snd (writeEvent r kind pl w)) = clock w" "ticks (snd (writeEvent r kind pl w)) = Suc (ticks w)"
proof -
  let ?w1 = "w\<lparr>ticks := Suc (ticks w)\<rparr>"
  let ?l = "event_line (elapsed_micros (rec_started r) (clock w (ticks w))) kind pl"
  obtain e w' where wl: "write_line (CastFile p) ?l ?w1 = (e, w')" by (cases "write_line (CastFile p) ?l ?w1")
  have "unbounded p ?w1" using assms(1) by (simp add: unbounded_def)
  note W = write_line_file[OF this wl]
  have "writeEvent r kind pl w = (e, w')" using assms(2,3) wl by (simp add: writeEvent_def Now_def)
  then show "cast_bytes (snd (writeEvent r kind pl w)) p = cast_bytes w p @ ?l @ [CHR 0x0A]"
    "unbounded p (snd (writeEvent r kind pl w))"
    "clock (snd (writeEvent r kind pl w)) = clock w" "ticks (snd (writeEvent r kind pl w)) = Suc (ticks w)"
    using W by simp_all
qed

lemma rec_run_closed: "rec_closed r \<Longrightarrow> snd (rec_run r ops w) = w"
  by (induction r ops w rule: rec_run.induct)
    (simp_all add: Output_def recorder_Resize_def writeEvent_def recorder_Close_def)

lemma op_run:
  assumes "op \<noteq> OpClose"
  shows "rec_run r (op # ops) w =
    (case op_event op of None \<Rightarrow> rec_run r ops w
     | Some (kind, pl) \<Rightarrow> rec_run r ops (snd (writeEvent r kind pl w)))"
  using assms by (cases op) (simp_all add: op_event_def Output_def recorder_Resize_def)

lemma rec_run_bytes:
  assumes "unbounded p w" "rec_encoded r = CastFile p" "\<not> rec_closed r"
  shows "cast_bytes (snd (rec_run r ops w)) p =
           cast_bytes w p @ as_lines (map ev_line (cast_events (rec_started r) (clock w) (ticks w) ops))"
  using assms
proof (induction ops arbitrary: w)
  case Nil
  then show ?case by simp
next
  case (Cons op ops)
  show ?case
  proof (cases "op = OpClose")
    case True
    then show ?thesis using rec_run_closed[of "recorder_Close r" ops w] by (simp add: recorder_Close_def)
  next
    case False
    then show ?thesis
      using Cons writeEvent_file[OF Cons.prems]
      by (auto simp: op_run[OF False] ev_line_def simp del: rec_run.simps split: option.splits)
  qed
qed

subsection \<open>Lines\<close>

lemma printable_no_newline: "printable s \<Longrightarrow> CHR 0x0A \<notin> set s"
  by (auto simp: printable_def list_all_iff)

lemma split_as_lines:
  "list_all printable ls \<Longrightarrow> split_on (CHR 0x0A) (as_lines ls) = ls @ [[]]"
  by (induction ls) (auto simp: split_on_append printable_no_newline)

lemma printable_event_line: "printable (event_line k kind pl)"
  unfolding event_line_def by (rule printable_json_enc)

subsection \<open>Reading a line back\<close>

text \<open>What a JSON reader makes of a line: the time in seconds, the kind and the payload.\<close>

definition read_event :: "string \<Rightarrow> (rat \<times> string \<times> string) option" where
  "read_event l = (case json_scan l of
       Some (VArr [VNum t, VStr kind, VStr payload]) \<Rightarrow> do {
         kind \<leftarrow> json_unescape kind;
         payload \<leftarrow> json_unescape payload;
         Some (number_value t, kind, payload) }
     | _ \<Rightarrow> None)"

lemma read_event_line:
  "read_event (event_line k kind pl) = Some (of_int k / 1000000, repair_utf8 kind, repair_utf8 pl)"
  unfolding event_line_def read_event_def
  by (subst json_scan_enc) (simp_all add: max_depth_def number_value_micros json_unescape_escape)

section \<open>Event times\<close>

lemma time_sub_mono: "t \<le> u \<Longrightarrow> time_sub t st \<le> time_sub u st"
  by (simp add: time_sub_def sat64_mono)

lemma elapsed_micros_neg: "d < 0 \<Longrightarrow> \<not> 0 < Seconds d"
proof -
  assume "d < 0"
  define s where "s = (- d) div second"
  have s: "0 \<le> s" "s * second \<le> - d"
    using \<open>d < 0\<close> by (auto simp: s_def second_def pos_imp_zdiv_nonneg_iff)
  have "(of_int (d + s * second) :: rat) \<le> 0" using s(2) by (simp only: of_int_le_0_iff)
  then have "fl64 (of_int (- s)) \<le> 0" "fl64 (of_int (d + s * second) / 10 ^ 9) \<le> 0"
    using s(1) by (auto intro!: fl64_nonpos divide_nonpos_pos)
  then have "fl64 (fl64 (of_int (- s)) + fl64 (of_int (d + s * second) / 10 ^ 9)) \<le> 0"
    by (intro fl64_nonpos) linarith
  then show ?thesis using \<open>d < 0\<close> by (simp add: Seconds_def Let_def quot_trunc_def s_def)
qed

lemma elapsed_micros_alt:
  "elapsed_micros st t = (if time_sub t st < 0 then 0 else round6 (Seconds (time_sub t st)))"
proof -
  have z: "round6 0 = 0" by code_simp
  show ?thesis
  proof (cases "time_sub t st < 0")
    case True
    then have "(if Seconds (time_sub t st) < 0 then 0 else Seconds (time_sub t st)) = 0"
      using elapsed_micros_neg[of "time_sub t st"] by auto
    then show ?thesis using True z by (simp add: elapsed_micros_def Let_def)
  next
    case False
    then show ?thesis using Seconds_nonneg[of "time_sub t st"] by (simp add: elapsed_micros_def Let_def not_less)
  qed
qed

lemma elapsed_micros_mono: "t \<le> u \<Longrightarrow> elapsed_micros st t \<le> elapsed_micros st u"
proof -
  assume "t \<le> u"
  then have le: "time_sub t st \<le> time_sub u st" by (rule time_sub_mono)
  have r: "in_int64 (time_sub u st)" by (simp add: time_sub_def)
  show ?thesis
    unfolding elapsed_micros_alt using le r
    by (auto intro!: round6_nonneg Seconds_nonneg round6_mono Seconds_mono)
qed

lemma cast_events_from:
  "ev \<in> set (cast_events st ck n ops) \<Longrightarrow> \<exists>i \<ge> n. fst ev = elapsed_micros st (ck i)"
  by (induction st ck n ops rule: cast_events.induct) (fastforce split: if_splits option.splits dest: Suc_leD)+

lemma cast_events_sorted:
  assumes "\<And>i j. i \<le> j \<Longrightarrow> ck i \<le> ck j"
  shows "sorted (map fst (cast_events st ck n ops))"
  using assms
proof (induction st ck n ops rule: cast_events.induct)
  case (2 st ck n op ops)
  then show ?case
    by (fastforce split: option.splits intro: elapsed_micros_mono dest!: cast_events_from)
qed simp

lemma cast_events_kind:
  "(k, kind, pl) \<in> set (cast_events st ck n ops) \<Longrightarrow> kind = EventOutput \<or> kind = EventResize"
  by (induction st ck n ops rule: cast_events.induct)
    (auto simp: op_event_def split: if_splits option.splits rec_op.splits)

lemma repair_kind: "kind = EventOutput \<or> kind = EventResize \<Longrightarrow> repair_utf8 kind = kind"
  by (elim disjE) (simp_all add: EventOutput_def EventResize_def repair_utf8_def runes_ascii_Cons repair_rune_def rune_error_def)

lemma recording_New_file:
  assumes "recording_New (Some (CastFile p)) x y title st w = (Inr r, w1)" "unbounded p w"
  shows "cast_bytes w1 p = cast_bytes w p @ json_enc (header_json (rec_header r)) @ [CHR 0x0A]"
    "unbounded p w1" "clock w1 = clock w" "ticks w1 = ticks w"
    "rec_encoded r = CastFile p" "\<not> rec_closed r" "rec_started r = st" "0 < x" "0 < y"
    "rec_header r = \<lparr>Version = 2, Width = x, Height = y, Timestamp = unix_seconds st, Title = title\<rparr>"
proof -
  let ?h = "\<lparr>Version = 2, Width = x, Height = y, Timestamp = unix_seconds st, Title = title\<rparr>"
  show xy: "0 < x" "0 < y"
    using assms(1) by (auto simp: recording_New_def Let_def split: if_splits)
  obtain e w' where wl: "write_line (CastFile p) (json_enc (header_json ?h)) w = (e, w')"
    by (cases "write_line (CastFile p) (json_enc (header_json ?h)) w")
  note W = write_line_file[OF assms(2) wl]
  have "r = \<lparr>rec_header = ?h, rec_started = st, rec_encoded = CastFile p, rec_closed = False\<rparr>" "w1 = w'"
    using assms(1) wl W(1) xy by (auto simp: recording_New_def Let_def writeHeader_def)
  then show "cast_bytes w1 p = cast_bytes w p @ json_enc (header_json (rec_header r)) @ [CHR 0x0A]"
    "unbounded p w1" "clock w1 = clock w" "ticks w1 = ticks w"
    "rec_encoded r = CastFile p" "\<not> rec_closed r" "rec_started r = st" "rec_header r = ?h"
    using W by simp_all
qed

section \<open>The sink contract\<close>

text \<open>
  What a session relies on when it opens a cast: files that exist stay as they are, the location is the
  file written, and that file is new and empty.
\<close>

locale cast_sink =
  fixes open_cast :: "cast_meta \<Rightarrow> world \<Rightarrow> (cast \<times> string) result \<times> world"
  assumes keeps_files: "open_cast m w = (res, w') \<Longrightarrow> node_at (files w) q = Some (FFile c) \<Longrightarrow> node_at (files w') q = Some (FFile c)"
    and fresh: "open_cast m w = (Inr (CastFile p, loc), w') \<Longrightarrow>
      loc = p \<and> node_at (files w) p = None \<and> node_at (files w') p = Some (FFile [])"
    and keeps_quota: "open_cast m w = (res, w') \<Longrightarrow> quota (files w') = quota (files w)"
    and keeps_journal: "open_cast m w = (res, w') \<Longrightarrow> journal w' = journal w \<and> clock w' = clock w \<and> uuids w' = uuids w"
begin

lemma write_line_other:
  assumes "write_line c b w = (e, w')" "\<And>p. c = CastFile p \<Longrightarrow> q \<noteq> p"
  shows "node_at (files w') q = node_at (files w) q"
  using assms by (cases c)
    (auto simp: write_line_def append_file_def Let_def split: prod.splits option.splits if_splits)

lemma write_line_journal:
  "write_line c b w = (e, w') \<Longrightarrow> journal w' = journal w \<and> clock w' = clock w \<and> uuids w' = uuids w \<and> drawn w' = drawn w"
  by (cases c) (auto simp: write_line_def split: prod.splits option.splits)

text \<open>Opening a cast and starting a recorder on it destroys no file.\<close>

lemma start_keeps_files:
  assumes op: "open_cast m w = (Inr (c, loc), w1)" and new: "recording_New (Some c) x y t st w1 = (res, w2)"
    and q: "node_at (files w) q = Some (FFile b)"
  shows "node_at (files w2) q = Some (FFile b)"
proof -
  have w1: "node_at (files w1) q = Some (FFile b)" using keeps_files[OF op q] .
  have ne: "q \<noteq> p" if "c = CastFile p" for p using fresh[of m w p loc w1] op q that by auto
  consider "w2 = w1" | h e where "write_line c h w1 = (e, w2)"
    using new by (auto simp: recording_New_def writeHeader_def Let_def split: if_splits prod.splits option.splits)
  then show ?thesis using w1 write_line_other ne by cases (simp, metis)
qed

text \<open>A cast opened on an unbounded medium replays to what was recorded.\<close>

lemma opened_cast_bytes:
  assumes op: "open_cast m w = (Inr (CastFile p, loc), w1)" and q: "quota (files w) p = None"
    and new: "recording_New (Some (CastFile p)) x y t st w1 = (Inr r, w2)"
  shows "cast_bytes (snd (rec_run r ops w2)) p =
    as_lines (json_enc (header_json (rec_header r)) # map ev_line (cast_events st (clock w) (ticks w2) ops))"
proof -
  have u: "unbounded p w1" using keeps_quota[OF op] q by (simp add: unbounded_def)
  have e: "cast_bytes w1 p = []" using fresh[OF op] by (simp add: file_bytes_def)
  note N = recording_New_file[OF new u]
  show ?thesis using rec_run_bytes[OF N(2,5,6)] N e keeps_journal[OF op] by simp
qed

end

lemma create_excl_fresh:
  "create_excl p f = Inr f' \<Longrightarrow> node_at f p = None \<and> f' = set_node p (FFile []) f"
  by (auto simp: create_excl_def split: option.splits)

lemma LocalDirSink_cases:
  assumes "LocalDirSink_OpenCast s m w = (res, w')"
  obtains (none) "files w' = files w" "\<exists>e. res = Inl e"
  | (dirs) d e f where "MkdirAll d (files w) = (e, f)" "files w' = f" "\<exists>e. res = Inl e"
  | (made) d f f' p t where "MkdirAll d (files w) = (None, f)" "create_excl p f = Inr f'" "files w' = f'"
      "res = Inr (CastFile p, p)" "p = cast_path (sink_root s) (castSessionID m) t"
      "castStarted m = Some t \<or> castStarted m = None \<and> t = clock w (ticks w)"
  using assms
  by (auto simp: LocalDirSink_OpenCast_def Now_def Let_def split: if_splits option.splits prod.splits sum.splits)

lemma LocalDirSink_keeps:
  "LocalDirSink_OpenCast s m w = (res, w') \<Longrightarrow> journal w' = journal w \<and> clock w' = clock w \<and> uuids w' = uuids w"
  by (auto simp: LocalDirSink_OpenCast_def Now_def Let_def split: if_splits option.splits prod.splits sum.splits)

interpretation local: cast_sink "LocalDirSink_OpenCast s" for s
proof
  fix m w res w' q c
  assume "LocalDirSink_OpenCast s m w = (res, w')" and q: "node_at (files w) q = Some (FFile c)"
  then show "node_at (files w') q = Some (FFile c)"
  proof (cases rule: LocalDirSink_cases)
    case (made d f f' p t)
    then show ?thesis using MkdirAll_file[OF made(1) q] by (auto dest!: create_excl_fresh)
  qed (use q in \<open>auto dest: MkdirAll_file\<close>)
next
  fix m w p loc w'
  assume "LocalDirSink_OpenCast s m w = (Inr (CastFile p, loc), w')"
  then show "loc = p \<and> node_at (files w) p = None \<and> node_at (files w') p = Some (FFile [])"
  proof (cases rule: LocalDirSink_cases)
    case (made d f f' p' t)
    then show ?thesis using MkdirAll_adds[OF made(1), of p] by (auto dest!: create_excl_fresh)
  qed auto
next
  fix m w res w'
  assume "LocalDirSink_OpenCast s m w = (res, w')"
  then show "quota (files w') = quota (files w)"
    by (cases rule: LocalDirSink_cases) (auto dest!: create_excl_fresh dest: MkdirAll_faults)
qed (rule LocalDirSink_keeps)

interpretation nop: cast_sink NopSink_OpenCast
  by unfold_locales (auto simp: NopSink_OpenCast_def)

interpretation sinks: cast_sink "OpenCast k" for k
proof (cases k)
  case (LocalDirSink s)
  then show "cast_sink (OpenCast k)" using local.cast_sink_axioms[of s] by (simp add: fun_eq_iff[symmetric] cast_sink_def)
next
  case NopSink
  then show "cast_sink (OpenCast k)" using nop.cast_sink_axioms by (simp add: cast_sink_def)
qed

section \<open>Names of casts\<close>

definition safe_name_char :: "char \<Rightarrow> bool" where
  "safe_name_char c \<longleftrightarrow> keep_rune (byte_val c)"

lemma keep_rune_lt: "keep_rune r \<Longrightarrow> r < 128"
  by (auto simp: keep_rune_def)

lemma sanitizeFilename_chars: "c \<in> set (sanitizeFilename sid) \<Longrightarrow> safe_name_char c"
  by (auto simp: sanitizeFilename_def Let_def safe_name_char_def keep_rune_lt split: if_splits prod.splits)
    (auto simp: keep_rune_def)

lemma sanitizeFilename_not_Nil: "sanitizeFilename sid \<noteq> []"
  by (simp add: sanitizeFilename_def Let_def)

lemma sanitizeFilename_id: "sid \<noteq> [] \<Longrightarrow> list_all safe_name_char sid \<Longrightarrow> sanitizeFilename sid = sid"
proof -
  have "list_all safe_name_char s \<Longrightarrow> map (\<lambda>(r, _). if keep_rune r then char_of r else CHR ''_'') (runes s) = s" for s
    by (induction s) (auto simp: safe_name_char_def runes_ascii_Cons keep_rune_lt)
  then show "sid \<noteq> [] \<Longrightarrow> list_all safe_name_char sid \<Longrightarrow> ?thesis" by (simp add: sanitizeFilename_def Let_def)
qed

lemma safe_not_slash: "safe_name_char c \<Longrightarrow> c \<noteq> CHR ''/''"
  by (auto simp: safe_name_char_def keep_rune_def)

lemma proper_cast_name: "proper_elem (sanitizeFilename sid @ ''.cast'')"
proof -
  have "CHR ''/'' \<notin> set (sanitizeFilename sid)" using sanitizeFilename_chars safe_not_slash by blast
  then show ?thesis using sanitizeFilename_not_Nil[of sid] by (auto simp: proper_elem_def Cons_eq_append_conv append_eq_Cons_conv)
qed

lemma proper_day: "proper_elem (fmt_day t)"
proof -
  have "CHR ''/'' \<notin> set (fmt_day t)" "CHR ''.'' \<notin> set (fmt_day t)"
    using set_fmt_day[of "CHR ''/''" t] set_fmt_day[of "CHR ''.''" t] by (auto simp: is_digit_def)
  then show ?thesis using fmt_day_not_Nil[of t] unfolding proper_elem_def by (metis list.set_intros(1))
qed

lemma cast_path_below:
  "clean_abs rt \<Longrightarrow> cast_path rt sid t = below (below rt (fmt_day t)) (sanitizeFilename sid @ ''.cast'')"
  by (simp add: cast_path_def path_join_below proper_day proper_cast_name clean_abs_below del: path_join.simps)

lemma NewLocalDirSink_clean:
  assumes "NewLocalDirSink rt cwd f = (Inr s, f')" "\<And>d. cwd = Inr d \<Longrightarrow> IsAbs d"
  shows "clean_abs (sink_root s)"
  using assms
  by (auto simp: NewLocalDirSink_def abs_or_def Abs_path_clean Clean_abs split: if_splits sum.splits prod.splits option.splits)

section \<open>Properties\<close>

definition demo_fs :: fs where
  "demo_fs = \<lparr>nodes = [], faults = \<lambda>_ _. None, quota = \<lambda>_. None\<rparr>"

definition demo_world :: world where
  "demo_world = \<lparr>clock = \<lambda>n. 1700000000000000000 + 1500000 * int n, ticks = 0,
                 uuids = \<lambda>n. ''id-'' @ replicate n (CHR ''x''), drawn = 0, journal = [], files = demo_fs\<rparr>"

definition demo_sink :: local_dir_sink where
  "demo_sink = \<lparr>sink_root = ''/c''\<rparr>"

definition demo_meta :: cast_meta where
  "demo_meta = \<lparr>castSessionID = ''../x'', castUser = ''u'', castTarget = ''db'', castStarted = Some 1700000000000000000\<rparr>"

definition demo_path :: string where
  "demo_path = ''/c/2023-11-14/___x.cast''"

definition demo_rec :: recorder where
  "demo_rec = \<lparr>rec_header = \<lparr>Version = 2, Width = 80, Height = 24, Timestamp = 1700000000, Title = ''u@db''\<rparr>,
     rec_started = 1700000000000000000, rec_encoded = CastFile demo_path, rec_closed = False\<rparr>"

lemma demo_dir: "path_join [sink_root demo_sink, fmt_day 1700000000000000000] = ''/c/2023-11-14''"
proof -
  have "fmt_day 1700000000000000000 = ''2023-11-14''" by code_simp
  moreover have "path_join [sink_root demo_sink, ''2023-11-14''] = ''/c/2023-11-14''" by code_simp
  ultimately show ?thesis by simp
qed

lemma demo_cast_path: "cast_path (sink_root demo_sink) (castSessionID demo_meta) 1700000000000000000 = demo_path"
proof -
  have "sanitizeFilename (castSessionID demo_meta) @ ''.cast'' = ''___x.cast''" by code_simp
  moreover have "clean_abs ''/c/2023-11-14''" unfolding clean_abs_def
    by (rule exI[of _ "[''c'', ''2023-11-14'']"]) (simp add: rooted_path_def proper_elem_def)
  then have "path_join [''/c/2023-11-14'', ''___x.cast''] = below ''/c/2023-11-14'' ''___x.cast''"
    by (rule path_join_below) (simp add: proper_elem_def)
  moreover have "below ''/c/2023-11-14'' ''___x.cast'' = demo_path" by (simp add: below_def demo_path_def)
  ultimately show ?thesis unfolding cast_path_def demo_dir by (simp only:)
qed

definition demo_dirs :: fs where
  "demo_dirs = demo_fs\<lparr>nodes := [(''/c'', FDir), (''/c/2023-11-14'', FDir)]\<rparr>"

lemma demo_mkdir: "MkdirAll ''/c/2023-11-14'' demo_fs = (None, demo_dirs)"
proof -
  obtain e f where m: "MkdirAll ''/c/2023-11-14'' demo_fs = (e, f)" by (cases "MkdirAll ''/c/2023-11-14'' demo_fs")
  have "fst (MkdirAll ''/c/2023-11-14'' demo_fs) = None" by code_simp
  moreover have "nodes (snd (MkdirAll ''/c/2023-11-14'' demo_fs)) = nodes demo_dirs" by code_simp
  moreover have "faults f = faults demo_dirs" "quota f = quota demo_dirs"
    using MkdirAll_faults[OF m] by (simp_all add: demo_dirs_def demo_fs_def)
  ultimately show ?thesis using m by simp
qed

lemma demo_create: "create_excl demo_path demo_dirs = Inr (set_node demo_path (FFile []) demo_dirs)"
proof -
  have "node_at demo_dirs demo_path = None" by code_simp
  moreover have "faults demo_dirs = (\<lambda>_ _. None)" by (simp add: demo_dirs_def demo_fs_def)
  ultimately show ?thesis by (simp add: create_excl_def)
qed

lemma demo_open_at:
  assumes "files w = demo_fs"
  shows "OpenCast (LocalDirSink demo_sink) demo_meta w =
     (Inr (CastFile demo_path, demo_path), w\<lparr>files := set_node demo_path (FFile []) demo_dirs\<rparr>)"
proof -
  have s: "castStarted demo_meta = Some 1700000000000000000" "castSessionID demo_meta \<noteq> []"
    by (simp_all add: demo_meta_def)
  show ?thesis
    unfolding OpenCast.simps LocalDirSink_OpenCast_def s(1) option.case prod.case Let_def demo_dir demo_cast_path assms demo_mkdir demo_create
    using s(2) by simp
qed

lemma demo_open:
  "OpenCast (LocalDirSink demo_sink) demo_meta demo_world =
     (Inr (CastFile demo_path, demo_path), demo_world\<lparr>files := set_node demo_path (FFile []) demo_dirs\<rparr>)"
  by (rule demo_open_at) (simp add: demo_world_def)

lemma demo_new_at:
  assumes "files w = set_node demo_path (FFile []) demo_dirs"
  shows "\<exists>w'. recording_New (Some (CastFile demo_path)) 80 24 ''u@db'' 1700000000000000000 w = (Inr demo_rec, w')"
  using assms
  by (simp add: recording_New_def demo_rec_def writeHeader_def write_line_def append_file_def unix_seconds_def second_def
      demo_dirs_def demo_fs_def Let_def)

definition demo_started :: world where
  "demo_started = snd (recording_New (Some (CastFile demo_path)) 80 24 ''u@db'' 1700000000000000000
     (demo_world\<lparr>files := set_node demo_path (FFile []) demo_dirs\<rparr>))"

lemma demo_new:
  "recording_New (Some (CastFile demo_path)) 80 24 ''u@db'' 1700000000000000000
     (demo_world\<lparr>files := set_node demo_path (FFile []) demo_dirs\<rparr>) = (Inr demo_rec, demo_started)"
  unfolding demo_started_def using demo_new_at[of "demo_world\<lparr>files := set_node demo_path (FFile []) demo_dirs\<rparr>"] by auto

text \<open>
  C13. A cast replays to what was recorded. On a medium that takes every write, the file of a recording
  consists of one header line and one line per event, in order, however the output was chunked and
  whatever bytes it holds; a JSON reader gets back each event's time, kind and payload, the payload with
  invalid UTF-8 bytes replaced by U+FFFD; and nothing is recorded after Close.\<close>
theorem cast_replay:
  assumes "OpenCast k m w = (Inr (CastFile p, loc), w1)" and "quota (files w) p = None"
    and "recording_New (Some (CastFile p)) x y title st w1 = (Inr r, w2)"
  shows "split_on (CHR 0x0A) (cast_bytes (snd (rec_run r ops w2)) p) =
           json_enc (header_json \<lparr>Version = 2, Width = x, Height = y, Timestamp = unix_seconds st, Title = title\<rparr>) #
           map ev_line (cast_events st (clock w) (ticks w2) ops) @ [[]] \<and>
         map read_event (map ev_line (cast_events st (clock w) (ticks w2) ops)) =
           map (\<lambda>(t, kind, pl). Some (of_int t / 1000000, kind, repair_utf8 pl)) (cast_events st (clock w) (ticks w2) ops)"
proof
  have u: "unbounded p w1" using sinks.keeps_quota[OF assms(1)] assms(2) by (simp add: unbounded_def)
  let ?h = "json_enc (header_json \<lparr>Version = 2, Width = x, Height = y, Timestamp = unix_seconds st, Title = title\<rparr>)"
  let ?evs = "cast_events st (clock w) (ticks w2) ops"
  have "list_all printable (?h # map ev_line ?evs)"
    by (auto simp: list_all_iff printable_json_enc ev_line_def printable_event_line)
  then show "split_on (CHR 0x0A) (cast_bytes (snd (rec_run r ops w2)) p) = ?h # map ev_line ?evs @ [[]]"
    using sinks.opened_cast_bytes[OF assms, of ops] recording_New_file(10)[OF assms(3) u]
    by (simp only: split_as_lines append_Cons)
  show "map read_event (map ev_line ?evs) = map (\<lambda>(t, kind, pl). Some (of_int t / 1000000, kind, repair_utf8 pl)) ?evs"
    by (auto simp: ev_line_def read_event_line repair_kind dest!: cast_events_kind)
qed

theorem cast_replay_witness:
  "map read_event (map ev_line (cast_events 1700000000000000000 (clock demo_world)
     (ticks demo_started) [OpOutput ''hi'', OpClose, OpOutput ''x''])) =
   map (\<lambda>(t, kind, pl). Some (of_int t / 1000000, kind, repair_utf8 pl)) (cast_events 1700000000000000000 (clock demo_world)
     (ticks demo_started) [OpOutput ''hi'', OpClose, OpOutput ''x''])"
proof -
  have "quota (files demo_world) demo_path = None" by (simp add: demo_world_def demo_fs_def)
  from conjunct2[OF cast_replay[OF demo_open this demo_new, of "[OpOutput ''hi'', OpClose, OpOutput ''x'']"]]
  show ?thesis .
qed

text \<open>
  C14. Event times never decrease when the clock does not run backwards, and each is within a microsecond
  of the time elapsed since the start for recordings of up to 10^9 seconds, although it passes through
  float64 seconds.\<close>
theorem cast_times:
  assumes "clock_mono w" and "0 \<le> t - st" and "t - st \<le> 10 ^ 18"
  shows "sorted (map fst (cast_events st (clock w) n ops)) \<and>
         \<bar>of_int (elapsed_micros st t) - (of_int (t - st) / 10 ^ 3 :: rat)\<bar> < 1"
proof
  show "sorted (map fst (cast_events st (clock w) n ops))"
    using assms(1) unfolding clock_mono_def by (intro cast_events_sorted) blast
  have "time_sub t st = t - st" using assms(2,3) unfolding time_sub_def by (intro sat64_id) (simp add: int64_defs)
  then show "\<bar>of_int (elapsed_micros st t) - (of_int (t - st) / 10 ^ 3 :: rat)\<bar> < 1"
    using round6_error[OF assms(2,3)] assms(2) by (simp add: elapsed_micros_alt)
qed

theorem cast_times_witness:
  "sorted (map fst (cast_events 0 (clock demo_world) 0 [OpOutput ''a'', OpResize 3 4])) \<and>
   \<bar>of_int (elapsed_micros 0 1234567890) - (of_int (1234567890 - 0) / 10 ^ 3 :: rat)\<bar> < 1"
proof -
  have "clock_mono demo_world" by (simp add: clock_mono_def demo_world_def)
  from cast_times[OF this, of 1234567890 0 0 "[OpOutput ''a'', OpResize 3 4]"] show ?thesis by simp
qed

text \<open>
  C15. Whatever session id a cast is opened with, a local sink writes it to a new file
  root/day/name.cast directly below its root: the day and the name contain no separator and no dot, the
  file did not exist, it is empty, and no existing file is changed.\<close>
theorem open_cast_confined:
  assumes "clean_abs (sink_root s)" and "LocalDirSink_OpenCast s m w = (Inr (c, loc), w')"
  shows "\<exists>day name. c = CastFile loc \<and> loc = below (below (sink_root s) day) (name @ ''.cast'') \<and> clean_abs loc \<and>
           list_all (\<lambda>x. is_digit x \<or> x = CHR ''-'') day \<and> list_all safe_name_char name \<and>
           node_at (files w) loc = None \<and> node_at (files w') loc = Some (FFile []) \<and>
           (\<forall>q b. node_at (files w) q = Some (FFile b) \<longrightarrow> node_at (files w') q = Some (FFile b))"
  using assms(2)
proof (cases rule: LocalDirSink_cases)
  case (made d f f' p t)
  then have c: "c = CastFile loc" and loc: "loc = cast_path (sink_root s) (castSessionID m) t" by auto
  note P = cast_path_below[OF assms(1), of "castSessionID m" t, folded loc]
  have op: "LocalDirSink_OpenCast s m w = (Inr (CastFile loc, loc), w')" using assms(2) c by simp
  have "clean_abs loc" unfolding P by (intro clean_abs_below assms(1) proper_day proper_cast_name)
  moreover have "list_all (\<lambda>x. is_digit x \<or> x = CHR ''-'') (fmt_day t)"
    "list_all safe_name_char (sanitizeFilename (castSessionID m))"
    using set_fmt_day sanitizeFilename_chars by (auto simp: list_all_iff)
  ultimately show ?thesis using c P local.fresh[OF op] local.keeps_files[OF op] by blast
qed auto

theorem open_cast_confined_witness:
  "\<exists>day name. CastFile demo_path = CastFile demo_path \<and>
     demo_path = below (below (sink_root demo_sink) day) (name @ ''.cast'')"
proof -
  have r: "clean_abs (sink_root demo_sink)"
    unfolding clean_abs_def
    by (rule exI[of _ "[''c'']"]) (simp add: demo_sink_def rooted_path_def proper_elem_def)
  show ?thesis using open_cast_confined[OF r demo_open[unfolded OpenCast.simps]] by blast
qed

text \<open>
  A rune that arrives in two chunks is lost: the recorder marshals each chunk on its own, and neither half
  is valid UTF-8. The replay of a correct output stream then differs from the stream.
\<close>

lemma chunked_rune_replaced:
  "valid_utf8 [CHR 0xE2, CHR 0x82, CHR 0xAC] \<and>
   repair_utf8 [CHR 0xE2, CHR 0x82] @ repair_utf8 [CHR 0xAC] \<noteq> [CHR 0xE2, CHR 0x82, CHR 0xAC]"
  by (simp add: valid_utf8_def repair_utf8_def runes.simps second_range_def rune_width_def between_def Let_def
      repair_rune_def rune_error_def utf8_encode3_def cont_bits_def)

end
