(* ===== verification/Session_Audit.thy ===== *)
theory Session_Audit
  imports Recording
begin

text \<open>
  The observers of one proxied channel: file-transfer detection (\<^verbatim>\<open>subsystem.go\<close>), port-forward accounting
  (\<^verbatim>\<open>portforward.go\<close>) and the per-channel recorder (\<^verbatim>\<open>recorder.go\<close>) of \<^verbatim>\<open>internal/proxyd/session\<close>. The SSH
  wire decoder \<^verbatim>\<open>gossh.Unmarshal\<close> is a parameter, one function per struct it is used with.
\<close>

record recording_audit_attr =
  attrPrincipals :: string
  attrTarget :: string
  attrRemoteUser :: string
  attrClientIP :: string

record ssh_request =
  ReqType :: string
  WantReply :: bool
  Payload :: string

record direct_tcpip_request =
  DestHost :: string
  DestPort :: "32 word"
  OriginHost :: string
  OriginPort :: "32 word"

record pty_request =
  Cols :: "32 word"
  Rows :: "32 word"

record wire_lib =
  unmarshal_string :: "string \<Rightarrow> string result"
  unmarshal_direct_tcpip :: "string \<Rightarrow> direct_tcpip_request result"
  unmarshal_pty :: "string \<Rightarrow> pty_request result"

section \<open>File-transfer detection\<close>

definition subsystemSCP :: string where "subsystemSCP = ''scp''"
definition subsystemSFTP :: string where "subsystemSFTP = ''sftp''"

definition detectSubsystem :: "wire_lib \<Rightarrow> ssh_request \<Rightarrow> (string \<times> string) option" where
  "detectSubsystem lib req =
     (if ReqType req = ''exec'' then
        (case unmarshal_string lib (Payload req) of
           Inl _ \<Rightarrow> None
         | Inr command \<Rightarrow>
             let cmd = TrimSpace command in
             if HasPrefix cmd ''scp '' \<or> cmd = ''scp'' \<or> HasPrefix cmd (''scp'' @ [CHR 9])
             then Some (subsystemSCP, cmd) else None)
      else if ReqType req = ''subsystem'' then
        (case unmarshal_string lib (Payload req) of
           Inl _ \<Rightarrow> None
         | Inr name \<Rightarrow> if name = ''sftp'' then Some (subsystemSFTP, []) else None)
      else None)"

definition emitSubsystemOpened ::
  "audit_sink option \<Rightarrow> string \<Rightarrow> recording_audit_attr \<Rightarrow> string \<Rightarrow> string \<Rightarrow> world \<Rightarrow> world" where
  "emitSubsystemOpened sink sid attr kind command w =
     (case sink of
        None \<Rightarrow> w
      | Some s \<Rightarrow>
          let md = json_enc (json_map ((''kind'', JStr kind) # (if command \<noteq> [] then [(''command'', JStr command)] else [])));
              (uid, w1) = NewString w;
              (t, w2) = Now w1
          in snd (Append s
               \<lparr>EntryID = uid, Action = ActionSubsystemOpened, SessionID = sid, User = attrRemoteUser attr,
                Principals = attrPrincipals attr, Target = attrTarget attr, RemoteUser = attrRemoteUser attr,
                ClientIP = attrClientIP attr, RecordingPath = [], Reason = [], Metadata = md, OccurredAt = t\<rparr> w2))"

section \<open>Port forwards\<close>

definition parseDirectTCPIPRequest :: "wire_lib \<Rightarrow> string \<Rightarrow> direct_tcpip_request result" where
  "parseDirectTCPIPRequest lib extra =
     (case unmarshal_direct_tcpip lib extra of
        Inl e \<Rightarrow> Inl (Wrap ''decode direct-tcpip extra-data'' e)
      | Inr r \<Rightarrow> Inr r)"

text \<open>\<^verbatim>\<open>atomic.Int64\<close> counters; \<open>n\<close> is the count the wrapped channel returned.\<close>

record counting_channel =
  bytesRead :: int
  bytesWritten :: int

definition new_counting_channel :: counting_channel where
  "new_counting_channel = \<lparr>bytesRead = 0, bytesWritten = 0\<rparr>"

definition counting_Read :: "int \<Rightarrow> counting_channel \<Rightarrow> counting_channel" where
  "counting_Read n c = (if n > 0 then c\<lparr>bytesRead := wrap64 (bytesRead c + n)\<rparr> else c)"

definition counting_Write :: "int \<Rightarrow> counting_channel \<Rightarrow> counting_channel" where
  "counting_Write n c = (if n > 0 then c\<lparr>bytesWritten := wrap64 (bytesWritten c + n)\<rparr> else c)"

record port_forward_auditor =
  pfSink :: "audit_sink option"
  pfSessionID :: string
  pfAttr :: recording_audit_attr
  pfReq :: direct_tcpip_request
  pfOpenedAt :: time
  pfEmitOpened :: bool

definition port_json :: "32 word \<Rightarrow> json" where "port_json p = JInt (uint p)"

definition forward_json :: "direct_tcpip_request \<Rightarrow> (string \<times> json) list" where
  "forward_json r = [(''src_host'', JStr (OriginHost r)), (''src_port'', port_json (OriginPort r)),
                     (''dst_host'', JStr (DestHost r)), (''dst_port'', port_json (DestPort r))]"

definition forward_target :: "direct_tcpip_request \<Rightarrow> string" where
  "forward_target r = DestHost r @ '':'' @ fmt_int (uint (DestPort r))"

definition forward_entry :: "port_forward_auditor \<Rightarrow> string \<Rightarrow> string \<Rightarrow> string \<Rightarrow> time \<Rightarrow> audit_entry" where
  "forward_entry a uid action md t =
     \<lparr>EntryID = uid, Action = action, SessionID = pfSessionID a, User = attrRemoteUser (pfAttr a),
      Principals = attrPrincipals (pfAttr a), Target = forward_target (pfReq a),
      RemoteUser = attrRemoteUser (pfAttr a), ClientIP = attrClientIP (pfAttr a),
      RecordingPath = [], Reason = [], Metadata = md, OccurredAt = t\<rparr>"

definition portForward_Open :: "port_forward_auditor option \<Rightarrow> world \<Rightarrow> port_forward_auditor option \<times> world" where
  "portForward_Open oa w =
     (case oa of
        None \<Rightarrow> (oa, w)
      | Some a \<Rightarrow> (case pfSink a of
          None \<Rightarrow> (oa, w)
        | Some s \<Rightarrow>
            let (t, w1) = Now w;
                a' = a\<lparr>pfOpenedAt := t, pfEmitOpened := True\<rparr>;
                md = json_enc (json_map (forward_json (pfReq a)));
                (uid, w2) = NewString w1
            in (Some a', snd (Append s (forward_entry a' uid ActionPortForwardOpened md t) w2))))"

definition portForward_Close :: "port_forward_auditor option \<Rightarrow> int \<Rightarrow> int \<Rightarrow> world \<Rightarrow> world" where
  "portForward_Close oa bytesIn bytesOut w =
     (case oa of
        None \<Rightarrow> w
      | Some a \<Rightarrow> (case pfSink a of
          None \<Rightarrow> w
        | Some s \<Rightarrow>
            if \<not> pfEmitOpened a then w
            else
              let (t, w1) = Now w;
                  md = json_enc (json_map (forward_json (pfReq a) @
                         [(''bytes_in'', JInt bytesIn), (''bytes_out'', JInt bytesOut),
                          (''duration_seconds'', JMicros (round6 (Seconds (time_sub t (pfOpenedAt a)))))]));
                  (uid, w2) = NewString w1
              in snd (Append s (forward_entry a uid ActionPortForwardClosed md t) w2)))"

section \<open>The channel recorder\<close>

record channel_recorder =
  crSink :: rec_sink
  crUser :: string
  crHost :: string
  crAudit :: audit_sink
  crAttr :: recording_audit_attr
  crRec :: "recorder option"
  crCast :: "cast option"
  crLocation :: string
  crSessionID :: string
  crStartedAt :: time
  crClosed :: bool

text \<open>The zero \<^verbatim>\<open>startedAt\<close> is never read: only a started recorder uses it.\<close>

definition newChannelRecorder ::
  "rec_sink \<Rightarrow> string \<Rightarrow> string \<Rightarrow> string \<Rightarrow> recording_audit_attr \<Rightarrow> audit_sink option \<Rightarrow> channel_recorder" where
  "newChannelRecorder sink sid user host attr auditSink =
     \<lparr>crSink = sink, crUser = user, crHost = host,
      crAudit = (case auditSink of None \<Rightarrow> NoopSink | Some s \<Rightarrow> s),
      crAttr = attr, crRec = None, crCast = None, crLocation = [], crSessionID = sid, crStartedAt = zero_time, crClosed = False\<rparr>"

fun cast_close :: "cast \<Rightarrow> world \<Rightarrow> go_error option" where
  "cast_close (CastFile p) w = faults (files w) ''close'' p"
| "cast_close CastNop w = None"

definition StartIfNeeded ::
  "int \<Rightarrow> int \<Rightarrow> channel_recorder \<Rightarrow> world \<Rightarrow> go_error option \<times> channel_recorder \<times> world" where
  "StartIfNeeded width height r w =
     (if crRec r \<noteq> None \<or> crClosed r then (None, r, w)
      else
        let (sid, w1) = (if crSessionID r = [] then NewString w else (crSessionID r, w));
            (t, w2) = Now w1;
            r1 = r\<lparr>crSessionID := sid, crStartedAt := t\<rparr>
        in case OpenCast (crSink r)
                  \<lparr>castSessionID = sid, castUser = crUser r, castTarget = crHost r, castStarted = Some t\<rparr> w2 of
             (Inl e, w3) \<Rightarrow> (Some e, r1, w3)
           | (Inr (cast, location), w3) \<Rightarrow>
               (case recording_New (Some cast) width height (crUser r @ ''@'' @ crHost r) t w3 of
                  (Inl e, w4) \<Rightarrow> (Some e, r1, w4)
                | (Inr rec, w4) \<Rightarrow> (None, r1\<lparr>crCast := Some cast, crRec := Some rec, crLocation := location\<rparr>, w4)))"

definition writeOutput :: "string \<Rightarrow> channel_recorder \<Rightarrow> world \<Rightarrow> world" where
  "writeOutput p r w = (case crRec r of None \<Rightarrow> w | Some rec \<Rightarrow> Output rec p w)"

definition channel_Resize :: "int \<Rightarrow> int \<Rightarrow> channel_recorder \<Rightarrow> world \<Rightarrow> world" where
  "channel_Resize width height r w = (case crRec r of None \<Rightarrow> w | Some rec \<Rightarrow> recorder_Resize rec width height w)"

text \<open>\<^verbatim>\<open>time.Time\<close> fails to marshal outside the years 0 to 9999; the program then stores no metadata.\<close>

definition completed_metadata :: "int \<Rightarrow> time \<Rightarrow> string" where
  "completed_metadata k started =
     (if json_time started
      then json_enc (json_map [(''duration_seconds'', JMicros k), (''started_at'', JStr (fmt_rfc3339 started))])
      else [])"

definition completed_entry :: "channel_recorder \<Rightarrow> string \<Rightarrow> int \<Rightarrow> time \<Rightarrow> audit_entry" where
  "completed_entry r uid k t =
     \<lparr>EntryID = uid, Action = ActionRecordingComplete, SessionID = crSessionID r, User = crUser r,
      Principals = attrPrincipals (crAttr r), Target = attrTarget (crAttr r), RemoteUser = attrRemoteUser (crAttr r),
      ClientIP = attrClientIP (crAttr r), RecordingPath = crLocation r, Reason = [],
      Metadata = completed_metadata k (crStartedAt r), OccurredAt = t\<rparr>"

definition emitCompleted :: "channel_recorder \<Rightarrow> world \<Rightarrow> world" where
  "emitCompleted r w =
     (let (now, w1) = Now w;
          k = elapsed_micros (crStartedAt r) now;
          (uid, w2) = NewString w1;
          (t, w3) = Now w2
      in snd (Append (crAudit r) (completed_entry r uid k t) w3))"

definition channel_Close :: "channel_recorder \<Rightarrow> world \<Rightarrow> go_error option \<times> channel_recorder \<times> world" where
  "channel_Close r w =
     (if crClosed r then (None, r, w)
      else
        let closeErr = (case crCast r of None \<Rightarrow> None | Some c \<Rightarrow> cast_close c w);
            w1 = (if crRec r \<noteq> None then emitCompleted r w else w)
        in (closeErr, r\<lparr>crClosed := True, crCast := None, crRec := None\<rparr>, w1))"

text \<open>\<^verbatim>\<open>recordingTee.Write\<close>: \<open>n\<close> is the count the wire accepted, with \<open>0 \<le> n \<le> len(p)\<close>.\<close>

definition recordingTee_Write :: "string \<Rightarrow> nat \<Rightarrow> channel_recorder option \<Rightarrow> world \<Rightarrow> world" where
  "recordingTee_Write p n rec w =
     (case rec of None \<Rightarrow> w | Some r \<Rightarrow> if n > 0 then writeOutput (take n p) r w else w)"

section \<open>Runs of a channel recorder\<close>

text \<open>
  The request goroutine starts and resizes, the copy goroutine writes, the deferred call closes. Each call
  holds the recorder's mutex while it reads or changes it, so a run is a sequence of calls; an \<^verbatim>\<open>Output\<close> that
  fetched the inner recorder before a close finds it closed, which is the effect of the later call.
\<close>

datatype cr_op = CStart int int | COut string nat | CResize int int | CClose

fun cr_step :: "cr_op \<Rightarrow> channel_recorder \<times> world \<Rightarrow> channel_recorder \<times> world" where
  "cr_step (CStart x y) (r, w) = snd (StartIfNeeded x y r w)"
| "cr_step (COut p n) (r, w) = (r, recordingTee_Write p n (Some r) w)"
| "cr_step (CResize x y) (r, w) = (r, channel_Resize x y r w)"
| "cr_step CClose (r, w) = snd (channel_Close r w)"

fun cr_run :: "cr_op list \<Rightarrow> channel_recorder \<times> world \<Rightarrow> channel_recorder \<times> world" where
  "cr_run [] s = s"
| "cr_run (op # ops) s = cr_run ops (cr_step op s)"

lemma cr_run_append: "cr_run (xs @ ys) s = cr_run ys (cr_run xs s)"
  by (induction xs arbitrary: s) auto

lemma writeEvent_journal: "journal (snd (writeEvent r k p w)) = journal w"
proof (cases "rec_closed r")
  case False
  let ?w1 = "w\<lparr>ticks := Suc (ticks w)\<rparr>"
  let ?l = "event_line (elapsed_micros (rec_started r) (clock w (ticks w))) k p"
  obtain e w' where wl: "write_line (rec_encoded r) ?l ?w1 = (e, w')" by (cases "write_line (rec_encoded r) ?l ?w1")
  then show ?thesis using nop.write_line_journal[OF wl] False by (simp add: writeEvent_def Now_def)
qed (simp add: writeEvent_def)

lemma Output_journal [simp]: "journal (Output r p w) = journal w" "journal (recorder_Resize r x y w) = journal w"
  by (simp_all add: Output_def recorder_Resize_def writeEvent_journal)

lemma recording_New_journal: "recording_New d x y t st w = (res, w') \<Longrightarrow> journal w' = journal w"
proof -
  assume n: "recording_New d x y t st w = (res, w')"
  then consider "w' = w" | c h e where "write_line c h w = (e, w')"
    by (auto simp: recording_New_def writeHeader_def Let_def split: if_splits prod.splits option.splits)
  then show ?thesis by cases (auto dest: nop.write_line_journal)
qed

lemma StartIfNeeded_journal: "journal (snd (snd (StartIfNeeded x y r w))) = journal w"
  by (auto simp: StartIfNeeded_def NewString_def Now_def Let_def
      split: if_splits prod.splits sum.splits dest!: recording_New_journal dest: sinks.keeps_journal)

lemma cr_step_open:
  assumes "op \<noteq> CClose" "cr_step op (r, w) = (r', w')"
  shows "journal w' = journal w" "crClosed r' = crClosed r" "crAudit r' = crAudit r" "crUser r' = crUser r" "crAttr r' = crAttr r"
proof -
  show "journal w' = journal w"
    using assms StartIfNeeded_journal
    by (cases op) (auto simp: recordingTee_Write_def writeOutput_def channel_Resize_def split: option.splits, metis snd_conv)
  show "crClosed r' = crClosed r" "crAudit r' = crAudit r" "crUser r' = crUser r" "crAttr r' = crAttr r"
    using assms by (cases op; auto simp: StartIfNeeded_def Let_def split: if_splits prod.splits sum.splits)+
qed

lemma cr_run_open:
  assumes "CClose \<notin> set ops" "cr_run ops (r, w) = (r', w')"
  shows "journal w' = journal w \<and> crClosed r' = crClosed r \<and> crAudit r' = crAudit r \<and> crUser r' = crUser r \<and> crAttr r' = crAttr r"
  using assms
proof (induction ops arbitrary: r w)
  case (Cons op ops)
  obtain r1 w1 where s: "cr_step op (r, w) = (r1, w1)" by (cases "cr_step op (r, w)")
  have "op \<noteq> CClose" using Cons.prems by auto
  note S = cr_step_open[OF this s]
  show ?case using Cons.IH[of r1 w1] Cons.prems s S by simp
qed simp

text \<open>Once closed, a recorder holds nothing and ignores every call.\<close>

definition cr_shut :: "channel_recorder \<Rightarrow> bool" where
  "cr_shut r \<longleftrightarrow> crClosed r \<and> crRec r = None"

lemma cr_run_shut: "cr_shut r \<Longrightarrow> cr_run ops (r, w) = (r, w)"
proof (induction ops)
  case (Cons op ops)
  then show ?case
    by (cases op) (auto simp: cr_shut_def StartIfNeeded_def recordingTee_Write_def writeOutput_def channel_Resize_def channel_Close_def)
qed simp

lemma channel_Close_shut: "\<not> crClosed r \<Longrightarrow> cr_shut (fst (snd (channel_Close r w)))"
  by (simp add: channel_Close_def cr_shut_def Let_def)

lemma channel_Close_published:
  assumes "\<not> crClosed r" "crAudit r = JournalSink f"
  shows "\<exists>uid k t. published (snd (snd (channel_Close r w))) =
           published w @ (if crRec r \<noteq> None then [completed_entry r uid k t] else [])"
proof (cases "crRec r")
  case (Some rec)
  let ?u = "uuids w (drawn w)" and ?t = "clock w (Suc (ticks w))" and ?k = "elapsed_micros (crStartedAt r) (clock w (ticks w))"
  have "published (snd (snd (channel_Close r w))) = published w @ [completed_entry r ?u ?k ?t]"
    using assms Some by (simp add: channel_Close_def emitCompleted_def Now_def NewString_def published_def Let_def)
  then show ?thesis using Some by (intro exI[of _ ?u] exI[of _ ?k] exI[of _ ?t]) simp
qed (use assms in \<open>simp add: channel_Close_def\<close>)

subsection \<open>The cast a run leaves behind\<close>

fun to_rec_op :: "cr_op \<Rightarrow> rec_op" where
  "to_rec_op (CStart x y) = OpOutput []"
| "to_rec_op (COut p n) = OpOutput (take n p)"
| "to_rec_op (CResize x y) = OpResize x y"
| "to_rec_op CClose = OpClose"

lemma cr_step_rec:
  assumes "crRec r = Some rec" "op \<noteq> CClose"
  shows "cr_step op (r, w) = (r, snd (rec_run rec [to_rec_op op] w))"
  using assms by (cases op) (auto simp: StartIfNeeded_def recordingTee_Write_def writeOutput_def channel_Resize_def Output_def)

lemma emitCompleted_files [simp]: "files (emitCompleted r w) = files w"
  by (simp add: emitCompleted_def Now_def NewString_def)

lemma rec_run_append: "rec_run r (xs @ ys) w = (case rec_run r xs w of (r', w') \<Rightarrow> rec_run r' ys w')"
  by (induction r xs w rule: rec_run.induct) auto

lemma rec_run_fst: "OpClose \<notin> set ops \<Longrightarrow> fst (rec_run r ops w) = r"
  by (induction r ops w rule: rec_run.induct) auto

lemma to_rec_op_close [simp]: "to_rec_op op = OpClose \<longleftrightarrow> op = CClose"
  by (cases op) auto

text \<open>The file system after a run is that of the inner recorder's run.\<close>

lemma cr_run_files:
  assumes "crRec r = Some rec" "\<not> crClosed r" "\<not> rec_closed rec"
  shows "files (snd (cr_run ops (r, w))) = files (snd (rec_run rec (map to_rec_op ops) w))"
  using assms
proof (induction ops arbitrary: w)
  case (Cons op ops)
  show ?case
  proof (cases "op = CClose")
    case True
    obtain e r' w' where c: "channel_Close r w = (e, r', w')" by (cases "channel_Close r w")
    have "cr_shut r'" "files w' = files w"
      using Cons.prems c channel_Close_shut[of r w] by (auto simp: channel_Close_def Let_def)
    then show ?thesis using True c cr_run_shut[of r' ops w'] rec_run_closed[of "recorder_Close rec" "map to_rec_op ops" w]
      by (simp add: recorder_Close_def)
  next
    case False
    have "rec_run rec (map to_rec_op (op # ops)) w =
      (case rec_run rec [to_rec_op op] w of (r', w') \<Rightarrow> rec_run r' (map to_rec_op ops) w')"
      using rec_run_append[of rec "[to_rec_op op]" "map to_rec_op ops" w] by simp
    also have "\<dots> = rec_run rec (map to_rec_op ops) (snd (rec_run rec [to_rec_op op] w))"
      using rec_run_fst[of "[to_rec_op op]" rec w] to_rec_op_close[of op] False by (auto simp: split_def simp del: rec_run.simps to_rec_op_close)
    finally show ?thesis using Cons cr_step_rec[OF Cons.prems(1) False, of w] by (simp del: rec_run.simps cr_step.simps)
  qed
qed simp

lemma StartIfNeeded_started:
  assumes st: "StartIfNeeded x y r w = (None, r', w')" and new: "crRec r = None" "\<not> crClosed r"
    and c: "crCast r' = Some (CastFile p)"
  shows "\<exists>m w2 w3 rec. OpenCast (crSink r) m w2 = (Inr (CastFile p, p), w3) \<and> files w2 = files w \<and> clock w2 = clock w \<and>
    recording_New (Some (CastFile p)) x y (crUser r @ ''@'' @ crHost r) (crStartedAt r') w3 = (Inr rec, w') \<and>
    crRec r' = Some rec \<and> crLocation r' = p \<and> crClosed r' = crClosed r"
  using assms sinks.fresh
  by (fastforce simp: StartIfNeeded_def NewString_def Now_def Let_def split: if_splits prod.splits sum.splits)

subsection \<open>Port-forward entries come in pairs\<close>

lemma portForward_pair:
  assumes "pfSink a = Some (JournalSink f)" "portForward_Open (Some a) w = (oa, w1)"
  shows "\<exists>a' e1. oa = Some a' \<and> published w1 = published w @ [e1] \<and> Action e1 = ActionPortForwardOpened \<and>
           SessionID e1 = pfSessionID a \<and> Target e1 = forward_target (pfReq a) \<and>
           pfSessionID a' = pfSessionID a \<and> pfReq a' = pfReq a \<and> pfAttr a' = pfAttr a \<and>
           pfSink a' = pfSink a \<and> pfEmitOpened a' \<and> pfOpenedAt a' = clock w (ticks w)"
  using assms by (auto simp: portForward_Open_def Now_def NewString_def Let_def published_def forward_entry_def)

lemma portForward_Close_published:
  assumes "pfSink a = Some (JournalSink f)" "pfEmitOpened a"
  shows "\<exists>e. published (portForward_Close (Some a) i j w) = published w @ [e] \<and> Action e = ActionPortForwardClosed \<and>
           SessionID e = pfSessionID a \<and> Target e = forward_target (pfReq a) \<and>
           Metadata e = json_enc (json_map (forward_json (pfReq a) @ [(''bytes_in'', JInt i), (''bytes_out'', JInt j),
             (''duration_seconds'', JMicros (round6 (Seconds (time_sub (clock w (ticks w)) (pfOpenedAt a)))))]))"
  using assms by (auto simp: portForward_Close_def Now_def NewString_def Let_def published_def forward_entry_def)

lemma portForward_None [simp]:
  "portForward_Open None w = (None, w)" "portForward_Close None i j w = w"
  by (simp_all add: portForward_Open_def portForward_Close_def)

section \<open>Properties\<close>

definition demo_attr :: recording_audit_attr where
  "demo_attr = \<lparr>attrPrincipals = ''ops'', attrTarget = ''db:22'', attrRemoteUser = ''ops'', attrClientIP = ''10.0.0.1''\<rparr>"

definition demo_cr :: channel_recorder where
  "demo_cr = newChannelRecorder (LocalDirSink demo_sink) ''../x'' ''u'' ''db'' demo_attr (Some (JournalSink (\<lambda>_. None)))"

text \<open>
  C18. A channel's recording is announced at most once, and exactly when it exists. Over any sequence of
  calls the journal receives a recording.completed entry if and only if the recorder is closed at some
  point and a recording had been started by then; the entry carries the session id, the certificate's key
  id and the location of the cast; and calls after the close change nothing.\<close>
theorem recorder_lifecycle:
  assumes "\<not> crClosed r" and "crAudit r = JournalSink f"
    and "cr_run (takeWhile (\<lambda>op. op \<noteq> CClose) ops) (r, w) = (r1, w1)"
  shows "\<exists>uid k t.
    published (snd (cr_run ops (r, w))) =
      published w @ (if CClose \<in> set ops \<and> crRec r1 \<noteq> None then [completed_entry r1 uid k t] else []) \<and>
    crUser r1 = crUser r \<and>
    (CClose \<in> set ops \<longrightarrow> (\<forall>more. cr_run more (cr_run ops (r, w)) = cr_run ops (r, w)))"
proof -
  have pre: "CClose \<notin> set (takeWhile (\<lambda>op. op \<noteq> CClose) ops)" by (auto dest: set_takeWhileD)
  note O = cr_run_open[OF pre assms(3)]
  have p1: "published w1 = published w" using O by (simp add: published_def)
  show ?thesis
  proof (cases "CClose \<in> set ops")
    case False
    then have "takeWhile (\<lambda>op. op \<noteq> CClose) ops = ops" by (auto intro: takeWhile_eq_all_conv[THEN iffD2])
    then have "cr_run ops (r, w) = (r1, w1)" using assms(3) by (simp only:)
    then show ?thesis using False p1 O by simp
  next
    case True
    obtain rest where ops: "ops = takeWhile (\<lambda>op. op \<noteq> CClose) ops @ CClose # rest"
      using True by (metis (mono_tags, lifting) dropWhile_eq_Nil_conv hd_dropWhile list.collapse takeWhile_dropWhile_id)
    obtain e r2 w2 where c: "channel_Close r1 w1 = (e, r2, w2)" by (cases "channel_Close r1 w1")
    have nc: "\<not> crClosed r1" "crAudit r1 = JournalSink f" using O assms by auto
    have shut: "cr_shut r2" using channel_Close_shut[OF nc(1), of w1] c by simp
    have run: "cr_run ops (r, w) = (r2, w2)"
      by (subst ops) (simp add: cr_run_append assms(3) c cr_run_shut[OF shut])
    show ?thesis
      using channel_Close_published[OF nc, of w1] c run p1 True O cr_run_shut[OF shut] by auto
  qed
qed

theorem recorder_lifecycle_witness:
  "\<exists>uid k t. published (snd (cr_run [CStart 80 24, CClose, CClose] (demo_cr, demo_world))) =
     published demo_world @ (if CClose \<in> set [CStart 80 24, CClose, CClose] \<and>
       crRec (fst (cr_run [CStart 80 24] (demo_cr, demo_world))) \<noteq> None
     then [completed_entry (fst (cr_run [CStart 80 24] (demo_cr, demo_world))) uid k t] else [])"
proof -
  have r: "\<not> crClosed demo_cr" "crAudit demo_cr = JournalSink (\<lambda>_. None)"
    by (simp_all add: demo_cr_def newChannelRecorder_def)
  have t: "cr_run (takeWhile (\<lambda>op. op \<noteq> CClose) [CStart 80 24, CClose, CClose]) (demo_cr, demo_world) =
    (fst (cr_run [CStart 80 24] (demo_cr, demo_world)), snd (cr_run [CStart 80 24] (demo_cr, demo_world)))"
    by simp
  from recorder_lifecycle[OF r t] show ?thesis by blast
qed

lemma started_channel_bytes:
  assumes "StartIfNeeded x y r w = (None, r1, w1)" and "crRec r = None" and "\<not> crClosed r"
    and "crCast r1 = Some (CastFile p)" and "quota (files w) p = None"
  shows "crLocation r1 = p \<and>
    file_bytes (files (snd (cr_run ops (r1, w1)))) p =
      as_lines (json_enc (header_json \<lparr>Version = 2, Width = x, Height = y,
                 Timestamp = unix_seconds (crStartedAt r1), Title = crUser r @ ''@'' @ crHost r\<rparr>) #
        map ev_line (cast_events (crStartedAt r1) (clock w) (ticks w1) (map to_rec_op ops)))"
proof -
  obtain m w2 w3 rec where op: "OpenCast (crSink r) m w2 = (Inr (CastFile p, p), w3)"
    and w2: "files w2 = files w" "clock w2 = clock w"
    and new: "recording_New (Some (CastFile p)) x y (crUser r @ ''@'' @ crHost r) (crStartedAt r1) w3 = (Inr rec, w1)"
    and rec: "crRec r1 = Some rec" and loc: "crLocation r1 = p" and cl: "\<not> crClosed r1"
    using StartIfNeeded_started[OF assms(1-4)] assms(3) by auto
  have q: "quota (files w2) p = None" using assms(5) w2 by simp
  have u: "unbounded p w3" using sinks.keeps_quota[OF op] q by (simp add: unbounded_def)
  note N = recording_New_file[OF new u]
  show ?thesis
    using loc cr_run_files[OF rec cl N(6), of ops w1] sinks.opened_cast_bytes[OF op q new, of "map to_rec_op ops"] N(10) w2(2)
    by simp
qed

text \<open>
  C19. The cast of a PTY channel is complete. Once a recorder has started on a file of an unbounded medium,
  the file at the announced location holds, for every later sequence of calls, the header and then one line
  per non-empty chunk the wire accepted and per sensible resize, up to the close and in order.\<close>
theorem recorded_channel_complete:
  assumes "StartIfNeeded x y r w = (None, r1, w1)" and "crRec r = None" and "\<not> crClosed r"
    and "crCast r1 = Some (CastFile p)" and "quota (files w) p = None"
  shows "crLocation r1 = p \<and>
    file_bytes (files (snd (cr_run ops (r1, w1)))) p =
      as_lines (json_enc (header_json \<lparr>Version = 2, Width = x, Height = y,
                 Timestamp = unix_seconds (crStartedAt r1), Title = crUser r @ ''@'' @ crHost r\<rparr>) #
        map ev_line (cast_events (crStartedAt r1) (clock w) (ticks w1) (map to_rec_op ops)))"
  by (rule started_channel_bytes[OF assms])

lemma demo_start:
  "\<exists>r1 w1. StartIfNeeded 80 24 demo_cr demo_world = (None, r1, w1) \<and> crCast r1 = Some (CastFile demo_path)"
proof -
  have m: "\<lparr>castSessionID = ''../x'', castUser = ''u'', castTarget = ''db'', castStarted = Some 1700000000000000000\<rparr> = demo_meta"
    by (simp add: demo_meta_def)
  let ?w = "demo_world\<lparr>ticks := Suc 0\<rparr>"
  have op: "OpenCast (LocalDirSink demo_sink) demo_meta ?w =
     (Inr (CastFile demo_path, demo_path), ?w\<lparr>files := set_node demo_path (FFile []) demo_dirs\<rparr>)"
    by (rule demo_open_at) (simp add: demo_world_def)
  obtain w' where new: "recording_New (Some (CastFile demo_path)) 80 24 ''u@db'' 1700000000000000000
      (?w\<lparr>files := set_node demo_path (FFile []) demo_dirs\<rparr>) = (Inr demo_rec, w')"
    using demo_new_at[of "?w\<lparr>files := set_node demo_path (FFile []) demo_dirs\<rparr>"] by auto
  have n: "Now demo_world = (1700000000000000000, ?w)" by (simp add: Now_def demo_world_def)
  show ?thesis
    by (simp add: StartIfNeeded_def demo_cr_def newChannelRecorder_def n m op new del: OpenCast.simps)
qed

theorem recorded_channel_complete_witness:
  "\<exists>r1 w1. crLocation r1 = demo_path \<and>
    file_bytes (files (snd (cr_run [COut ''hi'' 2, CClose] (r1, w1)))) demo_path =
      as_lines (json_enc (header_json \<lparr>Version = 2, Width = 80, Height = 24,
                 Timestamp = unix_seconds (crStartedAt r1), Title = crUser demo_cr @ ''@'' @ crHost demo_cr\<rparr>) #
        map ev_line (cast_events (crStartedAt r1) (clock demo_world) (ticks w1) (map to_rec_op [COut ''hi'' 2, CClose])))"
proof -
  obtain r1 w1 where st: "StartIfNeeded 80 24 demo_cr demo_world = (None, r1, w1)" "crCast r1 = Some (CastFile demo_path)"
    using demo_start by blast
  have "crRec demo_cr = None" "\<not> crClosed demo_cr" "quota (files demo_world) demo_path = None"
    by (simp_all add: demo_cr_def newChannelRecorder_def demo_world_def demo_fs_def)
  from recorded_channel_complete[OF st(1) this(1,2) st(2) this(3), of "[COut ''hi'' 2, CClose]"] show ?thesis by blast
qed

end
