(* ===== verification/Go_Net.thy ===== *)
theory Go_Net
  imports Go_Strings
begin

unbundle bit_operations_syntax

text \<open>
  The parts of Go's \<^verbatim>\<open>net\<close> and \<^verbatim>\<open>net/netip\<close> packages that the program uses: \<^verbatim>\<open>SplitHostPort\<close>,
  \<^verbatim>\<open>JoinHostPort\<close>, \<^verbatim>\<open>ParseIP\<close>, \<^verbatim>\<open>ParseCIDR\<close>, \<^verbatim>\<open>IP.Equal\<close> and \<^verbatim>\<open>IPNet.Contains\<close>. An address is a list of bytes,
  4 or 16 of them, as \<^verbatim>\<open>net.IP\<close> is.
\<close>

section \<open>Host and port\<close>

definition SplitHostPort :: "string \<Rightarrow> (string \<times> string) result" where
  "SplitHostPort hp =
     (case last_index_byte (CHR '':'') hp of
        None \<Rightarrow> Inl (Msg ''missing port in address'')
      | Some i \<Rightarrow>
          let port = drop (Suc i) hp in
          if hd hp = CHR ''['' then
            (case index_byte (CHR '']'') hp of
               None \<Rightarrow> Inl (Msg ''missing ']' in address'')
             | Some e \<Rightarrow>
                 if Suc e = length hp then Inl (Msg ''missing port in address'')
                 else if Suc e = i then
                   (if CHR ''['' \<in> set (drop 1 hp) then Inl (Msg ''unexpected '[' in address'')
                    else if CHR '']'' \<in> set (drop (Suc e) hp)
                    then Inl (Msg ''unexpected ']' in address'')
                    else Inr (take (e - 1) (drop 1 hp), port))
                 else if hp ! Suc e = CHR '':'' then Inl (Msg ''too many colons in address'')
                 else Inl (Msg ''missing port in address''))
          else
            (let host = take i hp in
             if CHR '':'' \<in> set host then Inl (Msg ''too many colons in address'')
             else if CHR ''['' \<in> set hp then Inl (Msg ''unexpected '[' in address'')
             else if CHR '']'' \<in> set hp then Inl (Msg ''unexpected ']' in address'')
             else Inr (host, port)))"

definition JoinHostPort :: "string \<Rightarrow> string \<Rightarrow> string" where
  "JoinHostPort host port =
     (if CHR '':'' \<in> set host then ''['' @ host @ '']:'' @ port else host @ '':'' @ port)"

definition plain_host :: "string \<Rightarrow> bool" where
  "plain_host h \<longleftrightarrow> CHR '':'' \<notin> set h \<and> CHR ''['' \<notin> set h \<and> CHR '']'' \<notin> set h"

lemma SplitHostPort_bare: "plain_host h \<Longrightarrow> \<exists>e. SplitHostPort h = Inl e"
proof -
  assume "plain_host h"
  then have "last_index_byte (CHR '':'') h = None" by (simp add: plain_host_def)
  then show ?thesis by (simp only: SplitHostPort_def option.case) blast
qed

lemma SplitHostPort_plain:
  assumes h: "plain_host h" and p: "plain_host p"
  shows "SplitHostPort (h @ CHR '':'' # p) = Inr (h, p)"
proof -
  have i: "last_index_byte (CHR '':'') (h @ CHR '':'' # p) = Some (length h)"
    using p by (intro last_index_byte_append) (simp add: plain_host_def)
  have "hd (h @ CHR '':'' # p) \<noteq> CHR ''[''"
    using h by (cases h) (auto simp: plain_host_def)
  with i h p show ?thesis by (simp add: SplitHostPort_def plain_host_def Let_def)
qed

lemma SplitHostPort_bracketed:
  assumes h: "CHR ''['' \<notin> set h" "CHR '']'' \<notin> set h" and p: "plain_host p"
  shows "SplitHostPort (''['' @ h @ '']:'' @ p) = Inr (h, p)"
proof -
  let ?hp = "CHR ''['' # h @ CHR '']'' # CHR '':'' # p"
  have i: "last_index_byte (CHR '':'') ?hp = Some (Suc (Suc (length h)))"
    using last_index_byte_append[of "CHR '':''" p "CHR ''['' # h @ [CHR '']'']"] p
    by (simp add: plain_host_def)
  have e: "index_byte (CHR '']'') ?hp = Some (Suc (length h))"
    using index_byte_append[of "CHR '']''" h "CHR '':'' # p"] h(2) by simp
  from i e h p show ?thesis by (simp add: SplitHostPort_def plain_host_def Let_def)
qed

lemma Split_JoinHostPort:
  assumes "CHR ''['' \<notin> set h" "CHR '']'' \<notin> set h" "plain_host p"
  shows "SplitHostPort (JoinHostPort h p) = Inr (h, p)"
proof (cases "CHR '':'' \<in> set h")
  case True
  then show ?thesis using SplitHostPort_bracketed[OF assms] by (simp add: JoinHostPort_def)
next
  case False
  with assms have "plain_host h" by (simp add: plain_host_def)
  with False show ?thesis using SplitHostPort_plain[OF _ assms(3)] by (simp add: JoinHostPort_def)
qed

section \<open>Addresses\<close>

type_synonym byte8 = "8 word"
type_synonym ip = "byte8 list"

definition v4_in_v6_prefix :: ip where
  "v4_in_v6_prefix = replicate 10 0 @ [255, 255]"

text \<open>\<^verbatim>\<open>netip.parseIPv4Fields\<close>: the loop over the bytes with the octet value, its digits so far and the fields done.\<close>

fun parse_v4_loop :: "string \<Rightarrow> nat \<Rightarrow> nat \<Rightarrow> ip \<Rightarrow> ip option" where
  "parse_v4_loop [] val dl fs =
     (if length fs < 3 then None else Some (fs @ [of_nat val]))"
| "parse_v4_loop (c # cs) val dl fs =
     (if is_digit c then
        (if dl = 1 \<and> val = 0 then None
         else if 255 < val * 10 + digit_val c then None
         else parse_v4_loop cs (val * 10 + digit_val c) (Suc dl) fs)
      else if c = CHR ''.'' then
        (if dl = 0 \<or> cs = [] \<or> length fs = 3 then None
         else parse_v4_loop cs 0 0 (fs @ [of_nat val]))
      else None)"

definition parse_v4 :: "string \<Rightarrow> ip option" where
  "parse_v4 s = parse_v4_loop s 0 0 []"

definition hex_val :: "char \<Rightarrow> nat option" where
  "hex_val c =
     (let b = byte_val c in
      if 48 \<le> b \<and> b \<le> 57 then Some (b - 48)
      else if 97 \<le> b \<and> b \<le> 102 then Some (b - 87)
      else if 65 \<le> b \<and> b \<le> 70 then Some (b - 55) else None)"

text \<open>The hex digits at the front of a string: how many and their value. More than four is an error.\<close>

fun hex_group :: "string \<Rightarrow> nat \<Rightarrow> nat \<Rightarrow> (nat \<times> nat) option" where
  "hex_group [] off acc = Some (off, acc)"
| "hex_group (c # cs) off acc =
     (case hex_val c of
        None \<Rightarrow> Some (off, acc)
      | Some d \<Rightarrow> if 3 < off then None else hex_group cs (Suc off) (acc * 16 + d))"

definition expand_ellipsis :: "ip \<Rightarrow> nat option \<Rightarrow> ip option" where
  "expand_ellipsis bs ell =
     (if length bs < 16
      then (case ell of None \<Rightarrow> None
            | Some e \<Rightarrow> Some (take e bs @ replicate (16 - length bs) 0 @ drop e bs))
      else (case ell of None \<Rightarrow> Some bs | Some _ \<Rightarrow> None))"

text \<open>\<^verbatim>\<open>netip.parseIPv6\<close>: the loop over the colon-separated groups; at most eight of them.\<close>

fun parse_v6_loop :: "nat \<Rightarrow> string \<Rightarrow> ip \<Rightarrow> nat option \<Rightarrow> ip option" where
  "parse_v6_loop 0 s bs ell = (if s = [] then expand_ellipsis bs ell else None)"
| "parse_v6_loop (Suc groups) s bs ell =
     (case hex_group s 0 0 of
        None \<Rightarrow> None
      | Some (off, acc) \<Rightarrow>
          if off = 0 then None
          else if off < length s \<and> s ! off = CHR ''.'' then
            (if ell = None \<and> length bs \<noteq> 12 then None
             else if 16 < length bs + 4 then None
             else case parse_v4 s of None \<Rightarrow> None
                  | Some v4 \<Rightarrow> expand_ellipsis (bs @ v4) ell)
          else
            (let bs' = bs @ [of_nat (acc div 256), of_nat (acc mod 256)]; s' = drop off s in
             if s' = [] then expand_ellipsis bs' ell
             else if hd s' \<noteq> CHR '':'' \<or> length s' = 1 then None
             else
               (let s'' = tl s' in
                if hd s'' = CHR '':'' then
                  (if ell \<noteq> None then None
                   else if tl s'' = [] then expand_ellipsis bs' (Some (length bs'))
                   else parse_v6_loop groups (tl s'') bs' (Some (length bs')))
                else parse_v6_loop groups s'' bs' ell)))"

definition parse_v6 :: "string \<Rightarrow> ip option" where
  "parse_v6 s =
     (if CHR ''%'' \<in> set s then None
      else if HasPrefix s ''::'' then
        (if s = ''::'' then Some (replicate 16 0) else parse_v6_loop 8 (drop 2 s) [] (Some 0))
      else parse_v6_loop 8 s [] None)"

text \<open>
  \<^verbatim>\<open>netip.ParseAddr\<close> for addresses without a zone (both callers refuse a zone): the first of \<open>.\<close>, \<open>:\<close> and
  \<open>%\<close> decides the family.
\<close>

definition ParseAddr :: "string \<Rightarrow> ip option" where
  "ParseAddr s =
     (case find (\<lambda>c. c = CHR ''.'' \<or> c = CHR '':'' \<or> c = CHR ''%'') s of
        None \<Rightarrow> None
      | Some c \<Rightarrow> if c = CHR ''.'' then parse_v4 s else if c = CHR '':'' then parse_v6 s else None)"

definition as16 :: "ip \<Rightarrow> ip" where
  "as16 a = (if length a = 4 then v4_in_v6_prefix @ a else a)"

definition ParseIP :: "string \<Rightarrow> ip option" where
  "ParseIP s = map_option as16 (ParseAddr s)"

definition To4 :: "ip \<Rightarrow> ip option" where
  "To4 a = (if length a = 4 then Some a
            else if length a = 16 \<and> take 12 a = v4_in_v6_prefix then Some (drop 12 a) else None)"

definition ip_equal :: "ip \<Rightarrow> ip \<Rightarrow> bool" where
  "ip_equal a b =
     (if length a = length b then a = b
      else if length a = 4 \<and> length b = 16 then take 12 b = v4_in_v6_prefix \<and> a = drop 12 b
      else if length a = 16 \<and> length b = 4 then take 12 a = v4_in_v6_prefix \<and> drop 12 a = b
      else False)"

record ip_net =
  net_ip :: ip
  net_mask :: "byte8 list"

text \<open>\<^verbatim>\<open>CIDRMask(ones, bits)\<close>: byte \<open>i\<close> of the mask.\<close>

definition mask_byte :: "nat \<Rightarrow> nat \<Rightarrow> byte8" where
  "mask_byte ones i =
     (if 8 * i + 8 \<le> ones then 255 else if ones \<le> 8 * i then 0
      else NOT (mask (8 - (ones - 8 * i))))"

definition CIDRMask :: "nat \<Rightarrow> nat \<Rightarrow> byte8 list" where
  "CIDRMask ones bits = map (mask_byte ones) [0..<bits div 8]"

definition and_bytes :: "byte8 list \<Rightarrow> byte8 list \<Rightarrow> byte8 list" where
  "and_bytes a m = map2 (AND) a m"

definition big_dtoi :: nat where "big_dtoi = 0xFFFFFF"

definition dtoi :: "string \<Rightarrow> nat option" where
  "dtoi s = (if s = [] \<or> \<not> list_all is_digit s \<or> big_dtoi \<le> digits_val s then None
             else Some (digits_val s))"

definition ParseCIDR :: "string \<Rightarrow> ip_net option" where
  "ParseCIDR s =
     (case index_byte (CHR ''/'') s of
        None \<Rightarrow> None
      | Some i \<Rightarrow>
          (case ParseAddr (take i s) of
             None \<Rightarrow> None
           | Some a \<Rightarrow>
               (case dtoi (drop (Suc i) s) of
                  None \<Rightarrow> None
                | Some n \<Rightarrow>
                    if 8 * length a < n then None
                    else let m = CIDRMask n (8 * length a)
                         in Some \<lparr>net_ip = and_bytes a m, net_mask = m\<rparr>)))"

definition network_number_and_mask :: "ip_net \<Rightarrow> (ip \<times> byte8 list) option" where
  "network_number_and_mask n =
     (let addr = (case To4 (net_ip n) of Some a \<Rightarrow> a | None \<Rightarrow> net_ip n); m = net_mask n in
      if length addr \<noteq> 4 \<and> length addr \<noteq> 16 then None
      else if length m = 4 then (if length addr = 4 then Some (addr, m) else None)
      else if length m = 16 then (if length addr = 4 then Some (addr, drop 12 m) else Some (addr, m))
      else None)"

definition net_contains :: "ip_net \<Rightarrow> ip \<Rightarrow> bool" where
  "net_contains n addr =
     (case network_number_and_mask n of
        None \<Rightarrow> addr = []
      | Some (nn, m) \<Rightarrow>
          let x = (case To4 addr of Some a \<Rightarrow> a | None \<Rightarrow> addr)
          in length x = length nn \<and> and_bytes nn m = and_bytes x m)"

subsection \<open>What the parsers return\<close>

lemma parse_v4_loop_length: "parse_v4_loop s v d fs = Some a \<Longrightarrow> length fs \<le> 3 \<Longrightarrow> length a = 4"
  by (induction s v d fs rule: parse_v4_loop.induct) (auto split: if_splits)

lemma parse_v4_length: "parse_v4 s = Some a \<Longrightarrow> length a = 4"
  by (simp add: parse_v4_def parse_v4_loop_length)

lemma expand_ellipsis_length:
  "expand_ellipsis bs ell = Some a \<Longrightarrow> length bs \<le> 16 \<Longrightarrow> (\<And>e. ell = Some e \<Longrightarrow> e \<le> length bs)
    \<Longrightarrow> length a = 16"
  by (auto simp: expand_ellipsis_def split: if_splits option.splits)

lemma parse_v6_loop_length:
  "parse_v6_loop g s bs ell = Some a \<Longrightarrow> length bs = 16 - 2 * g \<Longrightarrow> g \<le> 8 \<Longrightarrow>
    (\<And>e. ell = Some e \<Longrightarrow> e \<le> length bs) \<Longrightarrow> length a = 16"
proof (induction g s bs ell rule: parse_v6_loop.induct)
  case (1 s bs ell)
  then show ?case by (auto intro: expand_ellipsis_length split: if_splits)
next
  case (2 g s bs ell)
  obtain off acc where hg: "hex_group s 0 0 = Some (off, acc)"
    using "2.prems"(1) by (auto split: option.splits)
  let ?bs' = "bs @ [of_nat (acc div 256), of_nat (acc mod 256)] :: ip"
  have len: "length ?bs' = 16 - 2 * g" "length ?bs' \<le> 16" using "2.prems"(2,3) by auto
  have le: "ell = Some e \<Longrightarrow> e \<le> length ?bs'" for e using "2.prems"(4)[of e] by simp
  consider
      (v4) v4 where "parse_v4 s = Some v4" "length bs + 4 \<le> 16" "expand_ellipsis (bs @ v4) ell = Some a"
    | (done_) "expand_ellipsis ?bs' ell = Some a"
    | (ell) "expand_ellipsis ?bs' (Some (length ?bs')) = Some a"
    | (rec_ell) "off \<noteq> 0" "\<not> (off < length s \<and> s ! off = CHR ''.'')" "drop off s \<noteq> []"
        "\<not> (hd (drop off s) \<noteq> CHR '':'' \<or> length (drop off s) = 1)"
        "hd (tl (drop off s)) = CHR '':''" "\<not> ell \<noteq> None" "tl (tl (drop off s)) \<noteq> []"
        "parse_v6_loop g (tl (tl (drop off s))) ?bs' (Some (length ?bs')) = Some a"
    | (rec_next) "off \<noteq> 0" "\<not> (off < length s \<and> s ! off = CHR ''.'')" "drop off s \<noteq> []"
        "\<not> (hd (drop off s) \<noteq> CHR '':'' \<or> length (drop off s) = 1)"
        "hd (tl (drop off s)) \<noteq> CHR '':''" "parse_v6_loop g (tl (drop off s)) ?bs' ell = Some a"
    using "2.prems"(1) hg by (auto simp: Let_def split: if_splits option.splits)
  then show ?case
  proof cases
    case v4
    then show ?thesis using "2.prems"(4)
      by (intro expand_ellipsis_length[OF v4(3)]) (auto dest: parse_v4_length)
  next
    case done_
    then show ?thesis using len(2) le by (rule expand_ellipsis_length)
  next
    case ell
    then show ?thesis using len(2) by (rule expand_ellipsis_length) simp
  next
    case rec_ell
    then show ?thesis using "2.IH"(1)[OF hg refl rec_ell(1,2) refl refl rec_ell(3,4) refl rec_ell(5,6,7,8)]
        len(1) "2.prems"(3) by simp
  next
    case rec_next
    then show ?thesis using "2.IH"(2)[OF hg refl rec_next(1,2) refl refl rec_next(3,4) refl rec_next(5,6)]
        len(1) "2.prems"(3) le by simp
  qed
qed

lemma ParseAddr_length: "ParseAddr s = Some a \<Longrightarrow> length a = 4 \<or> length a = 16"
proof -
  assume a: "ParseAddr s = Some a"
  have "parse_v6 s = Some a \<Longrightarrow> length a = 16"
    by (auto simp: parse_v6_def split: if_splits intro: parse_v6_loop_length)
  with a show ?thesis
    by (auto simp: ParseAddr_def dest: parse_v4_length split: option.splits if_splits)
qed

lemma ParseIP_length: "ParseIP s = Some a \<Longrightarrow> length a = 16"
  by (auto simp: ParseIP_def as16_def v4_in_v6_prefix_def dest!: ParseAddr_length)

subsection \<open>Containment is agreement on the network bits\<close>

text \<open>Bit \<open>k\<close> of an address, counted from its most significant end.\<close>

definition ip_bit :: "ip \<Rightarrow> nat \<Rightarrow> bool" where
  "ip_bit a k = bit (a ! (k div 8)) (7 - k mod 8)"

lemma bit_mask_byte: "k < 8 \<Longrightarrow> bit (mask_byte ones i) (7 - k) \<longleftrightarrow> 8 * i + k < ones"
proof -
  assume k: "k < 8"
  have all1: "bit (255 :: byte8) j" if "j < 8" for j
  proof -
    have "(255 :: byte8) = mask 8" by (simp add: mask_eq_exp_minus_1)
    then show ?thesis using that by (simp only: bit_mask_iff) simp
  qed
  show ?thesis using k all1[of "7 - k"]
    by (auto simp: mask_byte_def bit_not_iff bit_mask_iff)
qed

lemma and_bytes_nth: "i < length a \<Longrightarrow> i < length m \<Longrightarrow> and_bytes a m ! i = a ! i AND m ! i"
  by (simp add: and_bytes_def)

lemma length_and_bytes [simp]: "length (and_bytes a m) = min (length a) (length m)"
  by (simp add: and_bytes_def)

lemma length_CIDRMask [simp]: "length (CIDRMask n (8 * l)) = l"
  by (simp add: CIDRMask_def)

lemma CIDRMask_nth [simp]: "i < l \<Longrightarrow> CIDRMask n (8 * l) ! i = mask_byte n i"
  by (simp add: CIDRMask_def)

lemma byte_eq_by_bits:
  "(x :: byte8) = y \<longleftrightarrow> (\<forall>k < 8. bit x (7 - k) = bit y (7 - k))"
proof
  assume r: "\<forall>k < 8. bit x (7 - k) = bit y (7 - k)"
  show "x = y"
  proof (rule bit_word_eqI)
    fix n assume "n < LENGTH(8)"
    then have "7 - (7 - n) = n" "7 - n < 8" by auto
    with r show "bit x n = bit y n" by metis
  qed
qed simp

lemma masked_byte_eq:
  "(x AND mask_byte n i = y AND mask_byte n i) \<longleftrightarrow>
     (\<forall>k < 8. 8 * i + k < n \<longrightarrow> bit x (7 - k) = bit y (7 - k))"
  by (subst byte_eq_by_bits) (auto simp: bit_and_iff bit_mask_byte)

lemma masked_eq_iff_bits:
  assumes "length a = l" "length b = l" "n \<le> 8 * l"
  shows "and_bytes a (CIDRMask n (8 * l)) = and_bytes b (CIDRMask n (8 * l)) \<longleftrightarrow>
           (\<forall>k < n. ip_bit a k = ip_bit b k)"
proof -
  have "and_bytes a (CIDRMask n (8 * l)) = and_bytes b (CIDRMask n (8 * l)) \<longleftrightarrow>
          (\<forall>i < l. a ! i AND mask_byte n i = b ! i AND mask_byte n i)"
    using assms by (simp add: list_eq_iff_nth_eq and_bytes_nth)
  also have "\<dots> \<longleftrightarrow> (\<forall>i < l. \<forall>k < 8. 8 * i + k < n \<longrightarrow> bit (a ! i) (7 - k) = bit (b ! i) (7 - k))"
    by (simp add: masked_byte_eq)
  also have "\<dots> \<longleftrightarrow> (\<forall>k < n. ip_bit a k = ip_bit b k)"
  proof
    assume r: "\<forall>i < l. \<forall>k < 8. 8 * i + k < n \<longrightarrow> bit (a ! i) (7 - k) = bit (b ! i) (7 - k)"
    have "ip_bit a k = ip_bit b k" if k: "k < n" for k
    proof -
      have "k div 8 < l" "k mod 8 < 8" "8 * (k div 8) + k mod 8 < n" using k assms(3) by auto
      with r show ?thesis by (simp add: ip_bit_def)
    qed
    then show "\<forall>k < n. ip_bit a k = ip_bit b k" by blast
  next
    assume r: "\<forall>k < n. ip_bit a k = ip_bit b k"
    have "bit (a ! i) (7 - k) = bit (b ! i) (7 - k)" if "k < 8" "8 * i + k < n" for i k
      using r[rule_format, OF that(2)] that(1) by (simp add: ip_bit_def)
    then show "\<forall>i < l. \<forall>k < 8. 8 * i + k < n \<longrightarrow> bit (a ! i) (7 - k) = bit (b ! i) (7 - k)"
      by blast
  qed
  finally show ?thesis .
qed

lemma and_bytes_absorb [simp]: "length a = length m \<Longrightarrow> and_bytes (and_bytes a m) m = and_bytes a m"
  by (rule nth_equalityI) (auto simp: and_bytes_def)

text \<open>An IPv4 network contains an address exactly when the address is IPv4 and agrees on the prefix.\<close>

lemma net_contains_v4:
  assumes a: "length a = 4" and n: "n \<le> 32"
  shows "net_contains \<lparr>net_ip = and_bytes a (CIDRMask n 32), net_mask = CIDRMask n 32\<rparr> x
           \<longleftrightarrow> (\<exists>x4. To4 x = Some x4 \<and> (\<forall>k < n. ip_bit a k = ip_bit x4 k))"
proof -
  let ?m = "CIDRMask n 32"
  have m: "length ?m = 4" using length_CIDRMask[of n 4] by simp
  have nn: "network_number_and_mask \<lparr>net_ip = and_bytes a ?m, net_mask = ?m\<rparr>
              = Some (and_bytes a ?m, ?m)"
    using a m by (simp add: network_number_and_mask_def To4_def Let_def)
  have To4_len: "To4 x = Some x4 \<Longrightarrow> length x4 = 4" for x4
    by (auto simp: To4_def split: if_splits)
  have None_len: "To4 x = None \<Longrightarrow> length x \<noteq> 4"
    by (auto simp: To4_def)
  show ?thesis
  proof (cases "To4 x")
    case None
    then show ?thesis using nn a m None_len by (simp add: net_contains_def)
  next
    case (Some x4)
    then have l: "length x4 = 4" by (rule To4_len)
    have "net_contains \<lparr>net_ip = and_bytes a ?m, net_mask = ?m\<rparr> x \<longleftrightarrow> and_bytes a ?m = and_bytes x4 ?m"
      using nn Some l a m by (simp add: net_contains_def)
    also have "\<dots> \<longleftrightarrow> (\<forall>k < n. ip_bit a k = ip_bit x4 k)"
      using masked_eq_iff_bits[of a 4 x4 n] a l n by simp
    finally show ?thesis using Some by simp
  qed
qed

end
