(* ===== verification/Rbac.thy ===== *)
theory Rbac
  imports Go_Net
begin

text \<open>
  Certificate enforcement, \<^verbatim>\<open>internal/proxyd/rbac/enforcer.go\<close>: the gates the session handler asks at
  request time, and the source-address restriction the server checks at handshake time. The lemmas
  show that permit extensions are default-deny, that the source-address option is default-allow, and
  that an option made of IPv4 networks admits exactly the addresses inside one of them.
\<close>

section \<open>Data\<close>

text \<open>\<^verbatim>\<open>gossh.Permissions\<close>; a nil Go map reads as the empty map.\<close>

record permissions =
  CriticalOptions :: "string \<rightharpoonup> string"
  Extensions :: "string \<rightharpoonup> string"

text \<open>\<^verbatim>\<open>net.Addr\<close>: its dynamic type, its \<^verbatim>\<open>IP\<close> field where it has one (\<^term>\<open>[]\<close> is nil) and \<^verbatim>\<open>String()\<close>.\<close>

datatype addr_kind = TCPAddr | UDPAddr | IPAddr | OtherAddr

record net_addr =
  addr_kind :: addr_kind
  addr_ip :: ip
  addr_string :: string

definition extPermitPTY :: string where "extPermitPTY = ''permit-pty''"
definition extPermitPortForwarding :: string where "extPermitPortForwarding = ''permit-port-forwarding''"
definition extPermitAgentForwarding :: string where "extPermitAgentForwarding = ''permit-agent-forwarding''"
definition extPermitX11Forwarding :: string where "extPermitX11Forwarding = ''permit-X11-forwarding''"
definition extPermitUserRC :: string where "extPermitUserRC = ''permit-user-rc''"
definition optSourceAddress :: string where "optSourceAddress = ''source-address''"
definition optForceCommand :: string where "optForceCommand = ''force-command''"

lemmas rbac_names = extPermitPTY_def extPermitPortForwarding_def extPermitAgentForwarding_def
  extPermitX11Forwarding_def extPermitUserRC_def optSourceAddress_def optForceCommand_def

text \<open>A \<^verbatim>\<open>*CertEnforcer\<close> (nil is \<^const>\<open>None\<close>) around a \<^verbatim>\<open>*gossh.Permissions\<close>.\<close>

record cert_enforcer =
  perms :: "permissions option"

definition new_enforcer :: "permissions option \<Rightarrow> cert_enforcer option" where
  "new_enforcer p = Some \<lparr>perms = p\<rparr>"

definition enforcer_perms :: "cert_enforcer option \<Rightarrow> permissions option" where
  "enforcer_perms e = (case e of None \<Rightarrow> None | Some c \<Rightarrow> perms c)"

lemma enforcer_perms_new [simp]: "enforcer_perms (new_enforcer p) = p"
  by (simp add: new_enforcer_def enforcer_perms_def)

section \<open>Gates\<close>

definition hasExtension :: "cert_enforcer option \<Rightarrow> string \<Rightarrow> bool" where
  "hasExtension e name =
     (case enforcer_perms e of None \<Rightarrow> False | Some p \<Rightarrow> Extensions p name \<noteq> None)"

definition PermitsPTY :: "cert_enforcer option \<Rightarrow> bool" where
  "PermitsPTY e = hasExtension e extPermitPTY"

definition PermitsPortForwarding :: "cert_enforcer option \<Rightarrow> bool" where
  "PermitsPortForwarding e = hasExtension e extPermitPortForwarding"

definition PermitsAgentForwarding :: "cert_enforcer option \<Rightarrow> bool" where
  "PermitsAgentForwarding e = hasExtension e extPermitAgentForwarding"

definition PermitsX11Forwarding :: "cert_enforcer option \<Rightarrow> bool" where
  "PermitsX11Forwarding e = hasExtension e extPermitX11Forwarding"

definition PermitsUserRC :: "cert_enforcer option \<Rightarrow> bool" where
  "PermitsUserRC e = hasExtension e extPermitUserRC"

lemmas permits_defs = PermitsPTY_def PermitsPortForwarding_def PermitsAgentForwarding_def
  PermitsX11Forwarding_def PermitsUserRC_def

definition ForceCommand :: "cert_enforcer option \<Rightarrow> string" where
  "ForceCommand e =
     (case enforcer_perms e of None \<Rightarrow> [] | Some p \<Rightarrow>
        (case CriticalOptions p optForceCommand of None \<Rightarrow> [] | Some c \<Rightarrow> c))"

definition remoteIP :: "net_addr option \<Rightarrow> ip" where
  "remoteIP addr =
     (case addr of None \<Rightarrow> []
      | Some a \<Rightarrow>
          if addr_kind a = OtherAddr then
            (let host = (case SplitHostPort (addr_string a) of Inl _ \<Rightarrow> addr_string a
                         | Inr (h, _) \<Rightarrow> h)
             in case ParseIP host of None \<Rightarrow> [] | Some p \<Rightarrow> p)
          else addr_ip a)"

definition matchAddress :: "string \<Rightarrow> ip \<Rightarrow> bool" where
  "matchAddress entry addr =
     (if CHR ''/'' \<in> set entry then
        (case ParseCIDR entry of None \<Rightarrow> False | Some network \<Rightarrow> net_contains network addr)
      else (case ParseIP entry of None \<Rightarrow> False | Some p \<Rightarrow> ip_equal p addr))"

fun source_entries_ok :: "string list \<Rightarrow> ip \<Rightarrow> bool" where
  "source_entries_ok [] addr = False"
| "source_entries_ok (raw # rest) addr =
     (let entry = TrimSpace raw in
      if entry = [] then source_entries_ok rest addr
      else if matchAddress entry addr then True
      else source_entries_ok rest addr)"

definition SourceAddressOK :: "cert_enforcer option \<Rightarrow> net_addr option \<Rightarrow> bool" where
  "SourceAddressOK e remote =
     (case enforcer_perms e of None \<Rightarrow> True
      | Some p \<Rightarrow>
          (case CriticalOptions p optSourceAddress of
             None \<Rightarrow> True
           | Some raw \<Rightarrow>
               if raw = [] then True
               else if remoteIP remote = [] then False
               else source_entries_ok (split_on (CHR '','') raw) (remoteIP remote)))"

section \<open>Lemmas\<close>

lemma hasExtension_new [simp]:
  "hasExtension (new_enforcer (Some p)) name \<longleftrightarrow> name \<in> dom (Extensions p)"
  by (auto simp: hasExtension_def)

lemma source_entries_ok_iff:
  "source_entries_ok es addr \<longleftrightarrow>
     (\<exists>raw \<in> set es. TrimSpace raw \<noteq> [] \<and> matchAddress (TrimSpace raw) addr)"
  by (induction es) (auto simp: Let_def)

subsection \<open>Printed IPv4 networks\<close>

definition fmt_v4 :: "ip \<Rightarrow> string" where
  "fmt_v4 a = join_with ''.'' (map (\<lambda>b. digits (unat b)) a)"

definition fmt_cidr :: "ip \<times> nat \<Rightarrow> string" where
  "fmt_cidr net = fmt_v4 (fst net) @ ''/'' @ digits (snd net)"

definition v4_network :: "ip \<times> nat \<Rightarrow> bool" where
  "v4_network net \<longleftrightarrow> length (fst net) = 4 \<and> snd net \<le> 32"

definition in_v4_network :: "ip \<times> nat \<Rightarrow> ip \<Rightarrow> bool" where
  "in_v4_network net addr \<longleftrightarrow>
     (case To4 addr of None \<Rightarrow> False
      | Some x \<Rightarrow> \<forall>k < snd net. ip_bit (fst net) k = ip_bit x k)"

lemma digits_cases:
  assumes "n < 1000"
  shows "digits n = (if n < 10 then [char_of (48 + n)]
           else if n < 100 then [char_of (48 + n div 10), char_of (48 + n mod 10)]
           else [char_of (48 + n div 100), char_of (48 + n div 10 mod 10), char_of (48 + n mod 10)])"
proof -
  have d: "n div 10 div 10 = n div 100" by (simp add: div_mult2_eq[symmetric])
  consider "n < 10" | "10 \<le> n" "n < 100" | "100 \<le> n" by linarith
  then show ?thesis
  proof cases
    case 2
    then have "n div 10 < 10" by simp
    with 2 show ?thesis by (simp add: digits.simps[of n] digits.simps[of "n div 10"])
  next
    case 3
    then have "\<not> n div 10 < 10" "n div 100 < 10" using assms by simp_all
    with 3 d show ?thesis
      by (simp add: digits.simps[of n] digits.simps[of "n div 10"] digits.simps[of "n div 100"])
  qed (simp add: digits.simps[of n])
qed

lemma parse_v4_octet:
  assumes "n < 256"
  shows "\<exists>dl. 0 < dl \<and> parse_v4_loop (digits n @ rest) 0 0 fs = parse_v4_loop rest n dl fs"
proof -
  have dig: "is_digit (char_of (48 + m)) \<and> digit_val (char_of (48 + m)) = m" if "m < 10" for m :: nat
    using digit_char[OF that] .
  have m10: "n mod 10 < 10" "n div 10 mod 10 < 10" by simp_all
  consider "n < 10" | "10 \<le> n" "n < 100" | "100 \<le> n" by linarith
  then show ?thesis
  proof cases
    case 1
    then show ?thesis using dig[OF 1] assms by (intro exI[of _ 1]) (simp add: digits_cases)
  next
    case 2
    then have q: "n div 10 < 10" "n div 10 \<noteq> 0" "n div 10 * 10 + n mod 10 = n" by auto
    have "digits n = [char_of (48 + n div 10), char_of (48 + n mod 10)]"
      using 2 by (simp add: digits_cases)
    then show ?thesis using dig[OF q(1)] dig[OF m10(1)] assms q
      by (intro exI[of _ 2]) (simp add: numeral_2_eq_2)
  next
    case 3
    then have q: "n div 100 < 10" "n div 100 \<noteq> 0" using assms by auto
    have e: "n div 100 * 10 + n div 10 mod 10 = n div 10" "n div 10 * 10 + n mod 10 = n"
      by (simp_all add: div_mult2_eq[of n 10 10, simplified])
    have lt: "n div 10 \<le> 255" using assms by simp
    have "digits n = [char_of (48 + n div 100), char_of (48 + n div 10 mod 10), char_of (48 + n mod 10)]"
      using 3 assms by (simp add: digits_cases)
    then show ?thesis using dig[OF q(1)] dig[OF m10(1)] dig[OF m10(2)] assms e lt q
      by (intro exI[of _ 3]) (simp add: numeral_3_eq_3)
  qed
qed

lemma parse_v4_dot:
  "0 < dl \<Longrightarrow> rest \<noteq> [] \<Longrightarrow> length fs < 3 \<Longrightarrow>
    parse_v4_loop (CHR ''.'' # rest) n dl fs = parse_v4_loop rest 0 0 (fs @ [of_nat n])"
  by (simp add: is_digit_def)

lemma parse_v4_octet_dot:
  assumes "n < 256" "rest \<noteq> []" "length fs < 3"
  shows "parse_v4_loop (digits n @ CHR ''.'' # rest) 0 0 fs = parse_v4_loop rest 0 0 (fs @ [of_nat n])"
  using parse_v4_octet[OF assms(1), of "CHR ''.'' # rest" fs] parse_v4_dot[OF _ assms(2,3)] by metis

lemma parse_v4_octet_end:
  assumes "n < 256" "length fs = 3"
  shows "parse_v4_loop (digits n) 0 0 fs = Some (fs @ [of_nat n])"
  using parse_v4_octet[OF assms(1), of "[]" fs] assms(2) by auto

lemma list_of_length_4: "length a = 4 \<Longrightarrow> \<exists>w x y z. a = [w, x, y, z]"
  by (auto simp: length_Suc_conv numeral_eq_Suc)

lemma parse_fmt_v4: "length a = 4 \<Longrightarrow> parse_v4 (fmt_v4 a) = Some a"
proof -
  assume "length a = 4"
  then obtain w x y z where a: "a = [w, x, y, z]" using list_of_length_4 by blast
  have lt: "unat (b :: byte8) < 256" for b using unsigned_less[of b, where ?'a = nat] by simp
  show ?thesis
    by (simp add: a parse_v4_def fmt_v4_def parse_v4_octet_dot parse_v4_octet_end lt)
qed

lemma set_fmt_v4: "c \<in> set (fmt_v4 a) \<Longrightarrow> is_digit c \<or> c = CHR ''.''"
proof -
  have "c \<in> set (join_with ''.'' ps) \<Longrightarrow> (\<exists>p \<in> set ps. c \<in> set p) \<or> c = CHR ''.''" for ps
    by (induction "''.''" ps rule: join_with.induct) auto
  then show "c \<in> set (fmt_v4 a) \<Longrightarrow> ?thesis" by (fastforce simp: fmt_v4_def dest: set_digits)
qed

lemma ParseAddr_fmt_v4: "length a = 4 \<Longrightarrow> ParseAddr (fmt_v4 a) = Some a"
proof -
  assume a: "length a = 4"
  let ?P = "\<lambda>c. c = CHR ''.'' \<or> c = CHR '':'' \<or> c = CHR ''%''"
  have dot: "CHR ''.'' \<in> set (fmt_v4 a)"
    using list_of_length_4[OF a] by (auto simp: fmt_v4_def)
  then obtain c where c: "find ?P (fmt_v4 a) = Some c"
    by (cases "find ?P (fmt_v4 a)") (auto simp: find_None_iff)
  then have "?P c" "c \<in> set (fmt_v4 a)" by (auto dest: find_Some_member)
  then have "c = CHR ''.''" using set_fmt_v4[of c a] by (auto simp: is_digit_def)
  with c a show ?thesis by (simp add: ParseAddr_def parse_fmt_v4)
qed

lemma ParseCIDR_fmt_cidr:
  assumes "v4_network net"
  shows "ParseCIDR (fmt_cidr net) =
    Some \<lparr>net_ip = and_bytes (fst net) (CIDRMask (snd net) 32), net_mask = CIDRMask (snd net) 32\<rparr>"
proof -
  have a: "length (fst net) = 4" and n: "snd net \<le> 32" using assms by (auto simp: v4_network_def)
  have "CHR ''/'' \<notin> set (fmt_v4 (fst net))" using set_fmt_v4 by (fastforce simp: is_digit_def)
  then have i: "index_byte (CHR ''/'') (fmt_cidr net) = Some (length (fmt_v4 (fst net)))"
    by (simp add: fmt_cidr_def index_byte_append)
  have "list_all is_digit (digits (snd net))" by (auto simp: list_all_iff set_digits)
  then have d: "dtoi (digits (snd net)) = Some (snd net)" using n by (simp add: dtoi_def big_dtoi_def)
  show ?thesis
    using i d n a by (simp add: ParseCIDR_def fmt_cidr_def ParseAddr_fmt_v4 Let_def)
qed

lemma matchAddress_fmt_cidr:
  assumes "v4_network net"
  shows "matchAddress (fmt_cidr net) addr = in_v4_network net addr"
proof -
  have "CHR ''/'' \<in> set (fmt_cidr net)" by (simp add: fmt_cidr_def)
  then show ?thesis
    using ParseCIDR_fmt_cidr[OF assms] net_contains_v4[of "fst net" "snd net" addr] assms
    by (auto simp: matchAddress_def in_v4_network_def v4_network_def split: option.splits)
qed

lemma set_fmt_cidr: "c \<in> set (fmt_cidr net) \<Longrightarrow> is_digit c \<or> c = CHR ''.'' \<or> c = CHR ''/''"
  using set_fmt_v4 set_digits by (fastforce simp: fmt_cidr_def)

lemma fmt_cidr_not_Nil [simp]: "fmt_cidr net \<noteq> []"
  by (simp add: fmt_cidr_def)

text \<open>Bytes that occur in no white space encoding.\<close>

lemma TrimSpace_no_space:
  assumes "\<And>c. c \<in> set s \<Longrightarrow> 32 < byte_val c \<and> byte_val c < 128"
  shows "TrimSpace s = s"
proof (rule TrimSpace_id)
  have first: "p \<in> set space_seqs \<Longrightarrow> (\<exists>c \<in> set p. \<not> (32 < byte_val c \<and> byte_val c < 128))" for p
    by (auto simp: space_seqs_def)
  have "\<not> HasPrefix s p \<and> \<not> HasPrefix (rev s) (rev p)" if "p \<in> set space_seqs" for p
  proof -
    obtain c where c: "c \<in> set p" "\<not> (32 < byte_val c \<and> byte_val c < 128)"
      using first[OF \<open>p \<in> set space_seqs\<close>] by blast
    have "c \<notin> set s" using assms c(2) by blast
    moreover have "HasPrefix t q \<Longrightarrow> set q \<subseteq> set t" for t q
      by (auto simp: HasPrefix_iff)
    ultimately show ?thesis using c(1) by (metis set_rev subsetD)
  qed
  then show "space_free_ends s" by (simp add: space_free_ends_def)
qed

lemma TrimSpace_fmt_cidr: "TrimSpace (fmt_cidr net) = fmt_cidr net"
  by (rule TrimSpace_no_space) (auto dest!: set_fmt_cidr simp: is_digit_def)

lemma source_address_networks:
  assumes opt: "CriticalOptions p optSourceAddress = Some (join_with '','' (map fmt_cidr nets))"
    and nets: "nets \<noteq> []" "\<And>net. net \<in> set nets \<Longrightarrow> v4_network net"
  shows "SourceAddressOK (new_enforcer (Some p)) remote \<longleftrightarrow>
           remoteIP remote \<noteq> [] \<and> (\<exists>net \<in> set nets. in_v4_network net (remoteIP remote))"
proof -
  let ?raw = "join_with '','' (map fmt_cidr nets)"
  have "CHR '','' \<notin> set (fmt_cidr net)" for net
    using set_fmt_cidr by (fastforce simp: is_digit_def)
  then have split: "split_on (CHR '','') ?raw = map fmt_cidr nets"
    using nets(1) by (intro split_join_with) auto
  have raw: "?raw \<noteq> []"
    using split nets(1) by (cases nets) (auto simp: fmt_cidr_def)
  have "source_entries_ok (map fmt_cidr nets) addr \<longleftrightarrow> (\<exists>net \<in> set nets. in_v4_network net addr)" for addr
    using nets(2) by (auto simp: source_entries_ok_iff TrimSpace_fmt_cidr matchAddress_fmt_cidr)
  with split raw opt show ?thesis by (simp add: SourceAddressOK_def)
qed

section \<open>Properties\<close>

text \<open>
  C1. A certificate whose source-address option lists IPv4 networks in CIDR notation is usable
  exactly from the addresses that agree with one of the networks on that network's prefix bits; an
  address that cannot be determined is refused.
\<close>

theorem SourceAddressOK_networks:
  assumes "CriticalOptions p optSourceAddress = Some (join_with '','' (map fmt_cidr nets))"
    and "nets \<noteq> []" and "\<And>net. net \<in> set nets \<Longrightarrow> v4_network net"
  shows "SourceAddressOK (new_enforcer (Some p)) remote \<longleftrightarrow>
           remoteIP remote \<noteq> [] \<and> (\<exists>net \<in> set nets. in_v4_network net (remoteIP remote))"
  using assms by (rule source_address_networks)

theorem SourceAddressOK_networks_witness:
  "SourceAddressOK
     (new_enforcer (Some \<lparr>CriticalOptions =
        Map.empty(optSourceAddress \<mapsto> join_with '','' (map fmt_cidr [([10, 0, 0, 0], 8)])),
        Extensions = Map.empty\<rparr>))
     (Some \<lparr>addr_kind = TCPAddr, addr_ip = [10, 9, 8, 7], addr_string = ''10.9.8.7:5000''\<rparr>)"
proof -
  have "in_v4_network ([10, 0, 0, 0], 8) [10, 9, 8, 7]"
    by (auto simp: in_v4_network_def To4_def ip_bit_def)
  then show ?thesis
    by (subst SourceAddressOK_networks [where nets = "[([10, 0, 0, 0], 8)]"])
      (simp_all add: v4_network_def remoteIP_def)
qed

text \<open>
  Default deny: with no permissions at all every permit gate refuses, and a gate opens exactly
  when its own extension is present, whatever its value.
\<close>

theorem permits_default_deny:
  "\<not> hasExtension (new_enforcer None) name \<and> \<not> hasExtension None name
   \<and> (hasExtension (new_enforcer (Some p)) name \<longleftrightarrow> name \<in> dom (Extensions p))
   \<and> (PermitsPTY (new_enforcer (Some p)) \<longleftrightarrow> ''permit-pty'' \<in> dom (Extensions p))
   \<and> (PermitsPortForwarding (new_enforcer (Some p)) \<longleftrightarrow> ''permit-port-forwarding'' \<in> dom (Extensions p))
   \<and> (PermitsAgentForwarding (new_enforcer (Some p)) \<longleftrightarrow> ''permit-agent-forwarding'' \<in> dom (Extensions p))
   \<and> (PermitsX11Forwarding (new_enforcer (Some p)) \<longleftrightarrow> ''permit-X11-forwarding'' \<in> dom (Extensions p))"
  by (simp only: permits_defs rbac_names hasExtension_new) (simp add: hasExtension_def enforcer_perms_def new_enforcer_def)

end
