(* ===== verification/Route_Dial.thy ===== *)
theory Route_Dial
  imports Go_Net
begin

text \<open>
  \<^verbatim>\<open>internal/proxyd/session/route.go\<close> and \<^verbatim>\<open>dial.go\<close>: the target encoded in the SSH username, and the outbound
  connection to it. A connection is its identity; the raw dial and the SSH client handshake
  (\<^verbatim>\<open>gossh.NewClientConn\<close>) are parameters. A transport acts on a state of its own: the tunnel registry's, in the
  server.
\<close>

section \<open>The target in the username\<close>

definition ParseTarget :: "string \<Rightarrow> (string \<times> string) result" where
  "ParseTarget sshUser =
     (case last_index_byte (CHR ''@'') sshUser of
        None \<Rightarrow> Inl (Msg ''ssh username must be \"<remote-user>@<target-host>\" (no \"@\" found)'')
      | Some at \<Rightarrow>
          let user = take at sshUser; host = drop (at + 1) sshUser in
          if user = [] then Inl (Msg ''ssh username has empty remote-user before \"@\"'')
          else if host = [] then Inl (Msg ''ssh username has empty target-host after \"@\"'')
          else Inr (user, host))"

lemma ParseTarget_Inr:
  "ParseTarget s = Inr (u, h) \<longleftrightarrow> s = u @ ''@'' @ h \<and> u \<noteq> [] \<and> h \<noteq> [] \<and> CHR ''@'' \<notin> set h"
proof
  assume p: "ParseTarget s = Inr (u, h)"
  then obtain i where i: "last_index_byte (CHR ''@'') s = Some i" by (auto simp: ParseTarget_def split: option.splits)
  have uh: "u = take i s" "h = drop (Suc i) s" "u \<noteq> []" "h \<noteq> []"
    using p i by (auto simp: ParseTarget_def Let_def split: if_splits)
  show "s = u @ ''@'' @ h \<and> u \<noteq> [] \<and> h \<noteq> [] \<and> CHR ''@'' \<notin> set h"
    using last_index_byte_Some[OF i] uh(3,4) unfolding uh(1,2) by simp
next
  assume "s = u @ ''@'' @ h \<and> u \<noteq> [] \<and> h \<noteq> [] \<and> CHR ''@'' \<notin> set h"
  then show "ParseTarget s = Inr (u, h)"
    using last_index_byte_append[of "CHR ''@''" h u] by (simp add: ParseTarget_def)
qed

section \<open>Dialling the target\<close>

type_synonym conn = nat
type_synonym signer = nat
type_synonym host_key_callback = nat
type_synonym 's transport = "duration \<Rightarrow> string \<Rightarrow> 's \<Rightarrow> conn result \<times> 's"

definition DefaultTargetPort :: string where "DefaultTargetPort = ''22''"
definition DefaultDialTimeout :: duration where "DefaultDialTimeout = 15 * second"

record 's dial_config =
  dcAddress :: string
  dcUser :: string
  dcSigner :: "signer option"
  dcHostKeyCallback :: "host_key_callback option"
  dcTimeout :: duration
  dcTransport :: "'s transport option"

record client_config =
  ccUser :: string
  ccAuth :: "signer list"
  ccHostKeyCallback :: host_key_callback
  ccTimeout :: duration

text \<open>A \<^verbatim>\<open>*gossh.Client\<close>: the connection it runs on, the address and the user it authenticated as.\<close>

record ssh_client =
  clConn :: conn
  clAddr :: string
  clUser :: string

definition dial_timeout :: "'s dial_config \<Rightarrow> duration" where
  "dial_timeout cfg = (if dcTimeout cfg = 0 then DefaultDialTimeout else dcTimeout cfg)"

definition dial_addr :: "string \<Rightarrow> string" where
  "dial_addr a = (case SplitHostPort a of Inl _ \<Rightarrow> JoinHostPort a DefaultTargetPort | Inr _ \<Rightarrow> a)"

text \<open>
  \<open>tcp\<close> is the default transport (\<^verbatim>\<open>net.Dialer.DialContext\<close>), \<open>handshake\<close> the SSH client handshake. The result
  comes with the connections \<^verbatim>\<open>DialTarget\<close> closed.
\<close>

definition DialTarget ::
  "'s transport \<Rightarrow> (conn \<Rightarrow> string \<Rightarrow> client_config \<Rightarrow> unit result) \<Rightarrow> 's dial_config \<Rightarrow> 's
    \<Rightarrow> ssh_client result \<times> conn list \<times> 's" where
  "DialTarget tcp handshake cfg s =
     (if dcAddress cfg = [] then (Inl (Msg ''DialTarget: Address is required''), [], s)
      else if dcUser cfg = [] then (Inl (Msg ''DialTarget: User is required''), [], s)
      else case dcSigner cfg of
        None \<Rightarrow> (Inl (Msg ''DialTarget: Signer is required''), [], s)
      | Some sg \<Rightarrow> (case dcHostKeyCallback cfg of
        None \<Rightarrow> (Inl (Msg ''DialTarget: HostKeyCallback is required''), [], s)
      | Some hk \<Rightarrow>
          let timeout = dial_timeout cfg;
              addr = dial_addr (dcAddress cfg);
              transport = (case dcTransport cfg of None \<Rightarrow> tcp | Some t \<Rightarrow> t)
          in case transport timeout addr s of
               (Inl e, s') \<Rightarrow> (Inl (Wrap (''dial '' @ addr) e), [], s')
             | (Inr conn, s') \<Rightarrow>
                 (case handshake conn addr \<lparr>ccUser = dcUser cfg, ccAuth = [sg], ccHostKeyCallback = hk, ccTimeout = timeout\<rparr> of
                    Inl e \<Rightarrow> (Inl (Wrap (''ssh handshake to '' @ addr) e), [conn], s')
                  | Inr _ \<Rightarrow> (Inr \<lparr>clConn = conn, clAddr = addr, clUser = dcUser cfg\<rparr>, [], s'))))"

lemma dial_addr_bare: "plain_host h \<Longrightarrow> dial_addr h = h @ '':22''"
  using SplitHostPort_bare[of h] by (auto simp: dial_addr_def DefaultTargetPort_def JoinHostPort_def plain_host_def)

lemma dial_addr_port: "plain_host h \<Longrightarrow> plain_host p \<Longrightarrow> dial_addr (h @ '':'' @ p) = h @ '':'' @ p"
  by (simp add: dial_addr_def SplitHostPort_plain)

text \<open>An address in brackets but without a port is bracketed a second time.\<close>

lemma dial_addr_brackets: "dial_addr ''[::1]'' = ''[[::1]]:22''"
  by code_simp

section \<open>Properties\<close>

text \<open>
  ParseTarget succeeds exactly on usernames user@host with a non-empty user and a non-empty host, and
  splits them at the last "@": the host never contains one, the user may.\<close>
theorem ParseTarget_exact:
  "ParseTarget s = Inr (u, h) \<longleftrightarrow> s = u @ ''@'' @ h \<and> u \<noteq> [] \<and> h \<noteq> [] \<and> CHR ''@'' \<notin> set h"
  by (rule ParseTarget_Inr)


definition demo_dial :: "unit dial_config" where
  "demo_dial = \<lparr>dcAddress = ''db-1'', dcUser = ''ops'', dcSigner = Some 1, dcHostKeyCallback = Some 2, dcTimeout = 0,
     dcTransport = Some (\<lambda>_ _ s. (Inr 7, s))\<rparr>"


end
