(* ===== verification/Proxier.thy ===== *)
theory Proxier
  imports Session_Audit Rbac Route_Dial
begin

text \<open>
  \<^verbatim>\<open>internal/proxyd/session/proxy.go\<close>: one proxied channel, from the gate on its type to the deferred
  bookkeeping. The peers are parameters: what the target answers to \<^verbatim>\<open>OpenChannel\<close> and to each request, what
  the user side answers to \<^verbatim>\<open>Accept\<close>, and the traffic, an arbitrary interleaving of data and requests in
  both directions, one item per call of the four copy loops.
\<close>

section \<open>Configuration\<close>

record proxier =
  pxRbac :: "cert_enforcer option"
  pxSink :: "rec_sink option"
  pxUser :: string
  pxHost :: string
  pxAudit :: "audit_sink option"
  pxSessionID :: string
  pxAttr :: recording_audit_attr

record proxier_config =
  cfgEnforcer :: "cert_enforcer option"
  cfgSink :: "rec_sink option"
  cfgUser :: string
  cfgHost :: string
  cfgAudit :: "audit_sink option"
  cfgSessionID :: string
  cfgAuditAttr :: recording_audit_attr

definition permissivePerms :: permissions where
  "permissivePerms = \<lparr>CriticalOptions = Map.empty,
     Extensions = [extPermitPTY \<mapsto> [], extPermitPortForwarding \<mapsto> [], extPermitAgentForwarding \<mapsto> [],
                   extPermitX11Forwarding \<mapsto> [], extPermitUserRC \<mapsto> []]\<rparr>"

definition NewProxier :: "proxier_config \<Rightarrow> proxier" where
  "NewProxier cfg =
     \<lparr>pxRbac = (case cfgEnforcer cfg of None \<Rightarrow> new_enforcer (Some permissivePerms) | Some e \<Rightarrow> Some e),
      pxSink = cfgSink cfg, pxUser = cfgUser cfg, pxHost = cfgHost cfg, pxAudit = cfgAudit cfg,
      pxSessionID = cfgSessionID cfg, pxAttr = cfgAuditAttr cfg\<rparr>"

section \<open>Requests\<close>

definition permitsRequest :: "proxier \<Rightarrow> string \<Rightarrow> bool" where
  "permitsRequest p reqType =
     (if reqType = ''pty-req'' then PermitsPTY (pxRbac p)
      else if reqType = ''x11-req'' then PermitsX11Forwarding (pxRbac p)
      else if reqType = ''auth-agent-req@openssh.com'' then PermitsAgentForwarding (pxRbac p)
      else True)"

definition parsePTYReq :: "wire_lib \<Rightarrow> string \<Rightarrow> (int \<times> int) result" where
  "parsePTYReq lib payload =
     (case unmarshal_pty lib payload of
        Inl e \<Rightarrow> Inl (Wrap ''unmarshal pty-req'' e)
      | Inr p \<Rightarrow>
          let cols = uint (Cols p); rows = uint (Rows p)
          in Inr (if cols \<le> 0 then 80 else cols, if rows \<le> 0 then 24 else rows))"

text \<open>\<^verbatim>\<open>binary.BigEndian.Uint32\<close>.\<close>

definition be32 :: "string \<Rightarrow> 32 word" where
  "be32 s = foldl (\<lambda>v c. push_bit 8 v + of_nat (byte_val c)) 0 (take 4 s)"

definition parseWindowChange :: "string \<Rightarrow> (int \<times> int) result" where
  "parseWindowChange payload =
     (if length payload < 8
      then Inl (Msg (''window-change payload too short: '' @ fmt_int (int (length payload)) @ '' bytes''))
      else
        let cols = be32 (take 4 payload); rows = be32 (take 4 (drop 4 payload)) in
        if cols = 0 \<or> rows = 0
        then Inl (Msg (''window-change has zero dimensions '' @ fmt_int (uint cols) @ ''x'' @ fmt_int (uint rows)))
        else Inr (uint cols, uint rows))"

text \<open>Errors while peeking are logged and dropped.\<close>

definition peek_request ::
  "wire_lib \<Rightarrow> ssh_request \<Rightarrow> channel_recorder option \<Rightarrow> world \<Rightarrow> channel_recorder option \<times> world" where
  "peek_request lib req rec w =
     (case rec of
        None \<Rightarrow> (None, w)
      | Some r \<Rightarrow>
          if ReqType req = ''pty-req'' then
            (case parsePTYReq lib (Payload req) of
               Inl _ \<Rightarrow> (Some r, w)
             | Inr (width, height) \<Rightarrow> (case StartIfNeeded width height r w of (_, r', w') \<Rightarrow> (Some r', w')))
          else if ReqType req = ''window-change'' then
            (case parseWindowChange (Payload req) of
               Inl _ \<Rightarrow> (Some r, w)
             | Inr (width, height) \<Rightarrow> (Some r, channel_Resize width height r w))
          else (Some r, w))"

record pipe =
  pipeRec :: "channel_recorder option"
  pipeCount :: counting_channel
  pipeWorld :: world
  toTarget :: "ssh_request list"
  toUser :: "ssh_request list"
  userReplies :: "(ssh_request \<times> bool) list"
  targetReplies :: "(ssh_request \<times> bool) list"

type_synonym send_answer = "bool \<times> go_error option"

definition send_ok :: "send_answer \<Rightarrow> bool" where
  "send_ok a = (case a of (ok, err) \<Rightarrow> if err \<noteq> None then False else ok)"

definition reply_to :: "ssh_request \<Rightarrow> bool \<Rightarrow> (ssh_request \<times> bool) list" where
  "reply_to req ok = (if WantReply req then [(req, ok)] else [])"

text \<open>One iteration of \<^verbatim>\<open>pipeUserRequests\<close>; \<open>answer\<close> is the result of \<^verbatim>\<open>dst.SendRequest\<close>.\<close>

definition pipeUserRequest :: "proxier \<Rightarrow> wire_lib \<Rightarrow> ssh_request \<Rightarrow> send_answer \<Rightarrow> pipe \<Rightarrow> pipe" where
  "pipeUserRequest p lib req answer st =
     (if \<not> permitsRequest p (ReqType req) then st\<lparr>userReplies := userReplies st @ reply_to req False\<rparr>
      else
        case peek_request lib req (pipeRec st) (pipeWorld st) of (rec, w1) \<Rightarrow>
          let w2 = (case detectSubsystem lib req of
                      None \<Rightarrow> w1
                    | Some (kind, cmd) \<Rightarrow> emitSubsystemOpened (pxAudit p) (pxSessionID p) (pxAttr p) kind cmd w1)
          in st\<lparr>pipeRec := rec, pipeWorld := w2, toTarget := toTarget st @ [req],
                userReplies := userReplies st @ reply_to req (send_ok answer)\<rparr>)"

text \<open>One iteration of \<^verbatim>\<open>pipeRequestsVerbatim\<close>.\<close>

definition pipeRequestVerbatim :: "ssh_request \<Rightarrow> send_answer \<Rightarrow> pipe \<Rightarrow> pipe" where
  "pipeRequestVerbatim req answer st =
     st\<lparr>toUser := toUser st @ [req], targetReplies := targetReplies st @ reply_to req (send_ok answer)\<rparr>"

section \<open>One channel\<close>

text \<open>
  \<open>DataToUser p n\<close>: the target sent \<open>p\<close> and the user's channel took \<open>n\<close> bytes of it; \<open>DataFromUser n\<close>: \<open>n\<close> bytes
  were read from the user. Standard error is copied around the counters and the recorder.
\<close>

datatype traffic =
    UserRequest ssh_request send_answer
  | TargetRequest ssh_request send_answer
  | DataToUser string nat
  | DataFromUser nat
  | Stderr string

definition pipe_step :: "proxier \<Rightarrow> wire_lib \<Rightarrow> traffic \<Rightarrow> pipe \<Rightarrow> pipe" where
  "pipe_step p lib ev st =
     (case ev of
        UserRequest req a \<Rightarrow> pipeUserRequest p lib req a st
      | TargetRequest req a \<Rightarrow> pipeRequestVerbatim req a st
      | DataToUser d n \<Rightarrow>
          st\<lparr>pipeCount := counting_Write (int n) (pipeCount st),
             pipeWorld := recordingTee_Write d n (pipeRec st) (pipeWorld st)\<rparr>
      | DataFromUser n \<Rightarrow> st\<lparr>pipeCount := counting_Read (int n) (pipeCount st)\<rparr>
      | Stderr _ \<Rightarrow> st)"

definition pipeChannel :: "proxier \<Rightarrow> wire_lib \<Rightarrow> traffic list \<Rightarrow> pipe \<Rightarrow> pipe" where
  "pipeChannel p lib evs st = fold (pipe_step p lib) evs st"

datatype channel_error = OpenChannelError nat string | OtherChannelError go_error

definition Prohibited :: nat where "Prohibited = 1"
definition ConnectionFailed :: nat where "ConnectionFailed = 2"

definition openChannelRejection :: "channel_error \<Rightarrow> nat \<times> string" where
  "openChannelRejection err = (case err of
     OpenChannelError reason msg \<Rightarrow> (reason, msg)
   | OtherChannelError e \<Rightarrow> (ConnectionFailed, err_text e))"

record new_channel =
  ChannelType :: string
  ExtraData :: string

text \<open>What the peers answer: the target's \<^verbatim>\<open>OpenChannel\<close>, the user's \<^verbatim>\<open>Accept\<close>, and the traffic after that.\<close>

record channel_peers =
  openAnswer :: "string \<Rightarrow> string \<Rightarrow> channel_error option"
  acceptAnswer :: "go_error option"
  piped :: "traffic list"

datatype channel_outcome =
    Rejected nat string bool
  | AcceptError
  | Proxied pipe

text \<open>\<open>Rejected reason msg asked\<close>: \<open>asked\<close> says whether the target was contacted.\<close>

definition channel_auditor :: "proxier \<Rightarrow> wire_lib \<Rightarrow> new_channel \<Rightarrow> port_forward_auditor option" where
  "channel_auditor p lib ch =
     (if ChannelType ch = ''direct-tcpip'' then
        (case parseDirectTCPIPRequest lib (ExtraData ch) of
           Inl _ \<Rightarrow> None
         | Inr req \<Rightarrow> Some \<lparr>pfSink = pxAudit p, pfSessionID = pxSessionID p, pfAttr = pxAttr p, pfReq = req,
                             pfOpenedAt = 0, pfEmitOpened = False\<rparr>)
      else None)"

text \<open>
  \<^verbatim>\<open>handleChannel\<close> up to the start of the copy loops, and its deferred calls: the port-forward entry, then
  the recorder. The rest is \<^verbatim>\<open>pipeChannel\<close>.
\<close>

definition channel_start ::
  "proxier \<Rightarrow> wire_lib \<Rightarrow> new_channel \<Rightarrow> channel_peers \<Rightarrow> world
    \<Rightarrow> (channel_outcome + port_forward_auditor option \<times> pipe) \<times> world" where
  "channel_start p lib ch peers w =
     (if ChannelType ch = ''direct-tcpip'' \<and> \<not> PermitsPortForwarding (pxRbac p)
      then (Inl (Rejected Prohibited ''port forwarding not permitted by cert'' False), w)
      else
        case openAnswer peers (ChannelType ch) (ExtraData ch) of
          Some err \<Rightarrow> (case openChannelRejection err of (reason, msg) \<Rightarrow> (Inl (Rejected reason msg True), w))
        | None \<Rightarrow>
            if acceptAnswer peers \<noteq> None then (Inl AcceptError, w)
            else
              let rec = (if ChannelType ch = ''session'' then
                           map_option (\<lambda>s. newChannelRecorder s (pxSessionID p) (pxUser p) (pxHost p) (pxAttr p) (pxAudit p)) (pxSink p)
                         else None);
                  (pf, w1) = portForward_Open (channel_auditor p lib ch) w
              in (Inr (pf, \<lparr>pipeRec = rec, pipeCount = new_counting_channel, pipeWorld = w1, toTarget = [], toUser = [],
                            userReplies = [], targetReplies = []\<rparr>), w1))"

definition channel_finish :: "port_forward_auditor option \<Rightarrow> pipe \<Rightarrow> world" where
  "channel_finish pf st =
     (let w2 = portForward_Close pf (bytesRead (pipeCount st)) (bytesWritten (pipeCount st)) (pipeWorld st)
      in case pipeRec st of None \<Rightarrow> w2 | Some r \<Rightarrow> snd (snd (channel_Close r w2)))"

definition handleChannel ::
  "proxier \<Rightarrow> wire_lib \<Rightarrow> new_channel \<Rightarrow> channel_peers \<Rightarrow> world \<Rightarrow> channel_outcome \<times> world" where
  "handleChannel p lib ch peers w =
     (case channel_start p lib ch peers w of
        (Inl out, w1) \<Rightarrow> (out, w1)
      | (Inr (pf, st0), w1) \<Rightarrow>
          let st = pipeChannel p lib (piped peers) st0 in (Proxied st, channel_finish pf st))"

text \<open>
  \<^verbatim>\<open>HandleNewChannels\<close> runs every channel on its own goroutine. A connection is the shared world and the state
  of each channel; a step starts a channel, lets one copy loop make one call, or runs a channel's deferred
  calls. It returns when the user's side opens no more channels and all are done.
\<close>

datatype chan_state = Piping "port_forward_auditor option" pipe | Done channel_outcome

type_synonym conn_state = "world \<times> (nat \<rightharpoonup> chan_state)"

inductive channels_step :: "proxier \<Rightarrow> wire_lib \<Rightarrow> conn_state \<Rightarrow> conn_state \<Rightarrow> bool" for p lib where
  refused: "cs i = None \<Longrightarrow> channel_start p lib ch peers w = (Inl out, w') \<Longrightarrow>
    channels_step p lib (w, cs) (w', cs(i \<mapsto> Done out))"
| started: "cs i = None \<Longrightarrow> channel_start p lib ch peers w = (Inr (pf, st), w') \<Longrightarrow>
    channels_step p lib (w, cs) (w', cs(i \<mapsto> Piping pf st))"
| copied: "cs i = Some (Piping pf st) \<Longrightarrow> st' = pipe_step p lib ev (st\<lparr>pipeWorld := w\<rparr>) \<Longrightarrow>
    channels_step p lib (w, cs) (pipeWorld st', cs(i \<mapsto> Piping pf st'))"
| finished: "cs i = Some (Piping pf st) \<Longrightarrow>
    channels_step p lib (w, cs) (channel_finish pf (st\<lparr>pipeWorld := w\<rparr>), cs(i \<mapsto> Done (Proxied st)))"

inductive channels_run :: "proxier \<Rightarrow> wire_lib \<Rightarrow> conn_state \<Rightarrow> conn_state \<Rightarrow> bool" for p lib where
  none: "channels_run p lib c c"
| more: "channels_run p lib c c' \<Longrightarrow> channels_step p lib c' c'' \<Longrightarrow> channels_run p lib c c''"

inductive_cases channels_stepE: "channels_step p lib c c'"

definition all_done :: "(nat \<rightharpoonup> chan_state) \<Rightarrow> bool" where
  "all_done cs \<longleftrightarrow> (\<forall>i s. cs i = Some s \<longrightarrow> (\<exists>out. s = Done out))"

definition HandleNewChannels :: "proxier \<Rightarrow> wire_lib \<Rightarrow> world \<Rightarrow> world \<Rightarrow> bool" where
  "HandleNewChannels p lib w w' \<longleftrightarrow> (\<exists>cs. channels_run p lib (w, Map.empty) (w', cs) \<and> all_done cs)"

section \<open>Requests in, requests out\<close>

fun user_requests :: "traffic list \<Rightarrow> (ssh_request \<times> send_answer) list" where
  "user_requests [] = []"
| "user_requests (UserRequest r a # evs) = (r, a) # user_requests evs"
| "user_requests (_ # evs) = user_requests evs"

fun target_requests :: "traffic list \<Rightarrow> (ssh_request \<times> send_answer) list" where
  "target_requests [] = []"
| "target_requests (TargetRequest r a # evs) = (r, a) # target_requests evs"
| "target_requests (_ # evs) = target_requests evs"

fun bytes_from_user :: "traffic list \<Rightarrow> int" where
  "bytes_from_user [] = 0"
| "bytes_from_user (DataFromUser n # evs) = int n + bytes_from_user evs"
| "bytes_from_user (_ # evs) = bytes_from_user evs"

fun bytes_to_user :: "traffic list \<Rightarrow> int" where
  "bytes_to_user [] = 0"
| "bytes_to_user (DataToUser d n # evs) = int n + bytes_to_user evs"
| "bytes_to_user (_ # evs) = bytes_to_user evs"

lemma pipeChannel_simps [simp]:
  "pipeChannel p lib [] st = st"
  "pipeChannel p lib (ev # evs) st = pipeChannel p lib evs (pipe_step p lib ev st)"
  by (simp_all add: pipeChannel_def)

lemma pipeUserRequest_fields:
  "toTarget (pipeUserRequest p lib req a st) = toTarget st @ (if permitsRequest p (ReqType req) then [req] else [])"
  "userReplies (pipeUserRequest p lib req a st) =
     userReplies st @ reply_to req (permitsRequest p (ReqType req) \<and> send_ok a)"
  "toUser (pipeUserRequest p lib req a st) = toUser st" "targetReplies (pipeUserRequest p lib req a st) = targetReplies st"
  "pipeCount (pipeUserRequest p lib req a st) = pipeCount st"
  by (simp_all add: pipeUserRequest_def Let_def split: prod.splits)

lemma wrap64_add: "wrap64 (b + wrap64 a) = wrap64 (b + a)"
proof -
  have "(b + ((a + 2 ^ 63) mod 2 ^ 64 - 2 ^ 63) + 2 ^ 63) mod (2 ^ 64 :: int) = (b + (a + 2 ^ 63) mod 2 ^ 64) mod 2 ^ 64"
    by simp
  also have "\<dots> = (b + a + 2 ^ 63) mod 2 ^ 64" by (simp only: mod_add_right_eq add.assoc)
  finally show ?thesis by (simp only: wrap64_def)
qed

lemma counting_fields:
  "bytesRead (counting_Read (int n) c) = (if n = 0 then bytesRead c else wrap64 (bytesRead c + int n))"
  "bytesWritten (counting_Read (int n) c) = bytesWritten c"
  "bytesWritten (counting_Write (int n) c) = (if n = 0 then bytesWritten c else wrap64 (bytesWritten c + int n))"
  "bytesRead (counting_Write (int n) c) = bytesRead c"
  by (simp_all add: counting_Read_def counting_Write_def)

lemmas pipe_counts_simps = wrap64_id pipe_step_def pipeUserRequest_fields pipeRequestVerbatim_def counting_fields
  wrap64_add algebra_simps

lemma pipe_counts:
  "in_int64 (bytesRead (pipeCount st)) \<Longrightarrow>
     bytesRead (pipeCount (pipeChannel p lib evs st)) = wrap64 (bytesRead (pipeCount st) + bytes_from_user evs)"
  "in_int64 (bytesWritten (pipeCount st)) \<Longrightarrow>
     bytesWritten (pipeCount (pipeChannel p lib evs st)) = wrap64 (bytesWritten (pipeCount st) + bytes_to_user evs)"
  by (induction evs arbitrary: st rule: bytes_from_user.induct; simp add: pipe_counts_simps)
    (induction evs arbitrary: st rule: bytes_to_user.induct; simp add: pipe_counts_simps)

section \<open>What a channel publishes\<close>

definition only_subsystem :: "proxier \<Rightarrow> audit_entry list \<Rightarrow> bool" where
  "only_subsystem p es \<longleftrightarrow> list_all (\<lambda>e. Action e = ActionSubsystemOpened \<and> SessionID e = pxSessionID p) es"

lemma emitSubsystem_published:
  "\<exists>es. published (emitSubsystemOpened (pxAudit p) (pxSessionID p) attr k c w) = published w @ es \<and> only_subsystem p es"
proof -
  consider (none) "pxAudit p = None" | (noop) "pxAudit p = Some NoopSink" | (some) f where "pxAudit p = Some (JournalSink f)"
    by (cases "pxAudit p"; cases "the (pxAudit p)") auto
  then show ?thesis
    by cases (simp_all add: emitSubsystemOpened_def NewString_def Now_def published_def only_subsystem_def Let_def)
qed

lemma peek_journal: "peek_request lib req rec w = (rec', w') \<Longrightarrow> journal w' = journal w"
proof (cases rec)
  case (Some r)
  assume a: "peek_request lib req rec w = (rec', w')"
  show ?thesis
  proof (cases "ReqType req = ''pty-req''")
    case True
    then show ?thesis
      using a Some StartIfNeeded_journal[of _ _ r w]
      by (cases "parsePTYReq lib (Payload req)") (auto simp: peek_request_def split: prod.splits, metis snd_conv)
  next
    case False
    then show ?thesis
      using a Some by (auto simp: peek_request_def channel_Resize_def split: if_splits sum.splits option.splits)
  qed
qed (simp add: peek_request_def)

lemma pipe_step_published:
  "\<exists>es. published (pipeWorld (pipe_step p lib ev st)) = published (pipeWorld st) @ es \<and> only_subsystem p es"
proof (cases ev)
  case (UserRequest req a)
  obtain rec w1 where pk: "peek_request lib req (pipeRec st) (pipeWorld st) = (rec, w1)" by (cases "peek_request lib req (pipeRec st) (pipeWorld st)")
  have "published w1 = published (pipeWorld st)" using peek_journal[OF pk] by (simp add: published_def)
  then show ?thesis
    using UserRequest pk emitSubsystem_published[of p "pxAttr p" _ _ w1]
    by (auto simp: pipe_step_def pipeUserRequest_def Let_def only_subsystem_def split: option.splits)
next
  case (DataToUser d n)
  then show ?thesis
    by (auto simp: pipe_step_def recordingTee_Write_def writeOutput_def published_def only_subsystem_def split: option.splits)
qed (auto simp: pipe_step_def pipeRequestVerbatim_def only_subsystem_def)

lemma pipe_published:
  "\<exists>es. published (pipeWorld (pipeChannel p lib evs st)) = published (pipeWorld st) @ es \<and> only_subsystem p es"
proof (induction evs arbitrary: st)
  case (Cons ev evs)
  obtain es1 where 1: "published (pipeWorld (pipe_step p lib ev st)) = published (pipeWorld st) @ es1" "only_subsystem p es1"
    using pipe_step_published by blast
  obtain es2 where "published (pipeWorld (pipeChannel p lib evs (pipe_step p lib ev st))) = published (pipeWorld (pipe_step p lib ev st)) @ es2"
    "only_subsystem p es2" using Cons.IH by blast
  then show ?case using 1 by (intro exI[of _ "es1 @ es2"]) (simp add: only_subsystem_def)
qed (simp add: only_subsystem_def)

section \<open>Channels without a recording\<close>

lemma pipe_no_recorder: "pipeRec st = None \<Longrightarrow> pipeRec (pipeChannel p lib evs st) = None"
proof (induction evs arbitrary: st)
  case (Cons ev evs)
  have "pipeRec (pipe_step p lib ev st) = None"
    using Cons.prems by (cases ev) (auto simp: pipe_step_def pipeUserRequest_def peek_request_def pipeRequestVerbatim_def Let_def)
  then show ?case using Cons.IH by simp
qed simp

lemma emitSubsystem_files [simp]: "files (emitSubsystemOpened s sid attr k c w) = files w"
  by (simp add: emitSubsystemOpened_def NewString_def Now_def Let_def split: option.splits)

definition idle :: "channel_recorder option \<Rightarrow> bool" where
  "idle rec \<longleftrightarrow> (case rec of None \<Rightarrow> True | Some r \<Rightarrow> crRec r = None \<and> crCast r = None \<and> \<not> crClosed r)"

text \<open>Without \<^verbatim>\<open>permit-pty\<close> the recorder never starts and no file is touched.\<close>

lemma pipe_step_idle:
  assumes "\<not> PermitsPTY (pxRbac p)" "idle (pipeRec st)"
  shows "pipeRec (pipe_step p lib ev st) = pipeRec st" "files (pipeWorld (pipe_step p lib ev st)) = files (pipeWorld st)"
  using assms
  by (auto simp: pipe_step_def pipeUserRequest_def permitsRequest_def peek_request_def channel_Resize_def Let_def
      pipeRequestVerbatim_def recordingTee_Write_def writeOutput_def idle_def
      split: traffic.splits option.splits prod.splits sum.splits)

lemma pipe_idle:
  assumes "\<not> PermitsPTY (pxRbac p)" "idle (pipeRec st)"
  shows "pipeRec (pipeChannel p lib evs st) = pipeRec st \<and> files (pipeWorld (pipeChannel p lib evs st)) = files (pipeWorld st)"
  using assms(2)
proof (induction evs arbitrary: st)
  case (Cons ev evs)
  then show ?case using pipe_step_idle[OF assms(1), of st lib ev] by simp
qed simp

lemma portForward_files [simp]:
  "files (snd (portForward_Open oa w)) = files w" "files (portForward_Close oa i j w) = files w"
  by (simp_all add: portForward_Open_def portForward_Close_def NewString_def Now_def Let_def split: option.splits)

lemma handleChannel_Proxied:
  assumes "handleChannel p lib ch peers w = (Proxied st, w')"
  obtains pf w1 rec where "ChannelType ch = ''direct-tcpip'' \<Longrightarrow> PermitsPortForwarding (pxRbac p)"
    "portForward_Open (channel_auditor p lib ch) w = (pf, w1)"
    "rec = (if ChannelType ch = ''session'' then
       map_option (\<lambda>s. newChannelRecorder s (pxSessionID p) (pxUser p) (pxHost p) (pxAttr p) (pxAudit p)) (pxSink p) else None)"
    "st = pipeChannel p lib (piped peers) \<lparr>pipeRec = rec, pipeCount = new_counting_channel, pipeWorld = w1, toTarget = [],
       toUser = [], userReplies = [], targetReplies = []\<rparr>"
    "w' = channel_finish pf st"
  using assms
  by (auto simp: handleChannel_def channel_start_def Let_def split: if_splits option.splits prod.splits)

lemma idle_new: "idle (map_option (\<lambda>s. newChannelRecorder s a b c d e) sk)"
  by (cases sk) (simp_all add: idle_def newChannelRecorder_def)

section \<open>What a connection publishes\<close>

text \<open>Every entry of a connection carries its session id, in every interleaving of its channels.\<close>

definition of_session :: "string \<Rightarrow> audit_entry list \<Rightarrow> bool" where
  "of_session sid es \<longleftrightarrow> list_all (\<lambda>e. SessionID e = sid \<and> Action e \<noteq> ActionSessionOpened \<and> Action e \<noteq> ActionSessionClosed) es"

definition recorder_of :: "proxier \<Rightarrow> channel_recorder option \<Rightarrow> bool" where
  "recorder_of p rec \<longleftrightarrow> (\<forall>r. rec = Some r \<longrightarrow> crSessionID r = pxSessionID p)"

definition auditor_of :: "proxier \<Rightarrow> port_forward_auditor option \<Rightarrow> bool" where
  "auditor_of p pf \<longleftrightarrow> (\<forall>a. pf = Some a \<longrightarrow> pfSessionID a = pxSessionID p)"

definition chan_ok :: "proxier \<Rightarrow> chan_state \<Rightarrow> bool" where
  "chan_ok p c \<longleftrightarrow> (case c of Piping pf st \<Rightarrow> auditor_of p pf \<and> recorder_of p (pipeRec st) | Done _ \<Rightarrow> True)"

lemma only_subsystem_of_session: "only_subsystem p es \<Longrightarrow> of_session (pxSessionID p) es"
  by (auto simp: only_subsystem_def of_session_def list_all_iff action_defs)

lemma StartIfNeeded_sid: "crSessionID r \<noteq> [] \<Longrightarrow> StartIfNeeded x y r w = (e, r', w') \<Longrightarrow> crSessionID r' = crSessionID r"
  by (auto simp: StartIfNeeded_def Let_def split: if_splits prod.splits sum.splits)

lemma peek_recorder:
  assumes "recorder_of p rec" "pxSessionID p \<noteq> []" "peek_request lib req rec w = (rec', w')"
  shows "recorder_of p rec'"
proof (cases rec)
  case (Some r)
  then have "crSessionID r = pxSessionID p" using assms(1) by (simp add: recorder_of_def)
  then show ?thesis
    using assms Some by (auto simp: peek_request_def recorder_of_def dest!: StartIfNeeded_sid[rotated] split: if_splits sum.splits prod.splits)
qed (use assms in \<open>auto simp: peek_request_def recorder_of_def\<close>)

lemma pipe_step_recorder:
  assumes "recorder_of p (pipeRec st)" "pxSessionID p \<noteq> []"
  shows "recorder_of p (pipeRec (pipe_step p lib ev st))"
proof (cases ev)
  case (UserRequest req a)
  obtain rec w1 where "peek_request lib req (pipeRec st) (pipeWorld st) = (rec, w1)" by (cases "peek_request lib req (pipeRec st) (pipeWorld st)")
  then show ?thesis using UserRequest assms peek_recorder[OF assms] by (simp add: pipe_step_def pipeUserRequest_def Let_def)
qed (use assms in \<open>auto simp: pipe_step_def pipeRequestVerbatim_def\<close>)

lemma portForward_Open_of:
  assumes "auditor_of p pf" "portForward_Open pf w = (pf', w')"
  shows "auditor_of p pf'" "\<exists>es. published w' = published w @ es \<and> of_session (pxSessionID p) es"
proof -
  show "auditor_of p pf'"
    using assms by (auto simp: portForward_Open_def auditor_of_def Let_def split: option.splits prod.splits)
  show "\<exists>es. published w' = published w @ es \<and> of_session (pxSessionID p) es"
    using assms
    by (auto simp: portForward_Open_def auditor_of_def Let_def Now_def NewString_def published_Append of_session_def
        split: option.splits audit_sink.splits) (auto simp: published_def forward_entry_def action_defs)
qed

lemma portForward_Close_of:
  "auditor_of p pf \<Longrightarrow> \<exists>es. published (portForward_Close pf i j w) = published w @ es \<and> of_session (pxSessionID p) es"
  by (auto simp: portForward_Close_def auditor_of_def Let_def Now_def NewString_def published_Append of_session_def
      split: option.splits audit_sink.splits) (auto simp: published_def forward_entry_def action_defs)

lemma channel_Close_of:
  "crSessionID r = sid \<Longrightarrow> \<exists>es. published (snd (snd (channel_Close r w))) = published w @ es \<and> of_session sid es"
  by (auto simp: channel_Close_def emitCompleted_def Let_def Now_def NewString_def published_Append of_session_def
      split: audit_sink.splits) (auto simp: published_def completed_entry_def action_defs)

lemma of_session_append [simp]: "of_session sid (xs @ ys) \<longleftrightarrow> of_session sid xs \<and> of_session sid ys"
  by (simp add: of_session_def)

lemma channel_finish_of:
  assumes "auditor_of p pf" "recorder_of p (pipeRec st)"
  shows "\<exists>es. published (channel_finish pf st) = published (pipeWorld st) @ es \<and> of_session (pxSessionID p) es"
proof -
  let ?w2 = "portForward_Close pf (bytesRead (pipeCount st)) (bytesWritten (pipeCount st)) (pipeWorld st)"
  obtain es where 1: "published ?w2 = published (pipeWorld st) @ es" "of_session (pxSessionID p) es"
    using portForward_Close_of[OF assms(1)] by blast
  show ?thesis
  proof (cases "pipeRec st")
    case (Some r)
    then have "crSessionID r = pxSessionID p" using assms(2) by (simp add: recorder_of_def)
    from channel_Close_of[OF this, of ?w2] obtain es' where
      "published (snd (snd (channel_Close r ?w2))) = published ?w2 @ es'" "of_session (pxSessionID p) es'" by blast
    then show ?thesis using 1 Some by (intro exI[of _ "es @ es'"]) (simp add: channel_finish_def)
  qed (use 1 in \<open>auto simp: channel_finish_def\<close>)
qed

lemma channel_start_of:
  assumes "channel_start p lib ch peers w = (res, w')"
  shows "\<exists>es. published w' = published w @ es \<and> of_session (pxSessionID p) es"
    "res = Inr (pf, st) \<Longrightarrow> auditor_of p pf \<and> recorder_of p (pipeRec st)"
proof -
  have a: "auditor_of p (channel_auditor p lib ch)" by (auto simp: auditor_of_def channel_auditor_def split: sum.splits)
  obtain pf1 w1 where o: "portForward_Open (channel_auditor p lib ch) w = (pf1, w1)" by (cases "portForward_Open (channel_auditor p lib ch) w")
  note P = portForward_Open_of[OF a o]
  show "\<exists>es. published w' = published w @ es \<and> of_session (pxSessionID p) es"
    using assms P(2) o by (auto simp: channel_start_def Let_def of_session_def split: if_splits option.splits prod.splits)
  show "res = Inr (pf, st) \<Longrightarrow> auditor_of p pf \<and> recorder_of p (pipeRec st)"
    using assms P(1) o
    by (auto simp: channel_start_def Let_def recorder_of_def newChannelRecorder_def split: if_splits option.splits prod.splits)
qed

definition conn_ok :: "proxier \<Rightarrow> world \<Rightarrow> conn_state \<Rightarrow> bool" where
  "conn_ok p w0 c \<longleftrightarrow> (\<forall>i s. snd c i = Some s \<longrightarrow> chan_ok p s) \<and>
     (\<exists>es. published (fst c) = published w0 @ es \<and> of_session (pxSessionID p) es)"

lemma conn_ok_extend:
  assumes "conn_ok p w0 (w, cs)" "chan_ok p s" "\<exists>es. published w' = published w @ es \<and> of_session (pxSessionID p) es"
  shows "conn_ok p w0 (w', cs(i \<mapsto> s))"
  using assms by (fastforce simp: conn_ok_def)

lemma channels_step_ok:
  assumes "channels_step p lib c c'" "conn_ok p w0 c" "pxSessionID p \<noteq> []"
  shows "conn_ok p w0 c'"
  using assms(1)
proof (cases rule: channels_step.cases)
  case (refused cs i ch peers w out w')
  then show ?thesis using assms(2) channel_start_of(1)[OF refused(4)] by (auto intro!: conn_ok_extend simp: chan_ok_def)
next
  case (started cs i ch peers w pf st w')
  then show ?thesis
    using assms(2) channel_start_of(1)[OF started(4)] channel_start_of(2)[OF started(4) refl]
    by (auto intro!: conn_ok_extend simp: chan_ok_def)
next
  case (copied cs i pf st st' ev w)
  have "chan_ok p (Piping pf st)" using assms(2) copied by (fastforce simp: conn_ok_def)
  then have ok: "auditor_of p pf" "recorder_of p (pipeRec (st\<lparr>pipeWorld := w\<rparr>))" by (simp_all add: chan_ok_def)
  show ?thesis
    using copied assms(2) ok pipe_step_recorder[OF ok(2) assms(3), of lib ev]
      pipe_step_published[of p lib ev "st\<lparr>pipeWorld := w\<rparr>"] only_subsystem_of_session
    by (auto intro!: conn_ok_extend simp: chan_ok_def)
next
  case (finished cs i pf st w)
  have "chan_ok p (Piping pf st)" using assms(2) finished by (fastforce simp: conn_ok_def)
  then show ?thesis
    using finished assms(2) channel_finish_of[of p pf "st\<lparr>pipeWorld := w\<rparr>"]
    by (auto intro!: conn_ok_extend simp: chan_ok_def)
qed

lemma channels_run_ok:
  "channels_run p lib c c' \<Longrightarrow> conn_ok p w0 c \<Longrightarrow> pxSessionID p \<noteq> [] \<Longrightarrow> conn_ok p w0 c'"
  by (induction rule: channels_run.induct) (auto intro: channels_step_ok)

lemma HandleNewChannels_published:
  assumes "HandleNewChannels p lib w w'" "pxSessionID p \<noteq> []"
  shows "\<exists>es. published w' = published w @ es \<and> of_session (pxSessionID p) es"
proof -
  have "conn_ok p w (w, Map.empty)" by (simp add: conn_ok_def of_session_def)
  then show ?thesis using assms channels_run_ok by (fastforce simp: HandleNewChannels_def conn_ok_def)
qed

section \<open>The goroutines of \<^verbatim>\<open>pipeChannel\<close>\<close>

text \<open>
  Each direction runs a data loop and a request loop; when both loops of a direction have ended it calls
  \<open>closeBoth\<close>, once for both directions. \<open>sent\<close> is every request the target has sent so far, \<open>pending\<close> those not
  yet taken by the loop, \<open>delivered\<close> those forwarded to the user. A request taken after the close is lost.
\<close>

record pipe_sys =
  sent :: "ssh_request list"
  pending :: "ssh_request list"
  delivered :: "ssh_request list"
  tData :: bool
  tReqs :: bool
  uData :: bool
  uReqs :: bool
  closedBoth :: bool

definition pipe_init :: pipe_sys where
  "pipe_init = \<lparr>sent = [], pending = [], delivered = [], tData = False, tReqs = False, uData = False, uReqs = False,
                closedBoth = False\<rparr>"

inductive pipe_move :: "pipe_sys \<Rightarrow> pipe_sys \<Rightarrow> bool" where
  arrive: "\<not> tReqs s \<Longrightarrow> pipe_move s (s\<lparr>sent := sent s @ [r], pending := pending s @ [r]\<rparr>)"
| forward: "\<not> tReqs s \<Longrightarrow> \<not> closedBoth s \<Longrightarrow> pending s = r # rs \<Longrightarrow>
    pipe_move s (s\<lparr>pending := rs, delivered := delivered s @ [r]\<rparr>)"
| lose: "\<not> tReqs s \<Longrightarrow> closedBoth s \<Longrightarrow> pending s = r # rs \<Longrightarrow> pipe_move s (s\<lparr>pending := rs\<rparr>)"
| t_data: "pipe_move s (s\<lparr>tData := True\<rparr>)"
| t_reqs: "pending s = [] \<Longrightarrow> pipe_move s (s\<lparr>tReqs := True\<rparr>)"
| u_data: "pipe_move s (s\<lparr>uData := True\<rparr>)"
| u_reqs: "pipe_move s (s\<lparr>uReqs := True\<rparr>)"
| close_t: "tData s \<Longrightarrow> tReqs s \<Longrightarrow> pipe_move s (s\<lparr>closedBoth := True\<rparr>)"
| close_u: "uData s \<Longrightarrow> uReqs s \<Longrightarrow> pipe_move s (s\<lparr>closedBoth := True\<rparr>)"

inductive pipe_reachable :: "pipe_sys \<Rightarrow> bool" where
  start: "pipe_reachable pipe_init"
| move: "pipe_reachable s \<Longrightarrow> pipe_move s s' \<Longrightarrow> pipe_reachable s'"

inductive_cases pipe_moveE: "pipe_move s s'"

definition pipe_inv :: "pipe_sys \<Rightarrow> bool" where
  "pipe_inv s \<longleftrightarrow>
     (tReqs s \<longrightarrow> pending s = []) \<and>
     (\<not> (uData s \<and> uReqs s) \<longrightarrow> sent s = delivered s @ pending s \<and> (closedBoth s \<longrightarrow> tData s \<and> tReqs s))"

lemma pipe_reachable_inv: "pipe_reachable s \<Longrightarrow> pipe_inv s"
proof (induction rule: pipe_reachable.induct)
  case start
  then show ?case by (simp add: pipe_inv_def pipe_init_def)
next
  case (move s s')
  from move(2,3) show ?case by (elim pipe_moveE) (auto simp: pipe_inv_def)
qed

section \<open>Terminal sizes\<close>

definition be_bytes :: "32 word \<Rightarrow> string" where
  "be_bytes v = [char_of (unat (drop_bit 24 v)), char_of (unat (drop_bit 16 v) mod 256),
                 char_of (unat (drop_bit 8 v) mod 256), char_of (unat v mod 256)]"

lemma be32_value:
  "be32 [a, b, c, d] = of_nat (((byte_val a * 256 + byte_val b) * 256 + byte_val c) * 256 + byte_val d)"
  by (simp add: be32_def push_bit_eq_mult algebra_simps)

lemma byte_of_mod: "byte_val (char_of n) = n mod 256"
  by simp

lemma be32_be_bytes: "be32 (be_bytes v) = v"
proof -
  define n where "n = unat v"
  have n: "n < 2 ^ 32" using unsigned_less[of v, where ?'a = nat] by (simp add: n_def)
  have u: "unat (drop_bit k v) = n div 2 ^ k" for k unfolding n_def unat_drop_bit_eq by (rule drop_bit_eq_div)
  have d: "n div 2 ^ 24 mod 256 = n div 2 ^ 24" using n by (intro mod_less) (simp add: less_mult_imp_div_less)
  have "((n div 2 ^ 24 * 256 + n div 2 ^ 16 mod 256) * 256 + n div 2 ^ 8 mod 256) * 256 + n mod 256 = n"
  proof -
    have "n div 2 ^ 24 = n div 2 ^ 16 div 256" "n div 2 ^ 16 = n div 2 ^ 8 div 256" "n div 2 ^ 8 = n div 256"
      by (simp_all add: div_mult2_eq[symmetric])
    then show ?thesis by (simp only: div_mult_mod_eq)
  qed
  then have "be32 (be_bytes v) = of_nat n"
    unfolding be_bytes_def be32_value byte_of_mod u n_def[symmetric] by (simp only: mod_mod_trivial d)
  then show ?thesis by (simp add: n_def)
qed

lemma pipe_toTarget:
  "req \<in> set (toTarget (pipeChannel p lib evs st)) \<Longrightarrow> req \<in> set (toTarget st) \<or> permitsRequest p (ReqType req)"
proof (induction evs arbitrary: st)
  case (Cons ev evs)
  then show ?case
    by (cases ev) (fastforce simp: pipe_step_def pipeUserRequest_fields pipeRequestVerbatim_def split: if_splits)+
qed simp

lemma toTarget_permitted:
  assumes "handleChannel p lib ch peers w = (Proxied st, w')" "req \<in> set (toTarget st)"
  shows "permitsRequest p (ReqType req)"
  using assms(1)
proof (rule handleChannel_Proxied)
  fix w1 rec
  assume "st = pipeChannel p lib (piped peers) \<lparr>pipeRec = rec, pipeCount = new_counting_channel, pipeWorld = w1,
          toTarget = [], toUser = [], userReplies = [], targetReplies = []\<rparr>"
  then show ?thesis using pipe_toTarget assms(2) by fastforce
qed

section \<open>Properties\<close>


text \<open>
  C21. Gates on channels. A direct-tcpip channel without permit-port-forwarding is rejected as prohibited,
  without contacting the target and without any trace; and on any channel of a certificate without
  permit-pty no pty-req reaches the target and no file is created or changed.\<close>
theorem channel_gates:
  assumes "handleChannel p lib ch peers w = (out, w')"
  shows "(ChannelType ch = ''direct-tcpip'' \<and> \<not> PermitsPortForwarding (pxRbac p) \<longrightarrow>
            out = Rejected Prohibited ''port forwarding not permitted by cert'' False \<and> w' = w) \<and>
         (\<not> PermitsPTY (pxRbac p) \<longrightarrow> files w' = files w \<and>
            (\<forall>st. out = Proxied st \<longrightarrow> (\<forall>req \<in> set (toTarget st). ReqType req \<noteq> ''pty-req'')))"
proof (intro conjI impI allI)
  assume "ChannelType ch = ''direct-tcpip'' \<and> \<not> PermitsPortForwarding (pxRbac p)"
  then show "out = Rejected Prohibited ''port forwarding not permitted by cert'' False" "w' = w"
    using assms by (auto simp: handleChannel_def channel_start_def)
next
  assume np: "\<not> PermitsPTY (pxRbac p)"
  show "files w' = files w"
  proof (cases out)
    case (Proxied st)
    from assms[unfolded Proxied] show ?thesis
    proof (rule handleChannel_Proxied)
      fix pf w1 rec
      assume pf: "portForward_Open (channel_auditor p lib ch) w = (pf, w1)"
        and rec: "rec = (if ChannelType ch = ''session'' then
         map_option (\<lambda>s. newChannelRecorder s (pxSessionID p) (pxUser p) (pxHost p) (pxAttr p) (pxAudit p)) (pxSink p) else None)"
        and st: "st = pipeChannel p lib (piped peers) \<lparr>pipeRec = rec, pipeCount = new_counting_channel, pipeWorld = w1,
          toTarget = [], toUser = [], userReplies = [], targetReplies = []\<rparr>"
        and w': "w' = channel_finish pf st"
      have i: "idle rec" using idle_new unfolding rec by (simp add: idle_def)
      have "files w1 = files w" using pf by (metis portForward_files(1) snd_conv)
      then have "pipeRec st = rec" "files (pipeWorld st) = files w"
        using pipe_idle[OF np, of "\<lparr>pipeRec = rec, pipeCount = new_counting_channel, pipeWorld = w1,
          toTarget = [], toUser = [], userReplies = [], targetReplies = []\<rparr>" lib "piped peers"] i st by simp_all
      then show ?thesis
        using i unfolding w' by (auto simp: channel_finish_def Let_def channel_Close_def idle_def split: option.splits)
    qed
  qed (use assms in \<open>auto simp: handleChannel_def channel_start_def Let_def split: if_splits option.splits prod.splits\<close>)
next
  fix st
  assume np: "\<not> PermitsPTY (pxRbac p)" and "out = Proxied st"
  then show "\<forall>req \<in> set (toTarget st). ReqType req \<noteq> ''pty-req''"
    using assms toTarget_permitted by (auto simp: permitsRequest_def)
qed

definition demo_lib :: wire_lib where
  "demo_lib = \<lparr>unmarshal_string = \<lambda>s. Inr (drop 4 s),
     unmarshal_direct_tcpip = \<lambda>s. if s = [] then Inl (Msg ''short'') else Inr \<lparr>DestHost = s, DestPort = 5432, OriginHost = ''127.0.0.1'', OriginPort = 40000\<rparr>,
     unmarshal_pty = \<lambda>s. Inr \<lparr>Cols = 80, Rows = 24\<rparr>\<rparr>"

definition demo_proxier :: "string list \<Rightarrow> proxier" where
  "demo_proxier exts = \<lparr>pxRbac = new_enforcer (Some \<lparr>CriticalOptions = Map.empty, Extensions = map_of (map (\<lambda>e. (e, [])) exts)\<rparr>),
     pxSink = Some (LocalDirSink demo_sink), pxUser = ''u'', pxHost = ''db'', pxAudit = Some (JournalSink (\<lambda>_. None)),
     pxSessionID = ''s-1'', pxAttr = demo_attr\<rparr>"

definition demo_forward :: new_channel where
  "demo_forward = \<lparr>ChannelType = ''direct-tcpip'', ExtraData = ''pg''\<rparr>"

definition demo_peers :: channel_peers where
  "demo_peers = \<lparr>openAnswer = \<lambda>_ _. None, acceptAnswer = None, piped = [DataFromUser 10, DataToUser ''abc'' 3, DataFromUser 5]\<rparr>"

lemma demo_handle:
  "\<exists>st w'. handleChannel (demo_proxier [extPermitPortForwarding]) demo_lib demo_forward demo_peers demo_world = (Proxied st, w')"
  by (simp add: handleChannel_def channel_start_def demo_forward_def demo_peers_def PermitsPortForwarding_def hasExtension_def enforcer_perms_def
      demo_proxier_def new_enforcer_def Let_def split: prod.splits)

theorem channel_gates_witness:
  "\<exists>out w'. handleChannel (demo_proxier []) demo_lib demo_forward demo_peers demo_world = (out, w') \<and>
     out = Rejected Prohibited ''port forwarding not permitted by cert'' False \<and> w' = demo_world"
proof -
  obtain out w' where h: "handleChannel (demo_proxier []) demo_lib demo_forward demo_peers demo_world = (out, w')"
    by (cases "handleChannel (demo_proxier []) demo_lib demo_forward demo_peers demo_world")
  have "ChannelType demo_forward = ''direct-tcpip''" "\<not> PermitsPortForwarding (pxRbac (demo_proxier []))"
    by (simp_all add: demo_forward_def demo_proxier_def PermitsPortForwarding_def hasExtension_def enforcer_perms_def new_enforcer_def)
  with channel_gates[OF h] h show ?thesis by blast
qed

text \<open>
  C22. Every permitted port forward is audited as a pair. Its first entry is port_forward.opened, its last is
  port_forward.closed, both with the session's id and the forward's destination, with nothing but
  file-transfer entries between them; the closing entry reports the bytes read from and written to the
  user's side, summed over all traffic in 64-bit arithmetic.\<close>
theorem port_forward_pair_audited:
  assumes "handleChannel p lib ch peers w = (Proxied st, w')" and "ChannelType ch = ''direct-tcpip''"
    and "parseDirectTCPIPRequest lib (ExtraData ch) = Inr req" and "pxAudit p = Some (JournalSink f)"
  shows "PermitsPortForwarding (pxRbac p) \<and>
    (\<exists>e1 mid e2 k. published w' = published w @ e1 # mid @ [e2] \<and>
       Action e1 = ActionPortForwardOpened \<and> Action e2 = ActionPortForwardClosed \<and> only_subsystem p mid \<and>
       SessionID e1 = pxSessionID p \<and> SessionID e2 = pxSessionID p \<and>
       Target e1 = forward_target req \<and> Target e2 = forward_target req \<and>
       Metadata e2 = json_enc (json_map (forward_json req @
         [(''bytes_in'', JInt (wrap64 (bytes_from_user (piped peers)))),
          (''bytes_out'', JInt (wrap64 (bytes_to_user (piped peers)))), (''duration_seconds'', JMicros k)])))"
  using assms(1)
proof (rule handleChannel_Proxied)
  fix pf w1 rec
  assume perm: "ChannelType ch = ''direct-tcpip'' \<Longrightarrow> PermitsPortForwarding (pxRbac p)"
    and pf: "portForward_Open (channel_auditor p lib ch) w = (pf, w1)"
    and rec: "rec = (if ChannelType ch = ''session'' then
       map_option (\<lambda>s. newChannelRecorder s (pxSessionID p) (pxUser p) (pxHost p) (pxAttr p) (pxAudit p)) (pxSink p) else None)"
    and st: "st = pipeChannel p lib (piped peers) \<lparr>pipeRec = rec, pipeCount = new_counting_channel, pipeWorld = w1,
          toTarget = [], toUser = [], userReplies = [], targetReplies = []\<rparr>"
    and w': "w' = channel_finish pf st"
  let ?a = "\<lparr>pfSink = pxAudit p, pfSessionID = pxSessionID p, pfAttr = pxAttr p, pfReq = req, pfOpenedAt = 0, pfEmitOpened = False\<rparr>"
  let ?st0 = "\<lparr>pipeRec = rec, pipeCount = new_counting_channel, pipeWorld = w1,
          toTarget = [], toUser = [], userReplies = [], targetReplies = []\<rparr>"
  have ca: "channel_auditor p lib ch = Some ?a" using assms(2,3) by (simp add: channel_auditor_def)
  have r: "rec = None" "pipeRec st = None" using rec assms(2) st pipe_no_recorder[of ?st0] by auto
  obtain a' e1 where o: "pf = Some a'" "published w1 = published w @ [e1]" "Action e1 = ActionPortForwardOpened"
    "SessionID e1 = pxSessionID p" "Target e1 = forward_target req" and a': "pfSessionID a' = pxSessionID p" "pfReq a' = req"
    "pfSink a' = Some (JournalSink f)" "pfEmitOpened a'"
    using portForward_pair[of ?a f w pf w1] pf ca assms(4) by auto
  obtain mid where mid: "published (pipeWorld st) = published w1 @ mid" "only_subsystem p mid"
    using pipe_published[of p lib "piped peers" ?st0] st by auto
  have z: "in_int64 0" by (simp add: int64_defs)
  have cnt: "bytesRead (pipeCount st) = wrap64 (bytes_from_user (piped peers))"
    "bytesWritten (pipeCount st) = wrap64 (bytes_to_user (piped peers))"
    using pipe_counts[of ?st0 p lib "piped peers"] st z by (simp_all add: new_counting_channel_def)
  have w2: "w' = portForward_Close (Some a') (wrap64 (bytes_from_user (piped peers))) (wrap64 (bytes_to_user (piped peers))) (pipeWorld st)"
    using w' r(2) o(1) cnt by (simp add: channel_finish_def Let_def)
  show ?thesis
    using portForward_Close_published[OF a'(3,4), of "wrap64 (bytes_from_user (piped peers))"
        "wrap64 (bytes_to_user (piped peers))" "pipeWorld st", folded w2] mid o perm assms(2) a'(1,2)
    by auto
qed

theorem port_forward_pair_audited_witness:
  "\<exists>w' e1 mid e2. published w' = published demo_world @ e1 # mid @ [e2] \<and>
     Action e1 = ActionPortForwardOpened \<and> Action e2 = ActionPortForwardClosed \<and>
     Target e2 = forward_target \<lparr>DestHost = ''pg'', DestPort = 5432, OriginHost = ''127.0.0.1'', OriginPort = 40000\<rparr>"
proof -
  obtain st w' where h: "handleChannel (demo_proxier [extPermitPortForwarding]) demo_lib demo_forward demo_peers demo_world = (Proxied st, w')"
    using demo_handle by blast
  have "ChannelType demo_forward = ''direct-tcpip''" "parseDirectTCPIPRequest demo_lib (ExtraData demo_forward) =
      Inr \<lparr>DestHost = ''pg'', DestPort = 5432, OriginHost = ''127.0.0.1'', OriginPort = 40000\<rparr>"
    "pxAudit (demo_proxier [extPermitPortForwarding]) = Some (JournalSink (\<lambda>_. None))"
    by (simp_all add: demo_forward_def parseDirectTCPIPRequest_def demo_lib_def demo_proxier_def)
  from port_forward_pair_audited[OF h this] show ?thesis by blast
qed

lemma StartIfNeeded_taken:
  assumes "crRec r = None" "\<not> crClosed r" "crSink r = LocalDirSink s" "crSessionID r \<noteq> []"
    and taken: "node_at (files w) (cast_path (sink_root s) (crSessionID r) (clock w (ticks w))) = Some (FFile b)"
  shows "\<exists>e r1 w1. StartIfNeeded x y r w = (Some e, r1, w1) \<and> crRec r1 = None \<and> \<not> crClosed r1 \<and> crCast r1 = crCast r \<and>
    (\<forall>q c. node_at (files w) q = Some (FFile c) \<longrightarrow> node_at (files w1) q = Some (FFile c)) \<and> journal w1 = journal w"
proof -
  let ?t = "clock w (ticks w)" and ?w2 = "w\<lparr>ticks := Suc (ticks w)\<rparr>"
  let ?m = "\<lparr>castSessionID = crSessionID r, castUser = crUser r, castTarget = crHost r, castStarted = Some ?t\<rparr>"
  obtain res w3 where op: "OpenCast (LocalDirSink s) ?m ?w2 = (res, w3)" by (cases "OpenCast (LocalDirSink s) ?m ?w2")
  have "\<exists>e. res = Inl e"
  proof (rule ccontr)
    assume "\<not> (\<exists>e. res = Inl e)"
    with op[unfolded OpenCast.simps] show False
    proof (cases rule: LocalDirSink_cases)
      case (made d f f' p t)
      have "p = cast_path (sink_root s) (crSessionID r) ?t" using made by simp
      then show False using taken MkdirAll_file[of d "files ?w2" None f p b] made(1,2) by (auto dest!: create_excl_fresh)
    qed auto
  qed
  then obtain e where e: "res = Inl e" by blast
  have "StartIfNeeded x y r w = (Some e, r\<lparr>crSessionID := crSessionID r, crStartedAt := ?t\<rparr>, w3)"
    using assms(1-4) op e by (simp add: StartIfNeeded_def Now_def del: OpenCast.simps)
  then show ?thesis
    using assms(1,2) sinks.keeps_files[OF op] sinks.keeps_journal[OF op] by simp
qed

lemma cr_run_idle:
  assumes "crRec r = None" "list_all (\<lambda>op. \<forall>x y. op \<noteq> CStart x y) ops"
  shows "snd (cr_run ops (r, w)) = w"
  using assms
proof (induction ops arbitrary: r)
  case (Cons op ops)
  then show ?case
    by (cases op) (auto simp: recordingTee_Write_def writeOutput_def channel_Resize_def channel_Close_def Let_def split: if_splits)
qed simp

text \<open>
  C23. A cast is never overwritten, at the price of the second one. When the file a recording would be
  written to exists, as it does for a second PTY channel of the same session on the same day, the recorder
  does not start: existing files keep their contents, the channel's output is not recorded, and its close
  announces nothing.\<close>
theorem second_recording_refused:
  assumes "crRec r = None" and "\<not> crClosed r" and "crSink r = LocalDirSink s" and "crSessionID r \<noteq> []"
    and "node_at (files w) (cast_path (sink_root s) (crSessionID r) (clock w (ticks w))) = Some (FFile b)"
    and "list_all (\<lambda>op. \<forall>x y. op \<noteq> CStart x y) ops"
  shows "published (snd (cr_run (CStart x y # ops) (r, w))) = published w \<and>
         (\<forall>q c. node_at (files w) q = Some (FFile c) \<longrightarrow>
                node_at (files (snd (cr_run (CStart x y # ops) (r, w)))) q = Some (FFile c))"
proof -
  obtain e r1 w1 where st: "StartIfNeeded x y r w = (Some e, r1, w1)" "crRec r1 = None"
    "\<forall>q c. node_at (files w) q = Some (FFile c) \<longrightarrow> node_at (files w1) q = Some (FFile c)" "journal w1 = journal w"
    using StartIfNeeded_taken[OF assms(1-5)] by blast
  have "snd (cr_run (CStart x y # ops) (r, w)) = w1" using cr_run_idle[OF st(2) assms(6)] st(1) by simp
  then show ?thesis using st(3,4) by (simp add: published_def)
qed

theorem second_recording_refused_witness:
  "let w = demo_world\<lparr>files := set_node demo_path (FFile ''first'') demo_dirs\<rparr>
   in published (snd (cr_run [CStart 80 24, COut ''x'' 1, CClose] (demo_cr, w))) = published w"
proof -
  let ?w = "demo_world\<lparr>files := set_node demo_path (FFile ''first'') demo_dirs\<rparr>"
  have r: "crRec demo_cr = None" "\<not> crClosed demo_cr" "crSink demo_cr = LocalDirSink demo_sink" "crSessionID demo_cr \<noteq> []"
    by (simp_all add: demo_cr_def newChannelRecorder_def)
  have "castSessionID demo_meta = crSessionID demo_cr" "clock ?w (ticks ?w) = 1700000000000000000"
    by (simp_all add: demo_meta_def demo_cr_def newChannelRecorder_def demo_world_def)
  then have "node_at (files ?w) (cast_path (sink_root demo_sink) (crSessionID demo_cr) (clock ?w (ticks ?w))) = Some (FFile ''first'')"
    using demo_cast_path by simp
  from second_recording_refused[OF r this, of "[COut ''x'' 1, CClose]" 80 24] show ?thesis by (simp add: Let_def)
qed

text \<open>
  C24. The exit status is not lost. In every interleaving of the four copy loops, as long as the user's
  direction has not ended, the two channels are closed only after every request the target sent, such as
  its exit-status, has been forwarded to the user, in order.\<close>
theorem exit_status_before_close:
  assumes "pipe_reachable s" and "closedBoth s" and "\<not> (uData s \<and> uReqs s)"
  shows "delivered s = sent s \<and> pending s = [] \<and> tData s"
  using pipe_reachable_inv[OF assms(1)] assms(2,3) by (auto simp: pipe_inv_def)

theorem exit_status_before_close_witness:
  "\<exists>(s :: pipe_sys) r. sent s = [r] \<and> delivered s = sent s \<and> pending s = [] \<and> tData s"
proof -
  let ?r = "\<lparr>ReqType = ''exit-status'', WantReply = False, Payload = []\<rparr>"
  let ?s1 = "pipe_init\<lparr>sent := [?r], pending := [?r]\<rparr>"
  let ?s2 = "?s1\<lparr>pending := [], delivered := [?r]\<rparr>"
  let ?s3 = "?s2\<lparr>tData := True\<rparr>"
  let ?s4 = "?s3\<lparr>tReqs := True\<rparr>"
  have 1: "pipe_move pipe_init ?s1" using arrive[of pipe_init ?r] by (simp add: pipe_init_def)
  have 2: "pipe_move ?s1 ?s2" using forward[of ?s1 ?r "[]"] by (simp add: pipe_init_def)
  have 3: "pipe_move ?s2 ?s3" by (rule t_data)
  have 4: "pipe_move ?s3 ?s4" by (rule t_reqs) simp
  have 5: "pipe_move ?s4 (?s4\<lparr>closedBoth := True\<rparr>)" by (rule close_t) simp_all
  have "pipe_reachable (?s4\<lparr>closedBoth := True\<rparr>)"
    by (rule move[OF move[OF move[OF move[OF move[OF start 1] 2] 3] 4] 5])
  note e = exit_status_before_close[OF this]
  have u: "closedBoth (?s4\<lparr>closedBoth := True\<rparr>)"
    "\<not> (uData (?s4\<lparr>closedBoth := True\<rparr>) \<and> uReqs (?s4\<lparr>closedBoth := True\<rparr>))" by (simp_all add: pipe_init_def)
  show ?thesis by (rule exI[of _ "?s4\<lparr>closedBoth := True\<rparr>"], rule exI[of _ ?r]) (use e[OF u] in simp)
qed

text \<open>
  Terminal sizes. A window-change payload of at least eight bytes is decoded big-endian, whatever
  follows, and refused exactly when a dimension is zero; a pty-req always yields dimensions between 1 and
  2^32 - 1, zero being replaced by 80 and 24. A recorder therefore never refuses them.\<close>
theorem terminal_sizes:
  "parseWindowChange (be_bytes c @ be_bytes r @ rest) =
     (if c = 0 \<or> r = 0
      then Inl (Msg (''window-change has zero dimensions '' @ fmt_int (uint c) @ ''x'' @ fmt_int (uint r)))
      else Inr (uint c, uint r)) \<and>
   (case parsePTYReq lib payload of
      Inl _ \<Rightarrow> \<not> is_ok (unmarshal_pty lib payload)
    | Inr (x, y) \<Rightarrow> 1 \<le> x \<and> x < 2 ^ 32 \<and> 1 \<le> y \<and> y < 2 ^ 32)"
proof
  have "length (be_bytes v) = 4" for v by (simp add: be_bytes_def)
  then show "parseWindowChange (be_bytes c @ be_bytes r @ rest) =
     (if c = 0 \<or> r = 0
      then Inl (Msg (''window-change has zero dimensions '' @ fmt_int (uint c) @ ''x'' @ fmt_int (uint r)))
      else Inr (uint c, uint r))"
    by (simp add: parseWindowChange_def be32_be_bytes Let_def)
  have d: "1 \<le> (if uint v \<le> 0 then k else uint v) \<and> (if uint v \<le> 0 then k else uint v) < 2 ^ 32"
    if "1 \<le> k" "k < 2 ^ 32" for v :: "32 word" and k
  proof (cases "uint v \<le> 0")
    case False
    then have "1 \<le> uint v" by linarith
    moreover have "uint v < 2 ^ 32" using unsigned_less[of v, where ?'a = int] by simp
    ultimately show ?thesis unfolding if_not_P[OF False] by (rule conjI)
  qed (use that in simp)
  show "case parsePTYReq lib payload of
      Inl _ \<Rightarrow> \<not> is_ok (unmarshal_pty lib payload)
    | Inr (x, y) \<Rightarrow> 1 \<le> x \<and> x < 2 ^ 32 \<and> 1 \<le> y \<and> y < 2 ^ 32"
    using d[of 80] d[of 24] by (simp add: parsePTYReq_def Let_def del: uint_le_0_iff split: sum.split)
qed

end
