(* ===== verification/Revcheck.thy ===== *)
theory Revcheck
  imports Rbac Go_Json_Read
begin

text \<open>
  Revocation polling, \<^verbatim>\<open>internal/proxyd/revcheck/revcheck.go\<close>: the snapshot of revoked certificates
  fetched from certd, kept in two maps, and consulted at every handshake. The lemmas show that the
  maps answer exactly as the last snapshot that was fetched, and that failed fetches never admit a
  certificate that was refused before.
\<close>

section \<open>Data\<close>

text \<open>What the proxy reads of a \<^verbatim>\<open>*gossh.Certificate\<close>.\<close>

record certificate =
  Serial :: "64 word"
  KeyId :: string
  ValidPrincipals :: "string list"
  SignatureKey :: string
  CertPermissions :: permissions

record revocation =
  rev_serial :: "64 word"
  rev_key_id :: string
  rev_reason :: string
  rev_revoker :: string
  rev_revoked :: time

record snapshot =
  captured_at :: time
  snap_entries :: "revocation list"

text \<open>A zero \<^verbatim>\<open>time.Time\<close> is \<^const>\<open>None\<close>. The HTTP client is reached through \<open>fetch\<close> below.\<close>

record polling_checker =
  pc_url :: string
  pc_period :: duration
  bySerial :: "64 word \<rightharpoonup> revocation"
  byKeyID :: "string \<rightharpoonup> revocation"
  lastFetchTime :: "time option"
  lastFetchErr :: "go_error option"

record revcheck_config =
  rc_url :: string
  rc_poll_interval :: duration
  rc_http_timeout :: duration

definition DefaultPollInterval :: duration where "DefaultPollInterval = 30 * second"
definition DefaultHTTPTimeout :: duration where "DefaultHTTPTimeout = 5 * second"

section \<open>Operations\<close>

definition PermissiveChecker :: "certificate option \<Rightarrow> bool" where
  "PermissiveChecker cert = False"

text \<open>The checker and the timeout of its HTTP client.\<close>

definition NewPollingChecker :: "revcheck_config \<Rightarrow> (polling_checker \<times> duration) result" where
  "NewPollingChecker cfg =
     (if rc_url cfg = [] then Inl (Msg ''URL is required'')
      else Inr (\<lparr>pc_url = rc_url cfg,
                 pc_period = (if rc_poll_interval cfg = 0 then DefaultPollInterval
                              else rc_poll_interval cfg),
                 bySerial = Map.empty, byKeyID = Map.empty,
                 lastFetchTime = None, lastFetchErr = None\<rparr>,
                if rc_http_timeout cfg = 0 then DefaultHTTPTimeout else rc_http_timeout cfg))"

definition IsRevoked :: "polling_checker \<Rightarrow> certificate option \<Rightarrow> bool" where
  "IsRevoked p cert =
     (case cert of None \<Rightarrow> False
      | Some c \<Rightarrow>
          if Serial c \<noteq> 0 \<and> bySerial p (Serial c) \<noteq> None then True
          else if KeyId c \<noteq> [] \<and> byKeyID p (KeyId c) \<noteq> None then True
          else False)"

definition Healthy :: "polling_checker \<Rightarrow> time option \<times> go_error option \<times> bool" where
  "Healthy p = (lastFetchTime p, lastFetchErr p, lastFetchErr p = None \<and> lastFetchTime p \<noteq> None)"

text \<open>
  One HTTP exchange as the client sees it: the request may not build, the round trip may fail, the
  body may not read; otherwise there is a status and a body. The body is cut at 16 MiB.
\<close>

datatype http_exchange =
    RequestError go_error
  | TransportError go_error
  | BodyError go_error
  | Response nat string

definition body_limit :: nat where "body_limit = 16 * 2 ^ 20"

text \<open>\<^verbatim>\<open>json.Unmarshal\<close> into a \<^verbatim>\<open>Snapshot\<close>, by the struct tags; the entries are a slice while they are decoded.\<close>

definition zero_revocation :: revocation where
  "zero_revocation = \<lparr>rev_serial = 0, rev_key_id = [], rev_reason = [], rev_revoker = [], rev_revoked = zero_time\<rparr>"

definition revocation_fields :: "revocation field list" where
  "revocation_fields =
     [scalar_field read_uint64 ''serial'' rev_serial (\<lambda>x r. r\<lparr>rev_serial := x\<rparr>),
      scalar_field read_str ''key_id'' rev_key_id (\<lambda>x r. r\<lparr>rev_key_id := x\<rparr>),
      scalar_field read_str ''reason'' rev_reason (\<lambda>x r. r\<lparr>rev_reason := x\<rparr>),
      scalar_field read_str ''revoker'' rev_revoker (\<lambda>x r. r\<lparr>rev_revoker := x\<rparr>),
      scalar_field read_time ''revoked_at'' rev_revoked (\<lambda>x r. r\<lparr>rev_revoked := x\<rparr>)]"

record snapshot_slice =
  sl_captured_at :: time
  sl_entries :: "revocation slice"

definition snapshot_fields :: "snapshot_slice field list" where
  "snapshot_fields =
     [scalar_field read_time ''captured_at'' sl_captured_at (\<lambda>x r. r\<lparr>sl_captured_at := x\<rparr>),
      scalar_field (read_slice (fill_struct revocation_fields) zero_revocation) ''entries'' sl_entries (\<lambda>x r. r\<lparr>sl_entries := x\<rparr>)]"

definition decode_snapshot :: "string \<Rightarrow> snapshot option" where
  "decode_snapshot body =
     map_option (\<lambda>d. \<lparr>captured_at = sl_captured_at d, snap_entries = slice_list (sl_entries d)\<rparr>)
       (Unmarshal snapshot_fields \<lparr>sl_captured_at = zero_time, sl_entries = ([], 0)\<rparr> body)"

text \<open>The text of a decoding error is the parameter \<open>jerr\<close>.\<close>

definition fetch :: "(string \<Rightarrow> go_error) \<Rightarrow> http_exchange \<Rightarrow> snapshot result" where
  "fetch jerr x =
     (case x of
        RequestError e \<Rightarrow> Inl e
      | TransportError e \<Rightarrow> Inl e
      | BodyError e \<Rightarrow> Inl (Wrap ''read body'' e)
      | Response status raw \<Rightarrow>
          (let body = take body_limit raw in
           if status div 100 \<noteq> 2
           then Inl (Msg (''certd revocations returned '' @ digits status @ '': '' @ TrimSpace body))
           else case decode_snapshot body of None \<Rightarrow> Inl (Wrap ''decode snapshot'' (jerr body)) | Some s \<Rightarrow> Inr s))"

fun index_serials :: "revocation list \<Rightarrow> (64 word \<rightharpoonup> revocation) \<Rightarrow> (64 word \<rightharpoonup> revocation)" where
  "index_serials [] m = m"
| "index_serials (e # es) m =
     index_serials es (if rev_serial e \<noteq> 0 then m(rev_serial e \<mapsto> e) else m)"

fun index_key_ids :: "revocation list \<Rightarrow> (string \<rightharpoonup> revocation) \<Rightarrow> (string \<rightharpoonup> revocation)" where
  "index_key_ids [] m = m"
| "index_key_ids (e # es) m =
     index_key_ids es (if rev_key_id e \<noteq> [] then m(rev_key_id e \<mapsto> e) else m)"

definition refresh :: "snapshot result \<Rightarrow> time \<Rightarrow> polling_checker \<Rightarrow> polling_checker" where
  "refresh fetched now p =
     (case fetched of
        Inl err \<Rightarrow> p\<lparr>lastFetchErr := Some err\<rparr>
      | Inr snap \<Rightarrow>
          p\<lparr>bySerial := index_serials (snap_entries snap) Map.empty,
            byKeyID := index_key_ids (snap_entries snap) Map.empty,
            lastFetchTime := Some now, lastFetchErr := None\<rparr>)"

text \<open>
  \<^verbatim>\<open>Run\<close>: one refresh at once, then one per tick; \<open>ticks\<close> lists what the fetches return and when.
  \<^verbatim>\<open>time.NewTicker\<close> panics for a period that is not positive, after the first refresh.
\<close>

definition poll_runs :: "(snapshot result \<times> time) list \<Rightarrow> polling_checker \<Rightarrow> polling_checker" where
  "poll_runs ticks p = foldl (\<lambda>q (f, now). refresh f now q) p ticks"

definition Run :: "snapshot result \<times> time \<Rightarrow> (snapshot result \<times> time) list \<Rightarrow> polling_checker
    \<Rightarrow> polling_checker \<times> bool" where
  "Run first ticks p =
     (let p1 = refresh (fst first) (snd first) p in
      if pc_period p1 \<le> 0 then (p1, True) else (poll_runs ticks p1, False))"

section \<open>Lemmas\<close>

text \<open>What a snapshot revokes: the specification the maps implement.\<close>

definition snapshot_revokes :: "snapshot \<Rightarrow> certificate \<Rightarrow> bool" where
  "snapshot_revokes snap c \<longleftrightarrow>
     (\<exists>e \<in> set (snap_entries snap).
        (rev_serial e \<noteq> 0 \<and> rev_serial e = Serial c) \<or> (rev_key_id e \<noteq> [] \<and> rev_key_id e = KeyId c))"

lemma index_serials_None:
  "index_serials es m k = None \<longleftrightarrow> m k = None \<and> (\<forall>e \<in> set es. rev_serial e \<noteq> 0 \<longrightarrow> rev_serial e \<noteq> k)"
  by (induction es arbitrary: m) auto

lemma index_key_ids_None:
  "index_key_ids es m k = None \<longleftrightarrow> m k = None \<and> (\<forall>e \<in> set es. rev_key_id e \<noteq> [] \<longrightarrow> rev_key_id e \<noteq> k)"
  by (induction es arbitrary: m) auto

lemma IsRevoked_refresh_ok:
  "IsRevoked (refresh (Inr snap) now p) (Some c) \<longleftrightarrow> snapshot_revokes snap c"
proof -
  have "bySerial (refresh (Inr snap) now p) (Serial c) = None \<longleftrightarrow>
      (\<forall>e \<in> set (snap_entries snap). rev_serial e \<noteq> 0 \<longrightarrow> rev_serial e \<noteq> Serial c)"
    and "byKeyID (refresh (Inr snap) now p) (KeyId c) = None \<longleftrightarrow>
      (\<forall>e \<in> set (snap_entries snap). rev_key_id e \<noteq> [] \<longrightarrow> rev_key_id e \<noteq> KeyId c)"
    by (simp_all add: refresh_def index_serials_None index_key_ids_None)
  then show ?thesis unfolding IsRevoked_def snapshot_revokes_def by auto
qed

lemma IsRevoked_refresh_err: "IsRevoked (refresh (Inl e) now p) c = IsRevoked p c"
  by (simp add: refresh_def IsRevoked_def split: option.splits)

fun last_snapshot :: "(snapshot result \<times> time) list \<Rightarrow> snapshot option" where
  "last_snapshot [] = None"
| "last_snapshot ((f, _) # ts) =
     (case last_snapshot ts of Some s \<Rightarrow> Some s
      | None \<Rightarrow> (case f of Inl _ \<Rightarrow> None | Inr s \<Rightarrow> Some s))"

lemma poll_runs_Cons [simp]: "poll_runs ((f, now) # ts) p = poll_runs ts (refresh f now p)"
  by (simp add: poll_runs_def)

lemma poll_runs_Nil [simp]: "poll_runs [] p = p"
  by (simp add: poll_runs_def)

lemma IsRevoked_poll_runs:
  "IsRevoked (poll_runs ts p) (Some c) =
     (case last_snapshot ts of None \<Rightarrow> IsRevoked p (Some c) | Some s \<Rightarrow> snapshot_revokes s c)"
proof (induction ts arbitrary: p)
  case Nil
  then show ?case by simp
next
  case (Cons t ts)
  obtain f now where "t = (f, now)" by fastforce
  with Cons show ?case
    by (cases f) (auto simp: IsRevoked_refresh_ok IsRevoked_refresh_err split: option.splits)
qed

lemma refresh_period [simp]: "pc_period (refresh f now p) = pc_period p"
  by (simp add: refresh_def split: sum.splits)

subsection \<open>Decoding a snapshot\<close>

text \<open>The JSON of a snapshot by its struct tags; it is read back when its text is valid UTF-8 and its times have a JSON form.\<close>

definition revocation_pairs :: "revocation \<Rightarrow> (string \<times> json) list" where
  "revocation_pairs e =
     (if rev_serial e = 0 then [] else [(''serial'', JInt (uint (rev_serial e)))]) @
     omitempty ''key_id'' (rev_key_id e) @ omitempty ''reason'' (rev_reason e) @ omitempty ''revoker'' (rev_revoker e) @
     [(''revoked_at'', JStr (fmt_rfc3339 (rev_revoked e)))]"

definition snapshot_json :: "snapshot \<Rightarrow> json" where
  "snapshot_json s = JObj
     [(''captured_at'', JStr (fmt_rfc3339 (captured_at s))),
      (''entries'', JArr (map (\<lambda>e. JObj (revocation_pairs e)) (snap_entries s)))]"

definition wire_snapshot :: "snapshot \<Rightarrow> bool" where
  "wire_snapshot s \<longleftrightarrow> json_time (captured_at s) \<and>
     list_all (\<lambda>e. json_time (rev_revoked e) \<and> valid_utf8 (rev_key_id e) \<and> valid_utf8 (rev_reason e) \<and> valid_utf8 (rev_revoker e))
       (snap_entries s)"

lemma ParseUint_fmt_int: "ParseUint (fmt_int (uint (w :: 64 word))) = Some w"
  using uint_lt2p[of w] all_digits[of "nat (uint w)"] by (simp add: ParseUint_def fmt_int_def)

lemma revocation_field_rules:
  "map_of revocation_fields ''key_id'' = Some (snd (scalar_field read_str ''key_id'' rev_key_id (\<lambda>x r. r\<lparr>rev_key_id := x\<rparr>)))"
  "map_of revocation_fields ''reason'' = Some (snd (scalar_field read_str ''reason'' rev_reason (\<lambda>x r. r\<lparr>rev_reason := x\<rparr>)))"
  "map_of revocation_fields ''revoker'' = Some (snd (scalar_field read_str ''revoker'' rev_revoker (\<lambda>x r. r\<lparr>rev_revoker := x\<rparr>)))"
  by (simp_all add: revocation_fields_def scalar_field_def)

lemma snapshot_keys [simp]:
  "repair_utf8 ''serial'' = ''serial''" "repair_utf8 ''key_id'' = ''key_id''" "repair_utf8 ''reason'' = ''reason''"
  "repair_utf8 ''revoker'' = ''revoker''" "repair_utf8 ''revoked_at'' = ''revoked_at''"
  "repair_utf8 ''captured_at'' = ''captured_at''" "repair_utf8 ''entries'' = ''entries''"
  by (simp_all add: repair_ascii is_ascii_def)

lemma fill_serial:
  "rev_serial r = 0 \<Longrightarrow> fill_pairs revocation_fields ((if n = 0 then [] else [(''serial'', JInt (uint n))]) @ rest) r =
     fill_pairs revocation_fields rest (r\<lparr>rev_serial := n\<rparr>)"
  by (cases r) (simp add: find_field_def revocation_fields_def scalar_field_def ParseUint_fmt_int)

lemma fill_revocation:
  assumes "json_time (rev_revoked e)" "valid_utf8 (rev_key_id e)" "valid_utf8 (rev_reason e)" "valid_utf8 (rev_revoker e)"
  shows "fill_struct revocation_fields (scanned (JObj (revocation_pairs e))) zero_revocation = Some e"
  unfolding fill_struct_scanned revocation_pairs_def using assms
  by (simp add: fill_serial fill_omitempty[OF revocation_field_rules(1)] fill_omitempty[OF revocation_field_rules(2)]
      fill_omitempty[OF revocation_field_rules(3)] zero_revocation_def repair_utf8_valid)
     (simp add: find_field_def revocation_fields_def scalar_field_def read_time_scanned del: scanned.simps)

lemma snapshot_field_rules:
  "find_field snapshot_fields ''captured_at'' = Some (snd (scalar_field read_time ''captured_at'' sl_captured_at (\<lambda>x r. r\<lparr>sl_captured_at := x\<rparr>)))"
  "find_field snapshot_fields ''entries'' = Some (snd (scalar_field (read_slice (fill_struct revocation_fields) zero_revocation)
      ''entries'' sl_entries (\<lambda>x r. r\<lparr>sl_entries := x\<rparr>)))"
  by (simp_all add: find_field_def snapshot_fields_def scalar_field_def)

lemma decode_snapshot_json:
  assumes "wire_snapshot s"
  shows "decode_snapshot (json_enc (snapshot_json s)) = Some s"
proof -
  let ?es = "snap_entries s" and ?j = "\<lambda>e. scanned (JObj (revocation_pairs e))"
  have es: "read_elements (fill_struct revocation_fields) zero_revocation (map ?j ?es) [] = Some ?es"
    using read_elements_map[of ?es "fill_struct revocation_fields" ?j zero_revocation "\<lambda>e. e"] fill_revocation assms
    by (simp add: wire_snapshot_def list_all_iff del: scanned.simps)
  have "json_time (captured_at s)" using assms by (simp add: wire_snapshot_def)
  then have "fill_pairs snapshot_fields [(''captured_at'', JStr (fmt_rfc3339 (captured_at s))), (''entries'', JArr (map (\<lambda>e. JObj (revocation_pairs e)) ?es))]
      \<lparr>sl_captured_at = zero_time, sl_entries = ([], 0)\<rparr> = Some \<lparr>sl_captured_at = captured_at s, sl_entries = (?es, length ?es)\<rparr>"
    using es by (simp add: snapshot_field_rules scalar_field_def read_time_scanned comp_def del: scanned.simps(3,5))
  note filled = this
  have "nested max_depth (snapshot_json s)"
    by (auto simp: snapshot_json_def max_depth_def revocation_pairs_def omitempty_def split: if_splits)
  then show ?thesis
    unfolding decode_snapshot_def snapshot_json_def by (simp only: Unmarshal_enc filled) (simp add: slice_list_def)
qed

section \<open>Properties\<close>

definition demo_snapshot :: snapshot where
  "demo_snapshot = \<lparr>captured_at = 0, snap_entries =
     [\<lparr>rev_serial = 42, rev_key_id = [], rev_reason = ''lost'', rev_revoker = ''ops'', rev_revoked = 0\<rparr>]\<rparr>"

definition demo_user_cert :: certificate where
  "demo_user_cert = \<lparr>Serial = 42, KeyId = ''user:alice'', ValidPrincipals = [''alice''],
     SignatureKey = ''ca'', CertPermissions = \<lparr>CriticalOptions = Map.empty, Extensions = Map.empty\<rparr>\<rparr>"

definition demo_checker :: polling_checker where
  "demo_checker = \<lparr>pc_url = ''https://certd'', pc_period = 30 * second, bySerial = Map.empty,
     byKeyID = Map.empty, lastFetchTime = None, lastFetchErr = None\<rparr>"

text \<open>
  C11. Through any run of the poller, a certificate is refused exactly when the last snapshot that
  was fetched lists its non-zero serial or its non-empty key id (before the first one: as the checker
  answered when polling started); fetches that fail in between change no answer.
\<close>

theorem polling_answers_last_snapshot:
  assumes "0 < pc_period p"
  shows "snd (Run first ticks p) = False
    \<and> IsRevoked (fst (Run first ticks p)) (Some c) =
        (case last_snapshot (first # ticks) of None \<Rightarrow> IsRevoked p (Some c) | Some s \<Rightarrow> snapshot_revokes s c)"
proof -
  obtain f now where f: "first = (f, now)" by fastforce
  have "Run first ticks p = (poll_runs (first # ticks) p, False)"
    using assms by (simp add: Run_def f)
  then show ?thesis by (simp only: IsRevoked_poll_runs fst_conv snd_conv)
qed

theorem polling_answers_last_snapshot_witness:
  "IsRevoked (fst (Run (Inr demo_snapshot, 1) [(Inl (Msg ''certd down''), 2)] demo_checker)) (Some demo_user_cert)"
proof -
  have "0 < pc_period demo_checker" by (simp add: demo_checker_def second_def)
  from polling_answers_last_snapshot[OF this, of "(Inr demo_snapshot, 1)" "[(Inl (Msg ''certd down''), 2)]" demo_user_cert]
  show ?thesis by (simp add: snapshot_revokes_def demo_snapshot_def demo_user_cert_def)
qed

text \<open>
  C12. What a fetch does to the checker. However certd answers other than with a decodable 2xx snapshot, the
  checker keeps refusing what it refused, keeps the time of its last good fetch, and reports itself
  unhealthy. A 2xx answer whose body is the JSON of a snapshot of at most 16 MiB is decoded to that snapshot:
  from then on exactly the certificates it lists are refused, and the checker is healthy.
\<close>

theorem fetch_outcomes:
  "((\<forall>status body. x = Response status body \<longrightarrow> status div 100 \<noteq> 2 \<or> decode_snapshot (take body_limit body) = None) \<longrightarrow>
      IsRevoked (refresh (fetch jerr x) now p) c = IsRevoked p c
      \<and> fst (Healthy (refresh (fetch jerr x) now p)) = lastFetchTime p
      \<and> \<not> snd (snd (Healthy (refresh (fetch jerr x) now p))))
   \<and> (x = Response status (json_enc (snapshot_json s)) \<and> status div 100 = 2 \<and>
        length (json_enc (snapshot_json s)) \<le> body_limit \<and> wire_snapshot s \<longrightarrow>
      (IsRevoked (refresh (fetch jerr x) now p) (Some d) \<longleftrightarrow> snapshot_revokes s d)
      \<and> Healthy (refresh (fetch jerr x) now p) = (Some now, None, True))"
proof (intro conjI impI)
  assume fail: "\<forall>status body. x = Response status body \<longrightarrow> status div 100 \<noteq> 2 \<or> decode_snapshot (take body_limit body) = None"
  have "\<exists>e. fetch jerr x = Inl e"
  proof (cases x)
    case (Response status body)
    with fail show ?thesis by (auto simp: fetch_def Let_def)
  qed (simp_all add: fetch_def)
  then obtain e where "fetch jerr x = Inl e" ..
  then show "IsRevoked (refresh (fetch jerr x) now p) c = IsRevoked p c"
    "fst (Healthy (refresh (fetch jerr x) now p)) = lastFetchTime p"
    "\<not> snd (snd (Healthy (refresh (fetch jerr x) now p)))"
    by (simp_all add: IsRevoked_refresh_err) (simp_all add: Healthy_def refresh_def)
next
  assume "x = Response status (json_enc (snapshot_json s)) \<and> status div 100 = 2 \<and>
    length (json_enc (snapshot_json s)) \<le> body_limit \<and> wire_snapshot s"
  then have f: "fetch jerr x = Inr s" using decode_snapshot_json[of s] by (simp add: fetch_def Let_def)
  then show "IsRevoked (refresh (fetch jerr x) now p) (Some d) \<longleftrightarrow> snapshot_revokes s d" by (simp add: IsRevoked_refresh_ok)
  show "Healthy (refresh (fetch jerr x) now p) = (Some now, None, True)" by (simp add: f Healthy_def refresh_def)
qed

definition demo_body :: string where
  "demo_body = json_enc (snapshot_json demo_snapshot)"

theorem fetch_outcomes_witness:
  "IsRevoked (refresh (fetch (\<lambda>_. Msg []) (Response 200 demo_body)) 2 demo_checker) (Some demo_user_cert) \<and>
   IsRevoked (refresh (fetch (\<lambda>_. Msg []) (Response 503 ''busy'')) 3
      (refresh (fetch (\<lambda>_. Msg []) (Response 200 demo_body)) 2 demo_checker)) (Some demo_user_cert)"
proof -
  have "json_time 0" unfolding json_time_def days_of_def civil_def Let_def by simp
  then have "wire_snapshot demo_snapshot"
    by (simp add: wire_snapshot_def demo_snapshot_def ascii_valid is_ascii_def)
  moreover have n: "fmt_rfc3339 0 = ''1970-01-01T00:00:00Z''" "fmt_int 42 = ''42''" by code_simp+
  have "length (json_enc (snapshot_json demo_snapshot)) \<le> 200"
    by (simp add: snapshot_json_def demo_snapshot_def revocation_pairs_def omitempty_def json_quote_def n escape_plain html_safe_def)
  then have "length (json_enc (snapshot_json demo_snapshot)) \<le> body_limit" by (simp add: body_limit_def)
  moreover have "snapshot_revokes demo_snapshot demo_user_cert"
    by (simp add: snapshot_revokes_def demo_snapshot_def demo_user_cert_def)
  ultimately have ok: "IsRevoked (refresh (fetch (\<lambda>_. Msg []) (Response 200 demo_body)) 2 demo_checker) (Some demo_user_cert)"
    using conjunct2[OF fetch_outcomes[of "Response 200 demo_body" "\<lambda>_. Msg []" 2 demo_checker "None" 200 demo_snapshot demo_user_cert]]
    by (simp add: demo_body_def)
  moreover have "IsRevoked (refresh (fetch (\<lambda>_. Msg []) (Response 503 ''busy'')) 3 q) c = IsRevoked q c" for q c
    using conjunct1[OF fetch_outcomes[of "Response 503 ''busy''" "\<lambda>_. Msg []" 3 q c]] by simp
  ultimately show ?thesis by simp
qed

end
