(* ===== verification/Registry.thy ===== *)
theory Registry
  imports Go_Strings
begin

text \<open>
  The tunnel registry, \<^verbatim>\<open>internal/proxyd/routing/registry.go\<close>: the map from host labels to live yamux
  sessions. The theory states what a registry promises its clients as a locale, proves the client
  facts once there, and interprets it on the model's operations; an abstract registry (a map from
  labels to live sessions) is refined; the operations of concurrent connections are a step relation
  with its invariant.
\<close>

section \<open>Data\<close>

text \<open>A \<^verbatim>\<open>*yamux.Session\<close> is its identity.\<close>

type_synonym session = nat

record entry =
  entry_session :: session
  entry_hosts :: "string list"

record registry =
  tunnels :: "(string \<times> entry) list"
  closed :: bool

text \<open>
  What the registry reads of its surroundings: the Unicode case tables and whether a yamux session
  has closed (\<^verbatim>\<open>Session.IsClosed\<close>).
\<close>

record reg_env =
  ulower :: "string \<Rightarrow> string"
  dead :: "session \<Rightarrow> bool"

definition ErrNoTunnel :: go_error where
  "ErrNoTunnel = Sentinel ''no tunnel registered for host''"

definition new_registry :: registry where
  "new_registry = \<lparr>tunnels = [], closed = False\<rparr>"

section \<open>Operations\<close>

definition normalize :: "reg_env \<Rightarrow> string \<Rightarrow> string" where
  "normalize env host = ToLower (ulower env) (TrimSpace host)"

definition isDead :: "reg_env \<Rightarrow> session option \<Rightarrow> bool" where
  "isDead env s = (case s of None \<Rightarrow> True | Some x \<Rightarrow> dead env x)"

definition evictSession :: "(string \<times> entry) list \<Rightarrow> session \<Rightarrow> (string \<times> entry) list" where
  "evictSession m s = filter (\<lambda>he. entry_session (snd he) \<noteq> s) m"

fun normalize_hosts :: "reg_env \<Rightarrow> string list \<Rightarrow> string list result" where
  "normalize_hosts env [] = Inr []"
| "normalize_hosts env (h # hs) =
     (if normalize env h = [] then Inl (Msg ''empty host label'')
      else case normalize_hosts env hs of Inl e \<Rightarrow> Inl e | Inr ns \<Rightarrow> Inr (normalize env h # ns))"

text \<open>The validation loop: it evicts dead sessions as it goes and stops at the first live conflict.\<close>

fun claim_labels ::
  "reg_env \<Rightarrow> session \<Rightarrow> string list \<Rightarrow> (string \<times> entry) list \<Rightarrow> go_error option \<times> (string \<times> entry) list"
where
  "claim_labels env s [] m = (None, m)"
| "claim_labels env s (h # hs) m =
     (case map_of m h of
        None \<Rightarrow> claim_labels env s hs m
      | Some existing \<Rightarrow>
          if entry_session existing = s then claim_labels env s hs m
          else if isDead env (Some (entry_session existing))
          then claim_labels env s hs (evictSession m (entry_session existing))
          else (Some (Msg (''host '' @ h @ '' already registered by a different session'')), m))"

definition Register ::
  "reg_env \<Rightarrow> registry \<Rightarrow> session option \<Rightarrow> string list \<Rightarrow> string list result \<times> registry" where
  "Register env r session hosts =
     (case session of
        None \<Rightarrow> (Inl (Msg ''session is nil''), r)
      | Some s \<Rightarrow>
          if hosts = [] then (Inl (Msg ''at least one host is required''), r)
          else (case normalize_hosts env hosts of
                  Inl e \<Rightarrow> (Inl e, r)
                | Inr normalized \<Rightarrow>
                    if closed r then (Inl (Msg ''registry is closed''), r)
                    else (case claim_labels env s normalized (tunnels r) of
                            (Some e, m) \<Rightarrow> (Inl e, r\<lparr>tunnels := m\<rparr>)
                          | (None, m) \<Rightarrow>
                              (Inr normalized,
                               r\<lparr>tunnels := put_all m normalized
                                   \<lparr>entry_session = s, entry_hosts = normalized\<rparr>\<rparr>))))"

definition Unregister :: "registry \<Rightarrow> session option \<Rightarrow> registry" where
  "Unregister r session =
     (case session of None \<Rightarrow> r
      | Some s \<Rightarrow> r\<lparr>tunnels := filter (\<lambda>he. entry_session (snd he) \<noteq> s) (tunnels r)\<rparr>)"

definition Lookup :: "reg_env \<Rightarrow> registry \<Rightarrow> string \<Rightarrow> session result \<times> registry" where
  "Lookup env r host =
     (case map_of (tunnels r) (normalize env host) of
        None \<Rightarrow> (Inl ErrNoTunnel, r)
      | Some e \<Rightarrow>
          if isDead env (Some (entry_session e))
          then (Inl ErrNoTunnel, Unregister r (Some (entry_session e)))
          else (Inr (entry_session e), r))"

text \<open>\<^verbatim>\<open>Session.Open\<close> of yamux is the parameter \<open>open_stream\<close>; \<open>ctx_err\<close> is \<^verbatim>\<open>ctx.Err()\<close>.\<close>

definition Open ::
  "reg_env \<Rightarrow> (session \<Rightarrow> 'conn result) \<Rightarrow> go_error option \<Rightarrow> registry \<Rightarrow> string
    \<Rightarrow> 'conn result \<times> registry" where
  "Open env open_stream ctx_err r host =
     (case ctx_err of
        Some e \<Rightarrow> (Inl e, r)
      | None \<Rightarrow>
          (case Lookup env r host of
             (Inl e, r') \<Rightarrow> (Inl e, r')
           | (Inr s, r') \<Rightarrow>
               (case open_stream s of
                  Inl e \<Rightarrow> (Inl (Wrap (''open stream on tunnel for '' @ host) e), r')
                | Inr conn \<Rightarrow> (Inr conn, r'))))"

definition Len :: "registry \<Rightarrow> nat" where
  "Len r = length (tunnels r)"

text \<open>\<^verbatim>\<open>Close\<close> returns the registry and the sessions it closes.\<close>

definition Close :: "registry \<Rightarrow> registry \<times> session list" where
  "Close r =
     (if closed r then (r, [])
      else (r\<lparr>tunnels := [], closed := True\<rparr>,
            remdups (map (\<lambda>he. entry_session (snd he)) (tunnels r))))"

section \<open>The invariant\<close>

definition wf_entry :: "reg_env \<Rightarrow> string \<times> entry \<Rightarrow> bool" where
  "wf_entry env he \<longleftrightarrow>
     fst he \<noteq> [] \<and> fst he \<in> range (normalize env) \<and> fst he \<in> set (entry_hosts (snd he))"

definition wf_registry :: "reg_env \<Rightarrow> registry \<Rightarrow> bool" where
  "wf_registry env r \<longleftrightarrow>
     distinct (map fst (tunnels r)) \<and> (\<forall>he \<in> set (tunnels r). wf_entry env he)
     \<and> (closed r \<longrightarrow> tunnels r = [])"

lemma wf_registry_distinct: "wf_registry env r \<Longrightarrow> distinct (map fst (tunnels r))"
  by (simp add: wf_registry_def)

lemma normalize_hosts_Inr:
  "normalize_hosts env hs = Inr ns \<longleftrightarrow> ns = map (normalize env) hs \<and> [] \<notin> set ns"
  by (induction hs arbitrary: ns) (auto split: sum.splits)

lemma evictSession_distinct: "distinct (map fst m) \<Longrightarrow> distinct (map fst (evictSession m s))"
  by (simp add: evictSession_def distinct_keys_filter)

lemma claim_labels_subset:
  "claim_labels env s hs m = (e, m') \<Longrightarrow> set m' \<subseteq> set m \<and> (distinct (map fst m) \<longrightarrow> distinct (map fst m'))"
proof (induction env s hs m rule: claim_labels.induct)
  case (1 env s m)
  then show ?case by simp
next
  case (2 env s h hs m)
  have "set (evictSession m t) \<subseteq> set m" for t by (auto simp: evictSession_def)
  with 2 show ?case
    by (fastforce split: option.splits if_splits intro: evictSession_distinct)
qed

lemma Register_wf: "wf_registry env r \<Longrightarrow> wf_registry env (snd (Register env r s hosts))"
proof -
  assume wf: "wf_registry env r"
  show ?thesis
  proof (cases "\<exists>s' ns. s = Some s' \<and> normalize_hosts env hosts = Inr ns \<and> \<not> closed r \<and> hosts \<noteq> []")
    case False
    then have "snd (Register env r s hosts) = r"
      by (auto simp: Register_def split: option.splits sum.splits)
    with wf show ?thesis by simp
  next
    case True
    then obtain s' ns where s: "s = Some s'" "normalize_hosts env hosts = Inr ns" "\<not> closed r" "hosts \<noteq> []"
      by blast
    obtain e m where c: "claim_labels env s' ns (tunnels r) = (e, m)" by fastforce
    then have m: "set m \<subseteq> set (tunnels r)" "distinct (map fst m)"
      using claim_labels_subset wf by (auto simp: wf_registry_def)
    have "[] \<notin> set ns" "set ns \<subseteq> range (normalize env)"
      using s(2) by (auto simp: normalize_hosts_Inr)
    then have ns: "\<And>n. n \<in> set ns \<Longrightarrow> n \<noteq> [] \<and> n \<in> range (normalize env)" by auto
    have "snd (Register env r s hosts) = r\<lparr>tunnels := m\<rparr> \<or>
          snd (Register env r s hosts) =
            r\<lparr>tunnels := put_all m ns \<lparr>entry_session = s', entry_hosts = ns\<rparr>\<rparr>"
      using s c by (auto simp: Register_def split: option.splits)
    then show ?thesis
    proof
      assume "snd (Register env r s hosts) = r\<lparr>tunnels := m\<rparr>"
      with m wf s(3) show ?thesis by (auto simp: wf_registry_def)
    next
      assume eq: "snd (Register env r s hosts) =
            r\<lparr>tunnels := put_all m ns \<lparr>entry_session = s', entry_hosts = ns\<rparr>\<rparr>"
      show ?thesis unfolding eq wf_registry_def using m wf s(3) ns
        by (fastforce simp: wf_registry_def wf_entry_def distinct_put_all dest: set_put_all)
    qed
  qed
qed

lemma Unregister_wf: "wf_registry env r \<Longrightarrow> wf_registry env (Unregister r s)"
  by (auto simp: wf_registry_def Unregister_def distinct_keys_filter split: option.splits)

lemma Lookup_wf: "wf_registry env r \<Longrightarrow> wf_registry env (snd (Lookup env r h))"
  by (auto simp: Lookup_def Unregister_wf split: option.splits)

lemma Close_wf: "wf_registry env (fst (Close r))" if "wf_registry env r"
  using that by (auto simp: Close_def wf_registry_def)

lemma new_registry_wf: "wf_registry env new_registry"
  by (simp add: new_registry_def wf_registry_def)

lemmas registry_wf = new_registry_wf Register_wf Unregister_wf Lookup_wf Close_wf

section \<open>The abstract registry\<close>

text \<open>A map from labels to live sessions: what a lookup can see.\<close>

definition abs_reg :: "reg_env \<Rightarrow> registry \<Rightarrow> string \<rightharpoonup> session" where
  "abs_reg env r l =
     (case map_of (tunnels r) l of None \<Rightarrow> None
      | Some e \<Rightarrow> if dead env (entry_session e) then None else Some (entry_session e))"

definition conflicts :: "(string \<rightharpoonup> session) \<Rightarrow> session \<Rightarrow> string list \<Rightarrow> bool" where
  "conflicts a s ls = (\<exists>l \<in> set ls. \<exists>t. a l = Some t \<and> t \<noteq> s)"

definition spec_register ::
  "reg_env \<Rightarrow> (string \<rightharpoonup> session) \<Rightarrow> session \<Rightarrow> string list \<Rightarrow> (string \<rightharpoonup> session)" where
  "spec_register env a s ls =
     (if conflicts a s ls then a
      else (\<lambda>l. if l \<in> set ls then (if dead env s then None else Some s) else a l))"

definition spec_unregister :: "(string \<rightharpoonup> session) \<Rightarrow> session \<Rightarrow> (string \<rightharpoonup> session)" where
  "spec_unregister a s = (\<lambda>l. if a l = Some s then None else a l)"

definition abs_map :: "reg_env \<Rightarrow> (string \<times> entry) list \<Rightarrow> string \<rightharpoonup> session" where
  "abs_map env m l = abs_reg env \<lparr>tunnels = m, closed = False\<rparr> l"

lemma abs_reg_tunnels: "abs_reg env r = abs_map env (tunnels r)"
  by (simp add: abs_map_def abs_reg_def fun_eq_iff)

lemma abs_map_evict:
  assumes "distinct (map fst m)" "dead env t"
  shows "abs_map env (evictSession m t) = abs_map env m"
  using assms map_of_filter_val[OF assms(1), of "\<lambda>e. entry_session e \<noteq> t"]
  by (auto simp: fun_eq_iff abs_map_def abs_reg_def evictSession_def split: option.splits)

lemma claim_labels_abs:
  "claim_labels env s hs m = (e, m') \<Longrightarrow> distinct (map fst m) \<Longrightarrow>
     abs_map env m' = abs_map env m \<and> (e \<noteq> None \<longleftrightarrow> conflicts (abs_map env m) s hs)"
proof (induction env s hs m rule: claim_labels.induct)
  case (1 env s m)
  then show ?case by (simp add: conflicts_def)
next
  case (2 env s h hs m)
  have c: "conflicts (abs_map env m) s (h # hs) \<longleftrightarrow>
      (\<exists>t. abs_map env m h = Some t \<and> t \<noteq> s) \<or> conflicts (abs_map env m) s hs"
    by (auto simp: conflicts_def)
  show ?case
  proof (cases "map_of m h")
    case None
    then have "abs_map env m h = None" by (simp add: abs_map_def abs_reg_def)
    with None c "2.IH"(1)[OF None] "2.prems" show ?thesis by simp
  next
    case (Some ex)
    have a: "abs_map env m h = (if dead env (entry_session ex) then None else Some (entry_session ex))"
      using Some by (simp add: abs_map_def abs_reg_def)
    consider "entry_session ex = s" | "entry_session ex \<noteq> s" "dead env (entry_session ex)"
      | "entry_session ex \<noteq> s" "\<not> dead env (entry_session ex)" by blast
    then show ?thesis
    proof cases
      case 1
      with Some a c "2.IH"(2)[OF Some 1] "2.prems" show ?thesis by auto
    next
      case 2
      let ?m = "evictSession m (entry_session ex)"
      have d: "isDead env (Some (entry_session ex))" using 2 by (simp add: isDead_def)
      have "claim_labels env s hs ?m = (e, m')" using "2.prems"(1) Some 2 d by simp
      with "2.IH"(3)[OF Some 2(1) d] "2.prems"(2) evictSession_distinct abs_map_evict[OF "2.prems"(2) 2(2)]
      show ?thesis using a c 2 by auto
    next
      case 3
      with Some "2.prems"(1) have "m' = m" "e \<noteq> None" by (auto simp: isDead_def)
      with a c 3 show ?thesis by simp
    qed
  qed
qed

text \<open>Refinement: every operation acts on the abstract registry as its specification says.\<close>

lemma Register_abs:
  assumes "distinct (map fst (tunnels r))" "normalize_hosts env hosts = Inr ns" "\<not> closed r" "hosts \<noteq> []"
  shows "abs_reg env (snd (Register env r (Some s) hosts)) = spec_register env (abs_reg env r) s ns"
    and "is_ok (fst (Register env r (Some s) hosts)) \<longleftrightarrow> \<not> conflicts (abs_reg env r) s ns"
proof -
  obtain e m where c: "claim_labels env s ns (tunnels r) = (e, m)" by fastforce
  from claim_labels_abs[OF this assms(1)]
  have m: "abs_map env m = abs_reg env r" "e \<noteq> None \<longleftrightarrow> conflicts (abs_reg env r) s ns"
    by (simp_all add: abs_reg_tunnels)
  have put: "abs_map env (put_all m ns \<lparr>entry_session = s, entry_hosts = ns\<rparr>) l =
      (if l \<in> set ns then (if dead env s then None else Some s) else abs_map env m l)" for l
    by (simp add: abs_map_def abs_reg_def map_of_put_all)
  show "abs_reg env (snd (Register env r (Some s) hosts)) = spec_register env (abs_reg env r) s ns"
    using assms c m by (cases e) (auto simp: Register_def spec_register_def abs_reg_tunnels put)
  show "is_ok (fst (Register env r (Some s) hosts)) \<longleftrightarrow> \<not> conflicts (abs_reg env r) s ns"
    using assms c m by (cases e) (auto simp: Register_def)
qed

lemma Unregister_abs:
  assumes "distinct (map fst (tunnels r))"
  shows "abs_reg env (Unregister r (Some s)) = spec_unregister (abs_reg env r) s"
  using map_of_filter_val[OF assms, of "\<lambda>e. entry_session e \<noteq> s"]
  by (auto simp: fun_eq_iff abs_reg_def Unregister_def spec_unregister_def split: option.splits)

lemma Lookup_abs:
  assumes "distinct (map fst (tunnels r))"
  shows "fst (Lookup env r h) =
           (case abs_reg env r (normalize env h) of None \<Rightarrow> Inl ErrNoTunnel | Some s \<Rightarrow> Inr s)"
    and "abs_reg env (snd (Lookup env r h)) = abs_reg env r"
proof -
  show "fst (Lookup env r h) =
      (case abs_reg env r (normalize env h) of None \<Rightarrow> Inl ErrNoTunnel | Some s \<Rightarrow> Inr s)"
    by (auto simp: Lookup_def abs_reg_def isDead_def split: option.splits)
  have "dead env s \<Longrightarrow> spec_unregister (abs_reg env r) s = abs_reg env r" for s
    by (auto simp: spec_unregister_def abs_reg_def fun_eq_iff split: option.splits)
  then show "abs_reg env (snd (Lookup env r h)) = abs_reg env r"
    using Unregister_abs[OF assms]
    by (auto simp: Lookup_def isDead_def split: option.splits)
qed

lemma Register_error_abs:
  assumes "distinct (map fst (tunnels r))" "\<not> is_ok (fst (Register env r s hosts))"
  shows "abs_reg env (snd (Register env r s hosts)) = abs_reg env r"
proof (cases "\<exists>s' ns. s = Some s' \<and> normalize_hosts env hosts = Inr ns \<and> \<not> closed r \<and> hosts \<noteq> []")
  case False
  then have "snd (Register env r s hosts) = r"
    by (auto simp: Register_def split: option.splits sum.splits)
  then show ?thesis by simp
next
  case True
  then obtain s' ns where s: "s = Some s'" "normalize_hosts env hosts = Inr ns" "\<not> closed r" "hosts \<noteq> []"
    by blast
  from Register_abs[OF assms(1) s(2-4), of s'] assms(2) s(1)
  show ?thesis by (simp add: spec_register_def)
qed

lemma Register_ok:
  "fst (Register env r s hosts) = Inr ns \<Longrightarrow>
     \<exists>s'. s = Some s' \<and> hosts \<noteq> [] \<and> normalize_hosts env hosts = Inr ns \<and> \<not> closed r"
  by (auto simp: Register_def split: option.splits sum.splits if_splits prod.splits)

section \<open>The interface its clients rely on\<close>

text \<open>
  A host directory: labels resolve to sessions, a session claims labels or is refused, and withdraws
  all of them. \<open>inv\<close> is the provider's invariant.
\<close>

locale host_directory =
  fixes resolve :: "'r \<Rightarrow> 'l \<Rightarrow> 's option"
    and claim :: "'r \<Rightarrow> 's \<Rightarrow> 'l list \<Rightarrow> 'r option"
    and withdraw :: "'r \<Rightarrow> 's \<Rightarrow> 'r"
    and inv :: "'r \<Rightarrow> bool"
    and live :: "'s \<Rightarrow> bool"
  assumes claim_inv: "inv r \<Longrightarrow> claim r s ls = Some r' \<Longrightarrow> inv r'"
    and withdraw_inv: "inv r \<Longrightarrow> inv (withdraw r s)"
    and claim_resolve: "inv r \<Longrightarrow> claim r s ls = Some r' \<Longrightarrow> live s \<Longrightarrow>
          resolve r' l = (if l \<in> set ls then Some s else resolve r l)"
    and claim_conflict: "inv r \<Longrightarrow> claim r s ls \<noteq> None \<Longrightarrow> l \<in> set ls \<Longrightarrow>
          resolve r l = Some t \<Longrightarrow> t = s"
    and withdraw_resolve: "inv r \<Longrightarrow>
          resolve (withdraw r s) l = (if resolve r l = Some s then None else resolve r l)"
begin

text \<open>A label that resolves to another session is never taken over.\<close>

lemma no_takeover:
  assumes "inv r" "claim r s ls = Some r'" "live s" "resolve r l = Some t" "t \<noteq> s"
  shows "resolve r' l = Some t"
  using assms claim_resolve[of r s ls r' l] claim_conflict[of r s ls l t] by auto

text \<open>Claiming and withdrawing are balanced for a session that held nothing before.\<close>

lemma claim_withdraw:
  assumes "inv r" "claim r s ls = Some r'" "live s" "\<And>l. resolve r l \<noteq> Some s"
  shows "resolve (withdraw r' s) l = resolve r l"
proof (cases "l \<in> set ls")
  case True
  with assms claim_conflict[of r s ls l] have "resolve r l = None"
    by (metis option.distinct(1) option.exhaust)
  with True assms show ?thesis
    by (simp add: withdraw_resolve[OF claim_inv[OF assms(1,2)]] claim_resolve[OF assms(1-3)])
next
  case False
  with assms show ?thesis
    by (simp add: withdraw_resolve[OF claim_inv[OF assms(1,2)]] claim_resolve[OF assms(1-3)])
qed

lemma withdraw_gone: "inv r \<Longrightarrow> resolve (withdraw r s) l \<noteq> Some s"
  by (simp add: withdraw_resolve)

end

text \<open>
  The registry provides it, for every fixed environment: hosts resolve through \<^const>\<open>Lookup\<close>, a session
  claims them through \<^const>\<open>Register\<close>.
\<close>

definition reg_resolve :: "reg_env \<Rightarrow> registry \<Rightarrow> string \<Rightarrow> session option" where
  "reg_resolve env r l = abs_reg env r l"

definition reg_claim :: "reg_env \<Rightarrow> registry \<Rightarrow> session \<Rightarrow> string list \<Rightarrow> registry option" where
  "reg_claim env r s ls =
     (case Register env r (Some s) ls of (Inl _, _) \<Rightarrow> None
      | (Inr ns, r') \<Rightarrow> if ns = ls then Some r' else None)"

interpretation reg: host_directory "reg_resolve env" "reg_claim env" "\<lambda>r s. Unregister r (Some s)"
  "wf_registry env" "\<lambda>s. \<not> dead env s" for env
proof (unfold_locales, goal_cases)
  case (1 r s ls r')
  then have "r' = snd (Register env r (Some s) ls)"
    by (auto simp: reg_claim_def split: prod.splits sum.splits if_splits)
  with 1 show ?case by (simp add: Register_wf)
next
  case (2 r s)
  then show ?case by (rule Unregister_wf)
next
  case (3 r s ls r' l)
  then have r': "fst (Register env r (Some s) ls) = Inr ls" "r' = snd (Register env r (Some s) ls)"
    by (auto simp: reg_claim_def split: prod.splits sum.splits if_splits)
  note ok = Register_ok[OF r'(1)]
  from ok Register_abs[OF wf_registry_distinct[OF 3(1)], of env ls ls s] r' 3(3)
  show ?case by (auto simp: reg_resolve_def spec_register_def)
next
  case (4 r s ls l t)
  then have ok: "fst (Register env r (Some s) ls) = Inr ls"
    by (auto simp: reg_claim_def split: prod.splits sum.splits if_splits)
  from Register_ok[OF ok] Register_abs(2)[OF wf_registry_distinct[OF 4(1)], of env ls ls s] ok 4
  show ?case by (auto simp: reg_resolve_def conflicts_def)
next
  case (5 r s l)
  then show ?case
    by (simp add: reg_resolve_def Unregister_abs[OF wf_registry_distinct[OF 5]] spec_unregister_def)
qed

section \<open>Interleavings\<close>

text \<open>
  The proxy's goroutines call the registry in any order while sessions close underneath it. One step
  is one critical section of the registry's lock, or a session closing.
\<close>

record reg_sys =
  sys_env :: reg_env
  sys_reg :: registry

definition kill :: "session set \<Rightarrow> reg_env \<Rightarrow> reg_env" where
  "kill S env = env\<lparr>dead := (\<lambda>s. s \<in> S \<or> dead env s)\<rparr>"

datatype reg_event = EvRegister session | EvUnregister session | EvLookup | EvClose | EvDie session

inductive reg_step :: "reg_sys \<Rightarrow> reg_event \<Rightarrow> reg_sys \<Rightarrow> bool" where
  step_register: "reg_step y (EvRegister s)
     (y\<lparr>sys_reg := snd (Register (sys_env y) (sys_reg y) (Some s) hosts)\<rparr>)"
| step_unregister: "reg_step y (EvUnregister s) (y\<lparr>sys_reg := Unregister (sys_reg y) (Some s)\<rparr>)"
| step_lookup: "reg_step y EvLookup (y\<lparr>sys_reg := snd (Lookup (sys_env y) (sys_reg y) host)\<rparr>)"
| step_close: "reg_step y EvClose
     (y\<lparr>sys_reg := fst (Close (sys_reg y)),
        sys_env := kill (set (snd (Close (sys_reg y)))) (sys_env y)\<rparr>)"
| step_die: "reg_step y (EvDie s) (y\<lparr>sys_env := kill {s} (sys_env y)\<rparr>)"

inductive_cases reg_stepE: "reg_step y ev y'"

inductive reg_reachable :: "(string \<Rightarrow> string) \<Rightarrow> reg_sys \<Rightarrow> bool" for ul where
  reach_init: "reg_reachable ul
     \<lparr>sys_env = \<lparr>ulower = ul, dead = (\<lambda>_. False)\<rparr>, sys_reg = new_registry\<rparr>"
| reach_step: "reg_reachable ul y \<Longrightarrow> reg_step y ev y' \<Longrightarrow> reg_reachable ul y'"

lemma wf_registry_kill [simp]: "wf_registry (kill S env) r = wf_registry env r"
proof -
  have "normalize (kill S env) = normalize env" by (simp add: normalize_def kill_def fun_eq_iff)
  then show ?thesis by (simp add: wf_registry_def wf_entry_def)
qed

lemma reg_step_wf: "reg_step y ev y' \<Longrightarrow> wf_registry (sys_env y) (sys_reg y) \<Longrightarrow>
    wf_registry (sys_env y') (sys_reg y')"
  by (erule reg_stepE) (simp_all add: registry_wf)

lemma reg_reachable_wf: "reg_reachable ul y \<Longrightarrow> wf_registry (sys_env y) (sys_reg y)"
  by (induction rule: reg_reachable.induct) (auto simp: new_registry_wf intro: reg_step_wf)

lemma spec_register_keeps:
  "a l = Some t \<Longrightarrow> \<not> dead env t \<Longrightarrow> spec_register env a s ls l = Some t"
  by (auto simp: spec_register_def conflicts_def)

lemma Register_keeps:
  assumes "wf_registry env r" "abs_reg env r l = Some t"
  shows "abs_reg env (snd (Register env r (Some s) hosts)) l = Some t"
proof (cases "fst (Register env r (Some s) hosts)")
  case (Inl e)
  then show ?thesis using assms Register_error_abs[of r env "Some s" hosts]
    by (simp add: wf_registry_distinct)
next
  case (Inr ns)
  have "\<not> dead env t" using assms(2) by (auto simp: abs_reg_def split: option.splits if_splits)
  with Register_ok[OF Inr] Register_abs(1)[OF wf_registry_distinct[OF assms(1)], of env hosts ns s] assms(2)
  show ?thesis by (auto simp: spec_register_keeps)
qed

lemma abs_reg_kill:
  "abs_reg env r l = Some t \<Longrightarrow> t \<notin> S \<Longrightarrow> abs_reg (kill S env) r l = Some t"
  by (auto simp: abs_reg_def kill_def split: option.splits if_splits)

lemma reg_step_keeps:
  assumes "reg_step y ev y'" "wf_registry (sys_env y) (sys_reg y)"
    "abs_reg (sys_env y) (sys_reg y) l = Some t"
    "ev \<noteq> EvUnregister t" "ev \<noteq> EvDie t" "ev \<noteq> EvClose"
  shows "abs_reg (sys_env y') (sys_reg y') l = Some t"
  using assms wf_registry_distinct[OF assms(2)]
  by (cases rule: reg_step.cases)
    (auto simp: Register_keeps Unregister_abs spec_unregister_def Lookup_abs abs_reg_kill)

lemma Close_lookup:
  assumes "\<not> closed r"
  shows "fst (Lookup env (fst (Close r)) h) = Inl ErrNoTunnel"
  using assms by (simp add: Close_def Lookup_def)

lemma Close_register:
  assumes "\<not> closed r"
  shows "\<not> is_ok (fst (Register env (fst (Close r)) s hosts))"
  using assms by (auto simp: Close_def Register_def split: option.splits sum.splits)

section \<open>Properties\<close>

text \<open>A small environment and registry for the witnesses.\<close>

definition demo_env :: reg_env where
  "demo_env = \<lparr>ulower = (\<lambda>s. s), dead = (\<lambda>s. s = 9)\<rparr>"

definition demo_registry :: registry where
  "demo_registry = snd (Register demo_env
     (snd (Register demo_env new_registry (Some 1) [''Db-1 '', ''db-1.prod'']))
     (Some 9) [''web''])"

lemma demo_registry_wf: "wf_registry demo_env demo_registry"
  by (simp add: demo_registry_def Register_wf new_registry_wf)

text \<open>
  C3. However registrations, withdrawals, lookups, closing and session deaths interleave, labels stay
  unique, normalised and non-empty, every label is listed by the entry it points to, and a closed
  registry is empty.
\<close>

theorem registry_reachable_wf:
  assumes "reg_reachable ul y"
  shows "wf_registry (sys_env y) (sys_reg y)"
  using assms by (rule reg_reachable_wf)

theorem registry_reachable_wf_witness:
  "\<exists>y. reg_reachable (\<lambda>s. s) y \<and> sys_reg y \<noteq> new_registry \<and> wf_registry (sys_env y) (sys_reg y)"
proof -
  let ?y0 = "\<lparr>sys_env = \<lparr>ulower = (\<lambda>s. s), dead = (\<lambda>_. False)\<rparr>, sys_reg = new_registry\<rparr>"
  let ?y1 = "?y0\<lparr>sys_reg := snd (Register (sys_env ?y0) (sys_reg ?y0) (Some 1) [''Db-1''])\<rparr>"
  have r: "reg_reachable (\<lambda>s. s) ?y1"
    by (rule reach_step[OF reach_init step_register])
  have "Len (sys_reg ?y1) = 1" by code_simp
  then have "sys_reg ?y1 \<noteq> new_registry" by (auto simp: new_registry_def Len_def)
  with r registry_reachable_wf[OF r] show ?thesis by blast
qed

text \<open>
  C4. Refinement: on the map from labels to live sessions, registering acts as the specification says
  and succeeds exactly when no label belongs to another live session; a lookup returns the map's
  value for the normalised host and changes nothing; unregistering removes exactly the session's
  labels.
\<close>

theorem registry_refines_spec:
  assumes "wf_registry env r" and "\<not> closed r" and "hosts \<noteq> []"
    and "normalize_hosts env hosts = Inr ns"
  shows "abs_reg env (snd (Register env r (Some s) hosts)) = spec_register env (abs_reg env r) s ns
    \<and> (fst (Register env r (Some s) hosts) = Inr ns \<longleftrightarrow> \<not> conflicts (abs_reg env r) s ns)
    \<and> fst (Lookup env r h) =
        (case abs_reg env r (normalize env h) of None \<Rightarrow> Inl ErrNoTunnel | Some t \<Rightarrow> Inr t)
    \<and> abs_reg env (snd (Lookup env r h)) = abs_reg env r
    \<and> abs_reg env (Unregister r (Some s)) = spec_unregister (abs_reg env r) s"
proof -
  note d = wf_registry_distinct[OF assms(1)]
  have "is_ok (fst (Register env r (Some s) hosts)) \<longleftrightarrow> fst (Register env r (Some s) hosts) = Inr ns"
    using Register_ok[of env r "Some s" hosts] assms(4) by (auto simp del: not_None_eq)
  then show ?thesis
    using Register_abs[OF d assms(4,2,3)] Lookup_abs[OF d] Unregister_abs[OF d] by auto
qed

theorem registry_refines_spec_witness:
  "fst (Register demo_env demo_registry (Some 2) [''WEB'', ''cache'']) = Inr [''web'', ''cache'']
   \<and> fst (Lookup demo_env demo_registry '' DB-1'') = Inr 1"
proof -
  have n: "normalize_hosts demo_env [''WEB'', ''cache''] = Inr [''web'', ''cache'']" by code_simp
  have c: "\<not> closed demo_registry" by code_simp
  have v: "\<not> conflicts (abs_reg demo_env demo_registry) 2 [''web'', ''cache'']"
  proof -
    have "abs_reg demo_env demo_registry ''web'' = None" "abs_reg demo_env demo_registry ''cache'' = None"
      by code_simp+
    then show ?thesis by (simp add: conflicts_def)
  qed
  have a: "abs_reg demo_env demo_registry (normalize demo_env '' DB-1'') = Some 1" by code_simp
  have "[''WEB'', ''cache''] \<noteq> []" by simp
  from registry_refines_spec[OF demo_registry_wf c this n, of 2 "'' DB-1''"] v a
  show ?thesis by simp
qed

text \<open>
  C5. No tunnel takes over a label: a label that resolves to a live session keeps resolving to it
  through every step of the other sessions, whether their registration succeeds, fails, or evicts
  dead sessions.
\<close>

theorem no_label_takeover:
  assumes "reg_reachable ul y" and "reg_step y ev y'"
    and "fst (Lookup (sys_env y) (sys_reg y) h) = Inr t"
    and "ev \<noteq> EvUnregister t" and "ev \<noteq> EvDie t" and "ev \<noteq> EvClose"
  shows "fst (Lookup (sys_env y') (sys_reg y') h) = Inr t"
proof -
  have wf: "wf_registry (sys_env y) (sys_reg y)" "wf_registry (sys_env y') (sys_reg y')"
    using assms(1,2) by (auto intro: reg_reachable_wf reach_step)
  have n: "normalize (sys_env y') h = normalize (sys_env y) h"
    using assms(2) by (cases rule: reg_step.cases) (auto simp: kill_def normalize_def)
  have "abs_reg (sys_env y) (sys_reg y) (normalize (sys_env y) h) = Some t"
    using assms(3) Lookup_abs(1)[OF wf_registry_distinct[OF wf(1)]] by (auto split: option.splits)
  from reg_step_keeps[OF assms(2) wf(1) this assms(4-6)] n
  show ?thesis using Lookup_abs(1)[OF wf_registry_distinct[OF wf(2)]] by simp
qed

theorem no_label_takeover_witness:
  "\<exists>y y'. fst (Lookup (sys_env y) (sys_reg y) ''db-1'') = Inr 1 \<and> reg_step y (EvRegister 2) y'
     \<and> fst (Lookup (sys_env y') (sys_reg y') ''db-1'') = Inr 1"
proof -
  let ?y0 = "\<lparr>sys_env = \<lparr>ulower = (\<lambda>s. s), dead = (\<lambda>_. False)\<rparr>, sys_reg = new_registry\<rparr>"
  let ?y1 = "?y0\<lparr>sys_reg := snd (Register (sys_env ?y0) (sys_reg ?y0) (Some 1) [''db-1''])\<rparr>"
  let ?y2 = "?y1\<lparr>sys_reg := snd (Register (sys_env ?y1) (sys_reg ?y1) (Some 2) [''db-1''])\<rparr>"
  have r: "reg_reachable (\<lambda>s. s) ?y1" by (rule reach_step[OF reach_init step_register])
  have st: "reg_step ?y1 (EvRegister 2) ?y2" by (rule step_register)
  have l: "fst (Lookup (sys_env ?y1) (sys_reg ?y1) ''db-1'') = Inr 1" by code_simp
  have ne: "EvRegister 2 \<noteq> EvUnregister 1" "EvRegister 2 \<noteq> EvDie 1" "EvRegister 2 \<noteq> EvClose" by simp_all
  from no_label_takeover[OF r st l ne] l st show ?thesis by blast
qed

text \<open>
  A refused registration is invisible: every host resolves as before, even when the refused call
  evicted dead sessions on its way to the conflict.
\<close>

theorem register_error_invisible:
  assumes "wf_registry env r" and "fst (Register env r s hosts) = Inl e"
  shows "fst (Lookup env (snd (Register env r s hosts)) h) = fst (Lookup env r h)"
proof -
  have "abs_reg env (snd (Register env r s hosts)) = abs_reg env r"
    using assms by (intro Register_error_abs) (auto simp: wf_registry_distinct)
  then show ?thesis
    using Lookup_abs(1)[OF wf_registry_distinct[OF assms(1)]]
      Lookup_abs(1)[OF wf_registry_distinct[OF Register_wf[OF assms(1)]]] by simp
qed

theorem register_error_invisible_witness:
  "\<exists>e. fst (Register demo_env demo_registry (Some 3) [''web'', ''db-1'']) = Inl e
     \<and> Len (snd (Register demo_env demo_registry (Some 3) [''web'', ''db-1''])) < Len demo_registry
     \<and> fst (Lookup demo_env (snd (Register demo_env demo_registry (Some 3) [''web'', ''db-1''])) ''db-1'')
         = Inr 1"
proof -
  let ?x = "Register demo_env demo_registry (Some 3) [''web'', ''db-1'']"
  have "\<not> is_ok (fst ?x)" by code_simp
  then obtain e where e: "fst ?x = Inl e" by (cases "fst ?x") auto
  have n: "Len (snd ?x) < Len demo_registry" by code_simp
  have l: "fst (Lookup demo_env demo_registry ''db-1'') = Inr 1" by code_simp
  from register_error_invisible[OF demo_registry_wf e, of "''db-1''"] e n l show ?thesis by auto
qed

text \<open>
  C7. Closing: the sessions it closes are exactly the registered ones, each once; afterwards nothing
  resolves, every registration is refused, and closing again closes nothing.
\<close>

theorem registry_close:
  assumes "\<not> closed r"
  shows "set (snd (Close r)) = {entry_session e | l e. (l, e) \<in> set (tunnels r)}
    \<and> distinct (snd (Close r))
    \<and> fst (Lookup env (fst (Close r)) h) = Inl ErrNoTunnel
    \<and> \<not> is_ok (fst (Register env (fst (Close r)) s hosts))
    \<and> Close (fst (Close r)) = (fst (Close r), [])"
proof -
  have "set (snd (Close r)) = {entry_session e | l e. (l, e) \<in> set (tunnels r)}"
    using assms by (force simp: Close_def)
  moreover have "distinct (snd (Close r))" "Close (fst (Close r)) = (fst (Close r), [])"
    using assms by (simp_all add: Close_def)
  ultimately show ?thesis using Close_lookup[OF assms] Close_register[OF assms] by blast
qed

theorem registry_close_witness:
  "set (snd (Close demo_registry)) = {1, 9} \<and> distinct (snd (Close demo_registry))"
proof -
  have c: "\<not> closed demo_registry" by code_simp
  have "snd (Close demo_registry) = [1, 9]" by code_simp
  with registry_close[OF c] show ?thesis by simp
qed

end
