(* ===== verification/Ssh_Server.thy ===== *)
theory Ssh_Server
  imports Proxier Revcheck Registry
begin

text \<open>
  \<^verbatim>\<open>internal/proxyd/ssh/server.go\<close>: authentication of a user certificate, the connection handler and its audit
  trail, and the routing of the outbound dial. Parameters, for code of other modules: the
  certificate checker of \<^verbatim>\<open>golang.org/x/crypto/ssh\<close>, its server handshake, and the raw dial.
\<close>

section \<open>Configuration\<close>

text \<open>A public key is its marshalled form; a certificate is also its contents.\<close>

datatype pubkey = PlainKey string | CertKey certificate

record ssh_config =
  scAddr :: string
  scHostSigner :: "signer option"
  scTrustedUserCA :: "string option"
  scClientSigner :: "(string \<Rightarrow> signer result) option"
  scTargetHostKey :: "host_key_callback option"
  scRecordingSink :: "rec_sink option"
  scAudit :: "audit_sink option"
  scTunnels :: bool
  scRevocations :: "(certificate option \<Rightarrow> bool) option"
  scHandshakeTimeout :: duration

definition StaticSigner :: "signer \<Rightarrow> string \<Rightarrow> signer result" where
  "StaticSigner sig remoteUser = Inr sig"

definition ssh_New :: "ssh_config \<Rightarrow> ssh_config result" where
  "ssh_New cfg =
     (if scAddr cfg = [] then Inl (Msg ''ssh.New: Addr is required'')
      else if scHostSigner cfg = None then Inl (Msg ''ssh.New: HostSigner is required'')
      else if scTrustedUserCA cfg = None then Inl (Msg ''ssh.New: TrustedUserCA is required'')
      else if scClientSigner cfg = None
      then Inl (Msg ''ssh.New: ClientSignerFunc is required (target-side authentication)'')
      else if scTargetHostKey cfg = None
      then Inl (Msg ''ssh.New: TargetHostKeyCallback is required (target-side host key verification)'')
      else Inr (if scHandshakeTimeout cfg = 0 then cfg\<lparr>scHandshakeTimeout := 30 * second\<rparr> else cfg))"

definition server_audit :: "ssh_config \<Rightarrow> audit_sink" where
  "server_audit cfg = (case scAudit cfg of None \<Rightarrow> NoopSink | Some s \<Rightarrow> s)"

section \<open>Authentication\<close>

record conn_meta =
  metaUser :: string
  metaRemote :: "net_addr option"

text \<open>\<^verbatim>\<open>gossh.CertChecker.Authenticate\<close> with the two callbacks it is given, the user it sees and the key.\<close>

type_synonym authenticate = "(string \<Rightarrow> bool) \<Rightarrow> (certificate option \<Rightarrow> bool) \<Rightarrow> string \<Rightarrow> pubkey \<Rightarrow> permissions result"

text \<open>
  Its documented behaviour: on success the key is a user certificate, signed by an accepted authority,
  not revoked, valid for the user (a certificate without principals is valid for any), and the permissions
  are the certificate's.
\<close>

definition authenticate_spec :: "authenticate \<Rightarrow> bool" where
  "authenticate_spec auth \<longleftrightarrow>
     (\<forall>ca rv user key p. auth ca rv user key = Inr p \<longrightarrow>
        (\<exists>c. key = CertKey c \<and> ca (SignatureKey c) \<and> \<not> rv (Some c) \<and>
             (ValidPrincipals c = [] \<or> user \<in> set (ValidPrincipals c)) \<and> p = CertPermissions c))"

definition IsUserAuthority :: "ssh_config \<Rightarrow> string \<Rightarrow> bool" where
  "IsUserAuthority cfg auth = (scTrustedUserCA cfg = Some auth)"

definition server_IsRevoked :: "ssh_config \<Rightarrow> certificate option \<Rightarrow> bool" where
  "server_IsRevoked cfg cert = (case scRevocations cfg of None \<Rightarrow> False | Some check \<Rightarrow> check cert)"

definition addr_text :: "net_addr option \<Rightarrow> string" where
  "addr_text a = (case a of None \<Rightarrow> ''<nil>'' | Some x \<Rightarrow> addr_string x)"

definition publicKeyCallback :: "authenticate \<Rightarrow> ssh_config \<Rightarrow> conn_meta \<Rightarrow> pubkey \<Rightarrow> permissions result" where
  "publicKeyCallback auth cfg meta key =
     (case ParseTarget (metaUser meta) of
        Inl e \<Rightarrow> Inl e
      | Inr (remoteUser, targetHost) \<Rightarrow>
          (case auth (IsUserAuthority cfg) (server_IsRevoked cfg) remoteUser key of
             Inl e \<Rightarrow> Inl e
           | Inr p \<Rightarrow>
               (case key of
                  PlainKey _ \<Rightarrow> Inl (Msg ''panic: interface conversion'')
                | CertKey cert \<Rightarrow>
                    if \<not> SourceAddressOK (new_enforcer (Some p)) (metaRemote meta)
                    then Inl (Msg (''source-address restriction: remote '' @ addr_text (metaRemote meta) @ '' not in allowed list''))
                    else Inr (p\<lparr>Extensions := (Extensions p)
                      (''key-id'' \<mapsto> KeyId cert,
                       ''principals'' \<mapsto> join_with '','' (ValidPrincipals cert),
                       ''serial'' \<mapsto> fmt_int (uint (Serial cert)),
                       ''remote-user'' \<mapsto> remoteUser,
                       ''target-host'' \<mapsto> targetHost)\<rparr>))))"

section \<open>Events and rejections\<close>

record session_events =
  evSink :: audit_sink
  evSessionID :: string
  evUser :: string
  evPrincipals :: string
  evTarget :: string
  evRemoteUser :: string
  evClientIP :: string

definition ev_emit :: "session_events \<Rightarrow> string \<Rightarrow> string \<Rightarrow> (string \<times> json) list \<Rightarrow> world \<Rightarrow> world" where
  "ev_emit ev action reason metadata w =
     (let md = (if metadata = [] then [] else json_enc (json_map metadata));
          (uid, w1) = NewString w;
          (t, w2) = Now w1
      in snd (Append (evSink ev)
           \<lparr>EntryID = uid, Action = action, SessionID = evSessionID ev, User = evUser ev, Principals = evPrincipals ev,
            Target = evTarget ev, RemoteUser = evRemoteUser ev, ClientIP = evClientIP ev, RecordingPath = [],
            Reason = reason, Metadata = md, OccurredAt = t\<rparr> w2))"

definition ipFromAddr :: "net_addr option \<Rightarrow> string" where
  "ipFromAddr addr =
     (case addr of None \<Rightarrow> []
      | Some a \<Rightarrow> (case SplitHostPort (addr_string a) of Inl _ \<Rightarrow> addr_string a | Inr (host, _) \<Rightarrow> host))"

text \<open>The channels the user opens while they are rejected, each with whether the context is done by then.\<close>

definition rejectAll :: "bool list \<Rightarrow> nat \<Rightarrow> string \<Rightarrow> (nat \<times> string) list" where
  "rejectAll chans reason msg =
     map (\<lambda>done. if done then (ConnectionFailed, ''server shutting down'') else (reason, msg)) chans"

section \<open>Routing the outbound dial\<close>

text \<open>
  \<open>open_stream\<close> opens a stream on a tunnel session, \<open>ctx_err\<close> is \<^verbatim>\<open>ctx.Err()\<close>, \<open>tcp\<close> the direct dial. The registry is
  the state the transport acts on.
\<close>

definition tunnel_host :: "string \<Rightarrow> string" where
  "tunnel_host host = (case SplitHostPort host of Inl _ \<Rightarrow> host | Inr (h, _) \<Rightarrow> h)"

definition tunnelTransport ::
  "reg_env \<Rightarrow> (session \<Rightarrow> conn result) \<Rightarrow> go_error option \<Rightarrow> (string \<Rightarrow> conn result) \<Rightarrow> bool \<Rightarrow> string \<Rightarrow> registry transport option" where
  "tunnelTransport env open_stream ctx_err tcp enabled host =
     (if \<not> enabled then None
      else Some (\<lambda>timeout addr r.
        case Open env open_stream ctx_err r (tunnel_host host) of
          (Inr conn, r') \<Rightarrow> (Inr conn, r')
        | (Inl err, r') \<Rightarrow> if \<not> errors_is err ErrNoTunnel then (Inl err, r') else (tcp addr, r')))"

section \<open>The connection handler\<close>

text \<open>
  What a connection meets: the server handshake (given the callback, it yields the metadata and the
  permissions of the key the client proved to hold), the dial's ingredients, and the channels rejected.
\<close>

record conn_env =
  ceAuth :: authenticate
  ceHandshake :: "(conn_meta \<Rightarrow> pubkey \<Rightarrow> permissions result) \<Rightarrow> (conn_meta \<times> permissions) result"
  ceRemote :: "net_addr option"
  ceReg :: reg_env
  ceOpenStream :: "session \<Rightarrow> conn result"
  ceCtxErr :: "go_error option"
  ceTcp :: "string \<Rightarrow> conn result"
  ceClientHandshake :: "conn \<Rightarrow> string \<Rightarrow> client_config \<Rightarrow> unit result"
  ceRejected :: "bool list"

definition handshake_spec :: "((conn_meta \<Rightarrow> pubkey \<Rightarrow> permissions result) \<Rightarrow> (conn_meta \<times> permissions) result) \<Rightarrow> bool" where
  "handshake_spec hs \<longleftrightarrow> (\<forall>cb meta p. hs cb = Inr (meta, p) \<longrightarrow> (\<exists>key. cb meta key = Inr p))"

definition ext :: "permissions \<Rightarrow> string \<Rightarrow> string" where
  "ext p name = (case Extensions p name of None \<Rightarrow> [] | Some v \<Rightarrow> v)"

datatype conn_phase =
    HandshakeFailed
  | RejectedAll session_events "(nat \<times> string) list"
  | Proxying session_events proxier ssh_client

text \<open>\<^verbatim>\<open>handleConn\<close> up to the point where channels are handled.\<close>

definition conn_begin :: "ssh_config \<Rightarrow> conn_env \<Rightarrow> registry \<Rightarrow> world \<Rightarrow> conn_phase \<times> registry \<times> world" where
  "conn_begin cfg env reg w =
     (case ceHandshake env (publicKeyCallback (ceAuth env) cfg) of
        Inl _ \<Rightarrow> (HandshakeFailed, reg, w)
      | Inr (meta, p) \<Rightarrow>
          let (sid, w1) = NewString w;
              ev = \<lparr>evSink = server_audit cfg, evSessionID = sid, evUser = ext p ''key-id'', evPrincipals = ext p ''principals'',
                    evTarget = ext p ''target-host'', evRemoteUser = ext p ''remote-user'', evClientIP = ipFromAddr (ceRemote env)\<rparr>;
              w2 = ev_emit ev ActionSessionOpened [] [] w1
          in case (case scClientSigner cfg of None \<Rightarrow> Inl (Msg ''nil function'') | Some f \<Rightarrow> f (evRemoteUser ev)) of
               Inl err \<Rightarrow>
                 let reason = ''proxy could not obtain a client signer: '' @ err_text err
                 in (RejectedAll ev (rejectAll (ceRejected env) ConnectionFailed reason), reg,
                     ev_emit ev ActionChannelRejected reason [(''stage'', JStr ''client_signer'')] w2)
             | Inr sg \<Rightarrow>
                 (case DialTarget (\<lambda>_ addr r. (ceTcp env addr, r)) (ceClientHandshake env)
                         \<lparr>dcAddress = evTarget ev, dcUser = evRemoteUser ev, dcSigner = Some sg,
                          dcHostKeyCallback = scTargetHostKey cfg, dcTimeout = 0,
                          dcTransport = tunnelTransport (ceReg env) (ceOpenStream env) (ceCtxErr env) (ceTcp env)
                                          (scTunnels cfg) (evTarget ev)\<rparr> reg of
                    (Inl err, _, reg') \<Rightarrow>
                      let reason = ''target unreachable: '' @ err_text err
                      in (RejectedAll ev (rejectAll (ceRejected env) ConnectionFailed reason), reg',
                          ev_emit ev ActionChannelRejected reason [(''stage'', JStr ''target_dial'')] w2)
                  | (Inr client, _, reg') \<Rightarrow>
                      (Proxying ev
                         (NewProxier \<lparr>cfgEnforcer = new_enforcer (Some p), cfgSink = scRecordingSink cfg, cfgUser = evUser ev,
                            cfgHost = evTarget ev, cfgAudit = Some (evSink ev), cfgSessionID = evSessionID ev,
                            cfgAuditAttr = \<lparr>attrPrincipals = evPrincipals ev, attrTarget = evTarget ev,
                                            attrRemoteUser = evRemoteUser ev, attrClientIP = evClientIP ev\<rparr>\<rparr>)
                         client, reg', w2)))"

text \<open>The whole handler: the deferred session.closed entry comes last on every path after the handshake.\<close>

inductive handleConn :: "ssh_config \<Rightarrow> conn_env \<Rightarrow> wire_lib \<Rightarrow> registry \<Rightarrow> world \<Rightarrow> registry \<Rightarrow> world \<Rightarrow> bool"
  for cfg env lib where
  failed: "conn_begin cfg env reg w = (HandshakeFailed, reg', w') \<Longrightarrow> handleConn cfg env lib reg w reg' w'"
| rejected: "conn_begin cfg env reg w = (RejectedAll ev rej, reg', w1) \<Longrightarrow>
    handleConn cfg env lib reg w reg' (ev_emit ev ActionSessionClosed [] [] w1)"
| proxied: "conn_begin cfg env reg w = (Proxying ev p client, reg', w1) \<Longrightarrow> HandleNewChannels p lib w1 w2 \<Longrightarrow>
    handleConn cfg env lib reg w reg' (ev_emit ev ActionSessionClosed [] [] w2)"

section \<open>The listener\<close>

definition ErrClosed :: go_error where "ErrClosed = Sentinel ''use of closed network connection''"

definition isClosedErr :: "go_error \<Rightarrow> bool" where
  "isClosedErr err = errors_is err ErrClosed"

text \<open>\<^verbatim>\<open>Addr\<close> of the bound listener, if there is one yet.\<close>

definition server_Addr :: "string option \<Rightarrow> string" where
  "server_Addr listener = (case listener of None \<Rightarrow> [] | Some a \<Rightarrow> a)"

section \<open>Lemmas\<close>

lemma publicKeyCallback_admits:
  assumes "authenticate_spec auth" "publicKeyCallback auth cfg meta key = Inr p"
  shows "\<exists>c u h. key = CertKey c \<and> metaUser meta = u @ ''@'' @ h \<and> u \<noteq> [] \<and> h \<noteq> [] \<and> CHR ''@'' \<notin> set h \<and>
    scTrustedUserCA cfg = Some (SignatureKey c) \<and> \<not> server_IsRevoked cfg (Some c) \<and>
    (ValidPrincipals c = [] \<or> u \<in> set (ValidPrincipals c)) \<and>
    SourceAddressOK (new_enforcer (Some (CertPermissions c))) (metaRemote meta) \<and>
    p = (CertPermissions c)\<lparr>Extensions := (Extensions (CertPermissions c))
          (''key-id'' \<mapsto> KeyId c, ''principals'' \<mapsto> join_with '','' (ValidPrincipals c),
           ''serial'' \<mapsto> fmt_int (uint (Serial c)), ''remote-user'' \<mapsto> u, ''target-host'' \<mapsto> h)\<rparr>"
proof -
  obtain u h where pt: "ParseTarget (metaUser meta) = Inr (u, h)"
    using assms(2) by (auto simp: publicKeyCallback_def split: sum.splits)
  obtain p0 where au: "auth (IsUserAuthority cfg) (server_IsRevoked cfg) u key = Inr p0"
    using assms(2) pt by (auto simp: publicKeyCallback_def split: sum.splits)
  obtain c where c: "key = CertKey c" "IsUserAuthority cfg (SignatureKey c)" "\<not> server_IsRevoked cfg (Some c)"
    "ValidPrincipals c = [] \<or> u \<in> set (ValidPrincipals c)" "p0 = CertPermissions c"
    using assms(1) au unfolding authenticate_spec_def by blast
  have "SourceAddressOK (new_enforcer (Some p0)) (metaRemote meta)"
    using assms(2) pt au c(1) by (auto simp: publicKeyCallback_def split: if_splits)
  then have "SourceAddressOK (new_enforcer (Some (CertPermissions c))) (metaRemote meta)"
    and "p = (CertPermissions c)\<lparr>Extensions := (Extensions (CertPermissions c))
          (''key-id'' \<mapsto> KeyId c, ''principals'' \<mapsto> join_with '','' (ValidPrincipals c),
           ''serial'' \<mapsto> fmt_int (uint (Serial c)), ''remote-user'' \<mapsto> u, ''target-host'' \<mapsto> h)\<rparr>"
    using assms(2) pt au c(1,5) by (simp_all add: publicKeyCallback_def)
  then show ?thesis
    using c(1-4) pt[unfolded ParseTarget_Inr] unfolding IsUserAuthority_def by blast
qed

lemma ev_emit_published:
  assumes "evSink ev = JournalSink f"
  shows "\<exists>e. published (ev_emit ev action reason md w) = published w @ [e] \<and> Action e = action \<and> SessionID e = evSessionID ev \<and>
    User e = evUser ev \<and> Target e = evTarget ev \<and> RemoteUser e = evRemoteUser ev \<and> Reason e = reason"
  using assms by (simp add: ev_emit_def NewString_def Now_def Let_def published_def)

text \<open>The phases, with the events each has emitted.\<close>

lemma conn_begin_phases:
  assumes "conn_begin cfg env reg w = (ph, reg', w')" "scAudit cfg = Some (JournalSink f)"
  shows "ph = HandshakeFailed \<and> w' = w \<or>
    (\<exists>meta p ev o' mid. ceHandshake env (publicKeyCallback (ceAuth env) cfg) = Inr (meta, p) \<and>
       evSink ev = JournalSink f \<and> evSessionID ev = uuids w (drawn w) \<and> evUser ev = ext p ''key-id'' \<and>
       published w' = published w @ o' # mid \<and> Action o' = ActionSessionOpened \<and> SessionID o' = evSessionID ev \<and>
       User o' = evUser ev \<and> of_session (evSessionID ev) mid \<and>
       ((\<exists>rej. ph = RejectedAll ev rej) \<or> (\<exists>px cl. ph = Proxying ev px cl \<and> pxSessionID px = evSessionID ev)))"
proof (cases "ceHandshake env (publicKeyCallback (ceAuth env) cfg)")
  case (Inl e)
  then show ?thesis using assms(1) by (simp add: conn_begin_def)
next
  case (Inr mp)
  obtain meta p where mp: "mp = (meta, p)" by (cases mp)
  define ev where "ev = \<lparr>evSink = server_audit cfg, evSessionID = uuids w (drawn w), evUser = ext p ''key-id'', evPrincipals = ext p ''principals'',
                    evTarget = ext p ''target-host'', evRemoteUser = ext p ''remote-user'', evClientIP = ipFromAddr (ceRemote env)\<rparr>"
  define w1 where "w1 = w\<lparr>drawn := Suc (drawn w)\<rparr>"
  define w2 where "w2 = ev_emit ev ActionSessionOpened [] [] w1"
  have sink: "evSink ev = JournalSink f" using assms(2) by (simp add: ev_def server_audit_def)
  have p1: "published w1 = published w" by (simp add: w1_def published_def)
  obtain o' where o: "published w2 = published w @ [o']" "Action o' = ActionSessionOpened" "SessionID o' = evSessionID ev" "User o' = evUser ev"
    using ev_emit_published[OF sink, of ActionSessionOpened "[]" "[]" w1] p1 unfolding w2_def by auto
  have rej: "\<exists>mid. published (ev_emit ev ActionChannelRejected reason md w2) = published w @ o' # mid \<and> of_session (evSessionID ev) mid"
    for reason md
    using ev_emit_published[OF sink, of ActionChannelRejected reason md w2] o(1) by (auto simp: of_session_def action_defs)
  have "(\<exists>rej reason md. ph = RejectedAll ev rej \<and> w' = ev_emit ev ActionChannelRejected reason md w2) \<or>
        (\<exists>px cl. ph = Proxying ev px cl \<and> pxSessionID px = evSessionID ev \<and> w' = w2)"
    using assms(1) Inr mp
    unfolding conn_begin_def NewString_def w2_def w1_def ev_def
    by (auto simp: Let_def NewProxier_def split: sum.splits prod.splits option.splits)
  then have "\<exists>mid. published w' = published w @ o' # mid \<and> of_session (evSessionID ev) mid \<and>
       ((\<exists>rej. ph = RejectedAll ev rej) \<or> (\<exists>px cl. ph = Proxying ev px cl \<and> pxSessionID px = evSessionID ev))"
    using rej o(1) by (fastforce simp: of_session_def)
  moreover have "evSessionID ev = uuids w (drawn w)" "evUser ev = ext p ''key-id''" by (simp_all add: ev_def)
  ultimately show ?thesis using Inr mp sink o(2-4) by blast
qed

section \<open>Properties\<close>

definition demo_auth :: authenticate where
  "demo_auth ca rv user key = (case key of
     PlainKey _ \<Rightarrow> Inl (Msg ''ssh: normal key pairs not accepted'')
   | CertKey c \<Rightarrow>
       if ca (SignatureKey c) \<and> \<not> rv (Some c) \<and> (ValidPrincipals c = [] \<or> user \<in> set (ValidPrincipals c))
       then Inr (CertPermissions c) else Inl (Msg ''ssh: cert refused''))"

lemma demo_auth_spec: "authenticate_spec demo_auth"
  by (auto simp: authenticate_spec_def demo_auth_def split: pubkey.splits if_splits)

definition demo_ssh_cert :: certificate where
  "demo_ssh_cert = \<lparr>Serial = 7, KeyId = ''user:alice'', ValidPrincipals = [''ops''], SignatureKey = ''ca'',
     CertPermissions = \<lparr>CriticalOptions = Map.empty, Extensions = [extPermitPTY \<mapsto> []]\<rparr>\<rparr>"

definition demo_ssh_config :: ssh_config where
  "demo_ssh_config = \<lparr>scAddr = '':2222'', scHostSigner = Some 1, scTrustedUserCA = Some ''ca'', scClientSigner = Some (StaticSigner 2),
     scTargetHostKey = Some 3, scRecordingSink = None, scAudit = Some (JournalSink (\<lambda>_. None)), scTunnels = False,
     scRevocations = None, scHandshakeTimeout = 0\<rparr>"

definition demo_ssh_meta :: conn_meta where
  "demo_ssh_meta = \<lparr>metaUser = ''ops@db-1'', metaRemote = None\<rparr>"

lemma demo_callback: "\<exists>p. publicKeyCallback demo_auth demo_ssh_config demo_ssh_meta (CertKey demo_ssh_cert) = Inr p"
proof -
  have "ParseTarget ''ops@db-1'' = Inr (''ops'', ''db-1'')" by (simp add: ParseTarget_Inr)
  then show ?thesis
    by (simp add: publicKeyCallback_def demo_ssh_meta_def demo_auth_def demo_ssh_cert_def demo_ssh_config_def
        IsUserAuthority_def server_IsRevoked_def SourceAddressOK_def)
qed

text \<open>
  C26. Who gets in. A key is accepted only if it is a certificate signed by the trusted user CA and not
  revoked, if the SSH username is user@host with the user among the certificate's principals (or the
  certificate naming none), and if the client's address satisfies the certificate's source-address option;
  the session is then attributed to the certificate's key id, user and host, whatever extensions the
  certificate carries, and keeps exactly the certificate's critical options and permit-* extensions.\<close>
theorem callback_admits_valid_certs:
  assumes "authenticate_spec auth" and "publicKeyCallback auth cfg meta key = Inr p"
  shows "\<exists>c u h. key = CertKey c \<and> metaUser meta = u @ ''@'' @ h \<and> CHR ''@'' \<notin> set h \<and>
    scTrustedUserCA cfg = Some (SignatureKey c) \<and> (\<forall>check. scRevocations cfg = Some check \<longrightarrow> \<not> check (Some c)) \<and>
    (ValidPrincipals c = [] \<or> u \<in> set (ValidPrincipals c)) \<and>
    SourceAddressOK (new_enforcer (Some (CertPermissions c))) (metaRemote meta) \<and>
    ext p ''key-id'' = KeyId c \<and> ext p ''remote-user'' = u \<and> ext p ''target-host'' = h \<and>
    CriticalOptions p = CriticalOptions (CertPermissions c) \<and>
    list_all (\<lambda>name. Extensions p name = Extensions (CertPermissions c) name)
      [extPermitPTY, extPermitPortForwarding, extPermitAgentForwarding, extPermitX11Forwarding, extPermitUserRC]"
proof -
  obtain c u h where c: "key = CertKey c" "metaUser meta = u @ ''@'' @ h" "CHR ''@'' \<notin> set h"
    "scTrustedUserCA cfg = Some (SignatureKey c)" "\<not> server_IsRevoked cfg (Some c)"
    "ValidPrincipals c = [] \<or> u \<in> set (ValidPrincipals c)"
    "SourceAddressOK (new_enforcer (Some (CertPermissions c))) (metaRemote meta)"
    "p = (CertPermissions c)\<lparr>Extensions := (Extensions (CertPermissions c))
          (''key-id'' \<mapsto> KeyId c, ''principals'' \<mapsto> join_with '','' (ValidPrincipals c),
           ''serial'' \<mapsto> fmt_int (uint (Serial c)), ''remote-user'' \<mapsto> u, ''target-host'' \<mapsto> h)\<rparr>"
    using publicKeyCallback_admits[OF assms] by blast
  have e: "ext p ''key-id'' = KeyId c" "ext p ''remote-user'' = u" "ext p ''target-host'' = h"
    "CriticalOptions p = CriticalOptions (CertPermissions c)"
    "list_all (\<lambda>name. Extensions p name = Extensions (CertPermissions c) name)
      [extPermitPTY, extPermitPortForwarding, extPermitAgentForwarding, extPermitX11Forwarding, extPermitUserRC]"
    by (simp_all add: c(8) ext_def rbac_names)
  have "\<forall>check. scRevocations cfg = Some check \<longrightarrow> \<not> check (Some c)" using c(5) by (auto simp: server_IsRevoked_def split: option.splits)
  then show ?thesis using c(1-4,6,7) e by blast
qed

theorem callback_admits_valid_certs_witness:
  "\<exists>p c u h. publicKeyCallback demo_auth demo_ssh_config demo_ssh_meta (CertKey demo_ssh_cert) = Inr p \<and>
     CertKey demo_ssh_cert = CertKey c \<and> metaUser demo_ssh_meta = u @ ''@'' @ h \<and> ext p ''key-id'' = KeyId c"
proof -
  obtain p where p: "publicKeyCallback demo_auth demo_ssh_config demo_ssh_meta (CertKey demo_ssh_cert) = Inr p"
    using demo_callback by blast
  from callback_admits_valid_certs[OF demo_auth_spec p] p show ?thesis by blast
qed

text \<open>
  C27. A session's audit trail is bracketed. A connection whose handshake fails leaves no trace; every other
  one publishes session.opened first and session.closed last, on every path and in every interleaving of
  its channels, and everything in between carries the same fresh session id; the session is attributed to
  the key id of a certificate signed by the trusted CA that was not revoked.\<close>
theorem session_audit_bracketed:
  assumes "handleConn cfg env lib reg w reg' w'" and "scAudit cfg = Some (JournalSink f)" and "uuids w (drawn w) \<noteq> []"
    and "authenticate_spec (ceAuth env)" and "handshake_spec (ceHandshake env)"
  shows "w' = w \<or>
    (\<exists>o' mid c' cert. published w' = published w @ o' # mid @ [c'] \<and>
       Action o' = ActionSessionOpened \<and> Action c' = ActionSessionClosed \<and>
       SessionID o' = uuids w (drawn w) \<and> SessionID c' = SessionID o' \<and> of_session (SessionID o') mid \<and>
       User o' = KeyId cert \<and> User c' = KeyId cert \<and>
       scTrustedUserCA cfg = Some (SignatureKey cert) \<and> \<not> server_IsRevoked cfg (Some cert))"
proof -
  have fin: ?thesis
    if b: "conn_begin cfg env reg w = (ph, reg', w1)"
      and ph: "(\<exists>rej. ph = RejectedAll ev rej \<and> w2 = w1) \<or> (\<exists>px cl. ph = Proxying ev px cl \<and> HandleNewChannels px lib w1 w2)"
      and w': "w' = ev_emit ev ActionSessionClosed [] [] w2" for ph w1 w2 ev
  proof -
    obtain meta p o' mid where B: "ceHandshake env (publicKeyCallback (ceAuth env) cfg) = Inr (meta, p)"
      "evSink ev = JournalSink f" "evSessionID ev = uuids w (drawn w)" "evUser ev = ext p ''key-id''"
      "published w1 = published w @ o' # mid" "Action o' = ActionSessionOpened" "SessionID o' = evSessionID ev"
      "User o' = evUser ev" "of_session (evSessionID ev) mid"
      "(\<exists>rej. ph = RejectedAll ev rej) \<or> (\<exists>px cl. ph = Proxying ev px cl \<and> pxSessionID px = evSessionID ev)"
      using conn_begin_phases[OF b assms(2)] ph by auto
    obtain mid' where m: "published w2 = published w1 @ mid'" "of_session (evSessionID ev) mid'"
    proof -
      from ph B(10) consider "w2 = w1" | px where "HandleNewChannels px lib w1 w2" "pxSessionID px = evSessionID ev" by auto
      then show ?thesis
      proof cases
        case 1
        then show ?thesis by (intro that[of "[]"]) (simp_all add: of_session_def)
      next
        case (2 px)
        then show ?thesis using HandleNewChannels_published[OF 2(1)] that assms(3) B(3) by auto
      qed
    qed
    obtain c' where c': "published w' = published w2 @ [c']" "Action c' = ActionSessionClosed" "SessionID c' = evSessionID ev" "User c' = evUser ev"
      using ev_emit_published[OF B(2), of ActionSessionClosed "[]" "[]" w2] w' by auto
    obtain key where "publicKeyCallback (ceAuth env) cfg meta key = Inr p" using assms(5) B(1) unfolding handshake_spec_def by blast
    from publicKeyCallback_admits[OF assms(4) this] obtain cert where
      "scTrustedUserCA cfg = Some (SignatureKey cert)" "\<not> server_IsRevoked cfg (Some cert)" "ext p ''key-id'' = KeyId cert"
      by (auto simp: ext_def)
    then show ?thesis
      using B m c' by (intro disjI2 exI[of _ o'] exI[of _ "mid @ mid'"] exI[of _ c'] exI[of _ cert]) simp
  qed
  from assms(1) show ?thesis
  proof (cases rule: handleConn.cases)
    case failed
    then show ?thesis using conn_begin_phases[OF failed assms(2)] by auto
  next
    case (rejected ev rej w1)
    then show ?thesis using fin[OF rejected(2)] by blast
  next
    case (proxied ev p client w1 w2)
    then show ?thesis using fin[OF proxied(2)] by blast
  qed
qed

text \<open>Every connection has a run: a handler is never stuck.\<close>

lemma handleConn_total: "\<exists>reg' w'. handleConn cfg env lib reg w reg' w'"
proof -
  obtain ph reg' w1 where b: "conn_begin cfg env reg w = (ph, reg', w1)" by (cases "conn_begin cfg env reg w")
  have "HandleNewChannels p lib w1 w1" for p
    unfolding HandleNewChannels_def by (intro exI[of _ Map.empty]) (simp add: channels_run.none all_done_def)
  then show ?thesis using b by (cases ph) (metis handleConn.intros)+
qed

definition demo_conn_env :: conn_env where
  "demo_conn_env = \<lparr>ceAuth = demo_auth,
     ceHandshake = (\<lambda>cb. case cb demo_ssh_meta (CertKey demo_ssh_cert) of Inl e \<Rightarrow> Inl e | Inr p \<Rightarrow> Inr (demo_ssh_meta, p)),
     ceRemote = None, ceReg = demo_env, ceOpenStream = (\<lambda>s. Inr s), ceCtxErr = None, ceTcp = (\<lambda>_. Inr 9),
     ceClientHandshake = (\<lambda>_ _ _. Inr ()), ceRejected = []\<rparr>"

theorem session_audit_bracketed_witness:
  "\<exists>reg' w'. handleConn demo_ssh_config demo_conn_env demo_lib new_registry demo_world reg' w' \<and>
    (w' = demo_world \<or>
     (\<exists>o' mid c' (cert :: certificate). published w' = published demo_world @ o' # mid @ [c'] \<and>
       Action o' = ActionSessionOpened \<and> Action c' = ActionSessionClosed \<and> User o' = KeyId cert))"
proof -
  obtain reg' w' where h: "handleConn demo_ssh_config demo_conn_env demo_lib new_registry demo_world reg' w'"
    using handleConn_total by blast
  have a: "scAudit demo_ssh_config = Some (JournalSink (\<lambda>_. None))" by (simp add: demo_ssh_config_def)
  have u: "uuids demo_world (drawn demo_world) \<noteq> []" by (simp add: demo_world_def)
  have s: "authenticate_spec (ceAuth demo_conn_env)" using demo_auth_spec by (simp add: demo_conn_env_def)
  have hs: "handshake_spec (ceHandshake demo_conn_env)"
    by (auto simp: handshake_spec_def demo_conn_env_def split: sum.splits)
  from session_audit_bracketed[OF h a u s hs] h show ?thesis by blast
qed

text \<open>
  How a target is reached. With tunnels enabled and the context alive, a host with a live registered
  tunnel is dialled on that tunnel's session and nowhere else, even when opening the stream fails; only a
  host without one is dialled directly. The port of the address plays no role in the choice, and the
  lookup changes no other host's route.\<close>
theorem tunnel_routing:
  assumes "wf_registry env r" and "tunnelTransport env open_stream None tcp True host = Some tr"
    and "\<And>s e. open_stream s = Inl e \<Longrightarrow> \<not> errors_is e ErrNoTunnel"
    and "tr timeout addr r = (res, r')"
  shows "(case abs_reg env r (normalize env (tunnel_host host)) of
            Some s \<Rightarrow> (case open_stream s of Inr c \<Rightarrow> res = Inr c | Inl e \<Rightarrow> \<exists>msg. res = Inl (Wrap msg e))
          | None \<Rightarrow> res = tcp addr) \<and>
         abs_reg env r' = abs_reg env r"
proof -
  have d: "distinct (map fst (tunnels r))" using assms(1) by (simp add: wf_registry_def)
  obtain lr r1 where l: "Lookup env r (tunnel_host host) = (lr, r1)" by (cases "Lookup env r (tunnel_host host)")
  note L = Lookup_abs[OF d, of env "tunnel_host host", unfolded l fst_conv snd_conv]
  have tr: "tr timeout addr r = (case Open env open_stream None r (tunnel_host host) of
          (Inr conn, r') \<Rightarrow> (Inr conn, r')
        | (Inl err, r') \<Rightarrow> if \<not> errors_is err ErrNoTunnel then (Inl err, r') else (tcp addr, r'))"
    using assms(2) by (auto simp: tunnelTransport_def)
  have nt: "errors_is ErrNoTunnel ErrNoTunnel" by (simp add: ErrNoTunnel_def)
  show ?thesis
    using assms(4) L assms(3) nt unfolding tr Open_def option.case l prod.case
    by (cases "abs_reg env r (normalize env (tunnel_host host))"; cases "open_stream (the (abs_reg env r (normalize env (tunnel_host host))))") (auto split: sum.splits)
qed

theorem tunnel_routing_witness:
  "\<exists>tr res r'. tunnelTransport demo_env (\<lambda>s. Inr (100 + s)) None (\<lambda>_. Inl (Msg ''no route'')) True ''db-1:22'' = Some tr \<and>
     tr 0 ''db-1:22'' demo_registry = (res, r') \<and>
     (case abs_reg demo_env demo_registry (normalize demo_env (tunnel_host ''db-1:22'')) of
        Some s \<Rightarrow> res = Inr (100 + s) | None \<Rightarrow> res = Inl (Msg ''no route''))"
proof -
  obtain tr where t: "tunnelTransport demo_env (\<lambda>s. Inr (100 + s)) None (\<lambda>_. Inl (Msg ''no route'')) True ''db-1:22'' = Some tr"
    by (simp add: tunnelTransport_def)
  obtain res r' where tr: "tr 0 ''db-1:22'' demo_registry = (res, r')" by (cases "tr 0 ''db-1:22'' demo_registry")
  have wf: "wf_registry demo_env demo_registry" by (rule demo_registry_wf)
  from tunnel_routing[OF wf t _ tr] t tr show ?thesis by (auto split: option.splits)
qed

end
