(* ===== verification/Wind_Down.thy ===== *)
theory Wind_Down
  imports Prelude
begin

text \<open>
  The contract of a component that winds down: an invariant its own steps keep, a condition under which it is
  stopping, and work that each of its own steps reduces. A stopping component that has not ended always has a
  step of its own; so its own steps lead to the end, whatever they are.
\<close>

locale winding_down =
  fixes own :: "'s \<Rightarrow> 's \<Rightarrow> bool" and work :: "'s \<Rightarrow> nat" and inv :: "'s \<Rightarrow> bool"
    and stopping :: "'s \<Rightarrow> bool" and ended :: "'s \<Rightarrow> bool"
  assumes own_inv: "own s s' \<Longrightarrow> inv s \<Longrightarrow> inv s'"
    and own_stopping: "own s s' \<Longrightarrow> inv s \<Longrightarrow> stopping s \<Longrightarrow> stopping s'"
    and own_less: "own s s' \<Longrightarrow> inv s \<Longrightarrow> work s' < work s"
    and own_enabled: "inv s \<Longrightarrow> stopping s \<Longrightarrow> \<not> ended s \<Longrightarrow> \<exists>s'. own s s'"
begin

lemma gets_to_end: "inv s \<Longrightarrow> stopping s \<Longrightarrow> \<exists>s'. own\<^sup>*\<^sup>* s s' \<and> ended s'"
proof (induction "work s" arbitrary: s rule: less_induct)
  case less
  show ?case
  proof (cases "ended s")
    case False
    then obtain t where t: "own s t" using own_enabled less.prems by blast
    then obtain s' where "own\<^sup>*\<^sup>* t s'" "ended s'"
      using less.hyps[OF own_less[OF t less.prems(1)] own_inv[OF t less.prems(1)] own_stopping[OF t less.prems]] by blast
    with t show ?thesis by (meson converse_rtranclp_into_rtranclp)
  qed blast
qed

lemma bounded: "(own ^^ n) s s' \<Longrightarrow> inv s \<Longrightarrow> inv s' \<and> n + work s' \<le> work s"
proof (induction n arbitrary: s')
  case (Suc n)
  then obtain t where t: "(own ^^ n) s t" "own t s'" by auto
  with Suc have "inv t" "n + work t \<le> work s" by blast+
  then show ?case using own_inv[OF t(2)] own_less[OF t(2)] by simp
qed simp

end

end
