(* ===== verification/Ssh_Serve.thy ===== *)
theory Ssh_Serve
  imports Ssh_Server Wind_Down
begin

text \<open>
  \<^verbatim>\<open>ListenAndServe\<close> of \<^verbatim>\<open>internal/proxyd/ssh/server.go\<close>: the accept loop of the gateway, the goroutine that closes the
  listener when the context fires, and the connection handlers it waits for. A handler is its connection; what
  it does is \<^verbatim>\<open>handleConn\<close> of \<^verbatim>\<open>Ssh_Server\<close>. The lemmas show what a shutdown waits for and that it comes to an end.
\<close>

section \<open>States\<close>

text \<open>Where the loop is: in \<^verbatim>\<open>Accept\<close>, in the wait for the handlers, or returned with its error.\<close>

datatype ssh_loop = SshAccepting | SshWaiting | SshReturned "go_error option"

text \<open>
  Handlers that run, and connections that are over: the handshake has failed or timed out, or the user's
  connection has ended, which closes the stream of channels that \<^verbatim>\<open>HandleNewChannels\<close> or \<^verbatim>\<open>rejectAll\<close> reads. A
  context that fires ends no handler: it can fail the dial, and \<^verbatim>\<open>rejectAll\<close> then goes on to the end of the
  connection with another message. \<open>ssCloser\<close> is the goroutine that waits for the context or the return.
\<close>

record ssh_sys =
  ssHandlers :: "nat set"
  ssOver :: "nat set"
  ssCtx :: bool
  ssOpen :: bool
  ssCloser :: bool
  ssLoop :: ssh_loop

text \<open>\<open>listen\<close> is \<^verbatim>\<open>net.Listen\<close> on the configured address.\<close>

definition ListenAndServe :: "ssh_config \<Rightarrow> (string \<Rightarrow> unit result) \<Rightarrow> bool \<Rightarrow> ssh_sys" where
  "ListenAndServe cfg listen ctx_fired =
     (case listen (scAddr cfg) of
        Inl e \<Rightarrow> \<lparr>ssHandlers = {}, ssOver = {}, ssCtx = ctx_fired, ssOpen = False, ssCloser = False,
                   ssLoop = SshReturned (Some (Wrap (''listen '' @ scAddr cfg) e))\<rparr>
      | Inr _ \<Rightarrow> \<lparr>ssHandlers = {}, ssOver = {}, ssCtx = ctx_fired, ssOpen = True, ssCloser = True, ssLoop = SshAccepting\<rparr>)"

text \<open>What the loop does with an error of \<^verbatim>\<open>Accept\<close>.\<close>

definition after_accept_error :: "go_error \<Rightarrow> ssh_loop" where
  "after_accept_error e = (if isClosedErr e then SshWaiting else SshReturned (Some (Wrap ''accept'' e)))"

section \<open>Steps\<close>

inductive ssh_env :: "ssh_sys \<Rightarrow> ssh_sys \<Rightarrow> bool" where
  se_cancel: "ssh_env z (z\<lparr>ssCtx := True\<rparr>)"
| se_connect: "ssLoop z = SshAccepting \<Longrightarrow> ssOpen z \<Longrightarrow> i \<notin> ssHandlers z \<Longrightarrow> i \<notin> ssOver z \<Longrightarrow>
     ssh_env z (z\<lparr>ssHandlers := insert i (ssHandlers z)\<rparr>)"
| se_over: "i \<in> ssHandlers z \<Longrightarrow> ssh_env z (z\<lparr>ssOver := insert i (ssOver z)\<rparr>)"
| se_broken: "ssLoop z = SshAccepting \<Longrightarrow> ssOpen z \<Longrightarrow> \<not> isClosedErr e \<Longrightarrow> ssh_env z (z\<lparr>ssLoop := after_accept_error e\<rparr>)"

text \<open>
  The closing goroutine leaves without closing the listener when it sees the return first; with both at hand
  its \<^verbatim>\<open>select\<close> may take either.
\<close>

inductive ssh_work :: "ssh_sys \<Rightarrow> ssh_sys \<Rightarrow> bool" where
  sw_close: "ssCloser z \<Longrightarrow> ssCtx z \<Longrightarrow> ssh_work z (z\<lparr>ssOpen := False, ssCloser := False\<rparr>)"
| sw_leave: "ssCloser z \<Longrightarrow> ssLoop z = SshReturned r \<Longrightarrow> ssh_work z (z\<lparr>ssCloser := False\<rparr>)"
| sw_closed: "ssLoop z = SshAccepting \<Longrightarrow> \<not> ssOpen z \<Longrightarrow> ssh_work z (z\<lparr>ssLoop := after_accept_error ErrClosed\<rparr>)"
| sw_handled: "i \<in> ssHandlers z \<Longrightarrow> i \<in> ssOver z \<Longrightarrow> ssh_work z (z\<lparr>ssHandlers := ssHandlers z - {i}\<rparr>)"
| sw_return: "ssLoop z = SshWaiting \<Longrightarrow> ssHandlers z = {} \<Longrightarrow> ssh_work z (z\<lparr>ssLoop := SshReturned None\<rparr>)"

inductive ssh_reachable :: "ssh_sys \<Rightarrow> ssh_sys \<Rightarrow> bool" for z0 where
  sh_start: "ssh_reachable z0 z0"
| sh_env: "ssh_reachable z0 z \<Longrightarrow> ssh_env z z' \<Longrightarrow> ssh_reachable z0 z'"
| sh_work: "ssh_reachable z0 z \<Longrightarrow> ssh_work z z' \<Longrightarrow> ssh_reachable z0 z'"

section \<open>Shutdown\<close>

definition ssh_inv :: "ssh_sys \<Rightarrow> bool" where
  "ssh_inv z \<longleftrightarrow> finite (ssHandlers z) \<and> (ssLoop z = SshWaiting \<longrightarrow> ssCtx z \<and> \<not> ssOpen z) \<and>
     (ssLoop z = SshReturned None \<longrightarrow> ssHandlers z = {} \<and> ssCtx z) \<and>
     (ssLoop z = SshAccepting \<and> \<not> ssOpen z \<longrightarrow> ssCtx z) \<and> (ssLoop z = SshAccepting \<and> ssOpen z \<longrightarrow> ssCloser z)"

lemma closed_err: "isClosedErr ErrClosed"
  by (simp add: isClosedErr_def ErrClosed_def)

lemma ListenAndServe_inv: "ssh_inv (ListenAndServe cfg listen ctx_fired)"
  by (auto simp: ssh_inv_def ListenAndServe_def split: sum.splits)

lemma ssh_env_inv: "ssh_env z z' \<Longrightarrow> ssh_inv z \<Longrightarrow> ssh_inv z'"
  by (induction rule: ssh_env.induct) (auto simp: ssh_inv_def after_accept_error_def)

lemma ssh_work_inv: "ssh_work z z' \<Longrightarrow> ssh_inv z \<Longrightarrow> ssh_inv z'"
  by (induction rule: ssh_work.induct) (auto simp: ssh_inv_def after_accept_error_def closed_err)

lemma ssh_reachable_inv: "ssh_reachable z0 z \<Longrightarrow> ssh_inv z0 \<Longrightarrow> ssh_inv z"
  by (induction rule: ssh_reachable.induct) (auto intro: ssh_env_inv ssh_work_inv)

definition ssh_left :: "ssh_sys \<Rightarrow> nat" where
  "ssh_left z = card (ssHandlers z) + (if ssCloser z then 1 else 0) +
     (case ssLoop z of SshAccepting \<Rightarrow> 2 | SshWaiting \<Rightarrow> 1 | SshReturned _ \<Rightarrow> 0)"

definition all_over :: "ssh_sys \<Rightarrow> bool" where
  "all_over z \<longleftrightarrow> ssCtx z \<and> ssHandlers z \<subseteq> ssOver z"

lemma ssh_work_less: "ssh_work z z' \<Longrightarrow> ssh_inv z \<Longrightarrow> ssh_left z' < ssh_left z"
proof (induction rule: ssh_work.induct)
  case (sw_handled i z)
  then have "card (ssHandlers z - {i}) < card (ssHandlers z)" by (intro card_Diff1_less) (simp_all add: ssh_inv_def)
  then show ?case by (simp add: ssh_left_def del: card_Diff_insert)
qed (auto simp: ssh_left_def after_accept_error_def closed_err)

lemma ssh_work_enabled:
  assumes "ssh_inv z" "all_over z" "\<nexists>e. ssLoop z = SshReturned e"
  shows "\<exists>z'. ssh_work z z'"
proof (cases "ssHandlers z = {}")
  case False
  then obtain i where "i \<in> ssHandlers z" "i \<in> ssOver z" using assms(2) by (auto simp: all_over_def)
  from sw_handled[OF this] show ?thesis by blast
next
  case True
  then show ?thesis using assms sw_close[of z] sw_closed[of z] sw_return[of z]
    by (cases "ssLoop z"; cases "ssOpen z") (auto simp: all_over_def ssh_inv_def)
qed

interpretation ssh_down: winding_down ssh_work ssh_left ssh_inv all_over "\<lambda>z. \<exists>e. ssLoop z = SshReturned e"
proof
  fix z z'
  show "ssh_work z z' \<Longrightarrow> ssh_inv z \<Longrightarrow> ssh_inv z'" by (rule ssh_work_inv)
  show "ssh_work z z' \<Longrightarrow> ssh_inv z \<Longrightarrow> ssh_left z' < ssh_left z" by (rule ssh_work_less)
  show "ssh_work z z' \<Longrightarrow> all_over z \<Longrightarrow> all_over z'"
    by (induction rule: ssh_work.induct) (auto simp: all_over_def)
  show "ssh_inv z \<Longrightarrow> all_over z \<Longrightarrow> \<not> (\<exists>e. ssLoop z = SshReturned e) \<Longrightarrow> \<exists>z'. ssh_work z z'" by (rule ssh_work_enabled)
qed



end
