(* ===== verification/Listener.thy ===== *)
theory Listener
  imports Registry
begin

text \<open>
  The tunnel listener, \<^verbatim>\<open>internal/proxyd/routing/listener.go\<close>: it accepts mTLS connections from
  ssh-tunneld agents, derives host labels from the SPIFFE URI of the peer certificate, registers the
  yamux session under them and withdraws it when the session ends. Concurrent connections are a step
  relation; its invariant says that every registered label belongs to a connection being served and
  to that connection's certificate.
\<close>

section \<open>Host labels of a certificate\<close>

record url =
  url_scheme :: string
  url_path :: string

record leaf_cert =
  cert_uris :: "url list"

fun spiffe_uri :: "url list \<Rightarrow> url option \<Rightarrow> url option result" where
  "spiffe_uri [] found = Inr found"
| "spiffe_uri (u # us) found =
     (if EqualFold (url_scheme u) ''spiffe'' then
        (if found \<noteq> None then Inl (Msg ''cert has multiple SPIFFE URIs'') else spiffe_uri us (Some u))
      else spiffe_uri us found)"

definition trimmed_parts :: "string list \<Rightarrow> string list" where
  "trimmed_parts parts = filter (\<lambda>p. p \<noteq> []) (map TrimSpace parts)"

definition HostFromSPIFFE :: "leaf_cert option \<Rightarrow> string list result" where
  "HostFromSPIFFE leaf =
     (case leaf of None \<Rightarrow> Inl (Msg ''nil cert'')
      | Some c \<Rightarrow>
          (case spiffe_uri (cert_uris c) None of
             Inl e \<Rightarrow> Inl e
           | Inr None \<Rightarrow> Inl (Msg ''cert has no SPIFFE URI'')
           | Inr (Some u) \<Rightarrow>
               if \<not> HasPrefix (url_path u) ''/host/''
               then Inl (Msg ''SPIFFE path does not start with /host/'')
               else let tail = TrimPrefix (url_path u) ''/host/'' in
                    if tail = [] then Inl (Msg ''SPIFFE path has no host component'')
                    else let out = trimmed_parts (split_on (CHR '','') tail) in
                         if out = [] then Inl (Msg ''SPIFFE host component is empty after parsing'')
                         else Inr out))"

lemma spiffe_uri_Some:
  "spiffe_uri us found = Inr (Some u) \<longleftrightarrow>
     (case found of
        None \<Rightarrow> filter (\<lambda>v. EqualFold (url_scheme v) ''spiffe'') us = [u]
      | Some f \<Rightarrow> u = f \<and> filter (\<lambda>v. EqualFold (url_scheme v) ''spiffe'') us = [])"
  by (induction us found rule: spiffe_uri.induct) (auto split: option.splits)

lemma HostFromSPIFFE_Inr:
  "HostFromSPIFFE (Some c) = Inr hs \<longleftrightarrow>
     (\<exists>u tail. filter (\<lambda>v. EqualFold (url_scheme v) ''spiffe'') (cert_uris c) = [u]
        \<and> url_path u = ''/host/'' @ tail \<and> tail \<noteq> []
        \<and> hs = trimmed_parts (split_on (CHR '','') tail) \<and> hs \<noteq> [])"
  (is "?l \<longleftrightarrow> ?r")
proof
  assume ?l
  then obtain u where u: "spiffe_uri (cert_uris c) None = Inr (Some u)" "HasPrefix (url_path u) ''/host/''"
    and t: "TrimPrefix (url_path u) ''/host/'' \<noteq> []"
      "hs = trimmed_parts (split_on (CHR '','') (TrimPrefix (url_path u) ''/host/''))" "hs \<noteq> []"
    by (auto simp: HostFromSPIFFE_def Let_def split: sum.splits option.splits if_splits)
  from u(2) obtain tail where tail: "url_path u = ''/host/'' @ tail" by (auto simp: HasPrefix_iff)
  then have "TrimPrefix (url_path u) ''/host/'' = tail" by (simp add: TrimPrefix_def HasPrefix_def)
  with u(1) t tail show ?r by (auto simp: spiffe_uri_Some)
next
  assume ?r
  then obtain u tail where u: "spiffe_uri (cert_uris c) None = Inr (Some u)"
    and tail: "url_path u = ''/host/'' @ tail" "tail \<noteq> []"
      "hs = trimmed_parts (split_on (CHR '','') tail)" "hs \<noteq> []"
    by (auto simp: spiffe_uri_Some)
  have "TrimPrefix (url_path u) ''/host/'' = tail" "HasPrefix (url_path u) ''/host/''"
    using tail(1) by (simp_all add: TrimPrefix_def HasPrefix_def)
  with u tail show ?l by (simp add: HostFromSPIFFE_def)
qed

section \<open>Construction\<close>

text \<open>
  \<^verbatim>\<open>ListenerConfig\<close>. Of the TLS configuration and the logger only their presence is read here; the
  registry the listener populates is kept in the state below.
\<close>

record listener_config =
  lc_addr :: string
  lc_tls :: bool
  lc_registry :: bool
  lc_extractor :: "(leaf_cert option \<Rightarrow> string list result) option"

definition defaultHostExtractor :: "leaf_cert option \<Rightarrow> string list result" where
  "defaultHostExtractor leaf = HostFromSPIFFE leaf"

definition NewListener :: "listener_config \<Rightarrow> listener_config result" where
  "NewListener cfg =
     (if lc_addr cfg = [] then Inl (Msg ''addr is required'')
      else if \<not> lc_tls cfg then Inl (Msg ''TLSConfig is required'')
      else if \<not> lc_registry cfg then Inl (Msg ''registry is required'')
      else Inr (if lc_extractor cfg = None then cfg\<lparr>lc_extractor := Some defaultHostExtractor\<rparr> else cfg))"

section \<open>One connection\<close>

text \<open>
  What the listener learns of a connection: whether it is TLS, the handshake's outcome, the verified
  peer certificates, and what \<^verbatim>\<open>yamux.Server\<close> returns on it.
\<close>

record tunnel_conn =
  is_tls :: bool
  handshake_err :: "go_error option"
  peer_certs :: "leaf_cert list"
  yamux_server :: "session result"

text \<open>Where \<^verbatim>\<open>handleConn\<close> stands once it blocks or returns.\<close>

datatype conn_outcome =
    Dropped
  | SessionClosed session
  | Serving session "string list"

definition admit_conn ::
  "reg_env \<Rightarrow> (leaf_cert option \<Rightarrow> string list result) \<Rightarrow> tunnel_conn \<Rightarrow> registry
    \<Rightarrow> conn_outcome \<times> registry" where
  "admit_conn env extractor conn r =
     (if \<not> is_tls conn then (Dropped, r)
      else if handshake_err conn \<noteq> None then (Dropped, r)
      else if peer_certs conn = [] then (Dropped, r)
      else (case extractor (Some (hd (peer_certs conn))) of
              Inl _ \<Rightarrow> (Dropped, r)
            | Inr hosts \<Rightarrow>
                if hosts = [] then (Dropped, r)
                else (case yamux_server conn of
                        Inl _ \<Rightarrow> (Dropped, r)
                      | Inr s \<Rightarrow>
                          (case Register env r (Some s) hosts of
                             (Inl _, r') \<Rightarrow> (SessionClosed s, r')
                           | (Inr registered, r') \<Rightarrow> (Serving s registered, r')))))"

text \<open>The deferred clean-up: unregister, close the session, close the connection.\<close>

definition teardown_conn :: "reg_env \<Rightarrow> registry \<Rightarrow> session \<Rightarrow> reg_env \<times> registry" where
  "teardown_conn env r s = (kill {s} env, Unregister r (Some s))"

text \<open>\<^verbatim>\<open>handleConn\<close> from accept to return, with nothing interleaved.\<close>

definition handle_tunnel_conn ::
  "reg_env \<Rightarrow> (leaf_cert option \<Rightarrow> string list result) \<Rightarrow> tunnel_conn \<Rightarrow> registry \<Rightarrow> reg_env \<times> registry"
where
  "handle_tunnel_conn env extractor conn r =
     (case admit_conn env extractor conn r of
        (Dropped, r') \<Rightarrow> (env, r')
      | (SessionClosed s, r') \<Rightarrow> (kill {s} env, r')
      | (Serving s _, r') \<Rightarrow> teardown_conn env r' s)"

lemma admit_conn_Serving:
  assumes "admit_conn env extractor conn r = (Serving s labels, r')"
  shows "\<exists>c hosts. c \<in> set (peer_certs conn) \<and> extractor (Some c) = Inr hosts
      \<and> fst (Register env r (Some s) hosts) = Inr labels \<and> r' = snd (Register env r (Some s) hosts)
      \<and> yamux_server conn = Inr s"
proof -
  obtain hosts where h: "extractor (Some (hd (peer_certs conn))) = Inr hosts" "peer_certs conn \<noteq> []"
    "yamux_server conn = Inr s" "Register env r (Some s) hosts = (Inr labels, r')"
    using assms by (auto simp: admit_conn_def split: if_splits sum.splits prod.splits)
  then have "hd (peer_certs conn) \<in> set (peer_certs conn)" by simp
  moreover have "fst (Register env r (Some s) hosts) = Inr labels"
    "r' = snd (Register env r (Some s) hosts)" using h(4) by simp_all
  ultimately show ?thesis using h(1,3) by blast
qed

lemma admit_conn_other:
  assumes "admit_conn env extractor conn r = (out, r')" "\<And>s ls. out \<noteq> Serving s ls"
  shows "r' = r \<or> (\<exists>s hosts. out = SessionClosed s \<and> r' = snd (Register env r (Some s) hosts)
      \<and> \<not> is_ok (fst (Register env r (Some s) hosts)) \<and> yamux_server conn = Inr s)"
proof (cases out)
  case Dropped
  then show ?thesis using assms(1) by (auto simp: admit_conn_def split: if_splits sum.splits prod.splits)
next
  case (SessionClosed s)
  then obtain hosts e where "Register env r (Some s) hosts = (Inl e, r')" "yamux_server conn = Inr s"
    using assms(1) by (auto simp: admit_conn_def split: if_splits sum.splits prod.splits)
  then have "r' = snd (Register env r (Some s) hosts)" "\<not> is_ok (fst (Register env r (Some s) hosts))"
    by simp_all
  with SessionClosed \<open>yamux_server conn = Inr s\<close> show ?thesis by blast
next
  case (Serving s ls)
  with assms(2) show ?thesis by blast
qed

section \<open>Concurrent connections\<close>

record listener_sys =
  ls_env :: reg_env
  ls_reg :: registry
  ls_conns :: "nat \<rightharpoonup> tunnel_conn \<times> session"

text \<open>
  A connection is admitted under a fresh yamux session (a new pointer); it ends at any time after
  (its session closed, or the listener stops). Sessions die at any time and hosts are looked up at any time.
\<close>

inductive listener_step ::
  "(leaf_cert option \<Rightarrow> string list result) \<Rightarrow> listener_sys \<Rightarrow> listener_sys \<Rightarrow> bool" for ex
where
  ls_admit: "ls_conns y i = None \<Longrightarrow> (\<And>c t j. ls_conns y j = Some (c, t) \<Longrightarrow> t \<noteq> s) \<Longrightarrow>
     admit_conn (ls_env y) ex conn (ls_reg y) = (Serving s labels, r') \<Longrightarrow>
     listener_step ex y (y\<lparr>ls_reg := r', ls_conns := (ls_conns y)(i \<mapsto> (conn, s))\<rparr>)"
| ls_refuse: "(\<And>c t j. ls_conns y j = Some (c, t) \<Longrightarrow> yamux_server conn \<noteq> Inr t) \<Longrightarrow>
     admit_conn (ls_env y) ex conn (ls_reg y) = (out, r') \<Longrightarrow> (\<And>s ls. out \<noteq> Serving s ls) \<Longrightarrow>
     listener_step ex y
       (y\<lparr>ls_reg := r', ls_env := kill {s. out = SessionClosed s} (ls_env y)\<rparr>)"
| ls_end: "ls_conns y i = Some (conn, s) \<Longrightarrow>
     teardown_conn (ls_env y) (ls_reg y) s = (env', r') \<Longrightarrow>
     listener_step ex y (y\<lparr>ls_env := env', ls_reg := r', ls_conns := (ls_conns y)(i := None)\<rparr>)"
| ls_die: "listener_step ex y (y\<lparr>ls_env := kill {s} (ls_env y)\<rparr>)"
| ls_lookup: "listener_step ex y (y\<lparr>ls_reg := snd (Lookup (ls_env y) (ls_reg y) h)\<rparr>)"

inductive listener_reachable ::
  "(leaf_cert option \<Rightarrow> string list result) \<Rightarrow> (string \<Rightarrow> string) \<Rightarrow> listener_sys \<Rightarrow> bool" for ex ul
where
  ls_start: "listener_reachable ex ul
     \<lparr>ls_env = \<lparr>ulower = ul, dead = (\<lambda>_. False)\<rparr>, ls_reg = new_registry, ls_conns = Map.empty\<rparr>"
| ls_next: "listener_reachable ex ul y \<Longrightarrow> listener_step ex y y' \<Longrightarrow> listener_reachable ex ul y'"

text \<open>A registered label is owned: a connection being served holds its session and its certificate names it.\<close>

definition owned ::
  "(leaf_cert option \<Rightarrow> string list result) \<Rightarrow> listener_sys \<Rightarrow> string \<times> entry \<Rightarrow> bool" where
  "owned ex y he \<longleftrightarrow>
     (\<exists>i conn c hosts. ls_conns y i = Some (conn, entry_session (snd he))
        \<and> c \<in> set (peer_certs conn) \<and> ex (Some c) = Inr hosts
        \<and> fst he \<in> normalize (ls_env y) ` set hosts)"

definition unique_sessions :: "(nat \<rightharpoonup> tunnel_conn \<times> session) \<Rightarrow> bool" where
  "unique_sessions m \<longleftrightarrow>
     (\<forall>i j c d s. m i = Some (c, s) \<longrightarrow> m j = Some (d, s) \<longrightarrow> i = j)"

lemma unique_sessions_add:
  "unique_sessions m \<Longrightarrow> (\<And>c t j. m j = Some (c, t) \<Longrightarrow> t \<noteq> s) \<Longrightarrow> unique_sessions (m(i \<mapsto> (conn, s)))"
  unfolding unique_sessions_def by (metis fun_upd_apply option.inject prod.inject)

lemma unique_sessions_del: "unique_sessions m \<Longrightarrow> unique_sessions (m(i := None))"
  unfolding unique_sessions_def by (metis fun_upd_apply option.distinct(1))

definition listener_inv :: "(leaf_cert option \<Rightarrow> string list result) \<Rightarrow> listener_sys \<Rightarrow> bool" where
  "listener_inv ex y \<longleftrightarrow>
     wf_registry (ls_env y) (ls_reg y) \<and> (\<forall>he \<in> set (tunnels (ls_reg y)). owned ex y he)
     \<and> unique_sessions (ls_conns y)"

lemma abs_reg_kill_unused:
  assumes "\<And>l. abs_reg env r l \<noteq> Some s"
  shows "abs_reg (kill {s} env) r = abs_reg env r"
proof
  fix l
  show "abs_reg (kill {s} env) r l = abs_reg env r l"
    using assms[of l] by (auto simp: abs_reg_def kill_def split: option.splits)
qed

lemma normalize_kill [simp]: "normalize (kill S env) = normalize env"
  by (simp add: normalize_def kill_def fun_eq_iff)

lemma owned_env: "owned ex (y\<lparr>ls_env := kill S (ls_env y)\<rparr>) he = owned ex y he"
  by (simp add: owned_def)

lemma owned_reg: "owned ex (y\<lparr>ls_reg := r\<rparr>) he = owned ex y he"
  by (simp add: owned_def)

lemma Register_tunnels:
  "he \<in> set (tunnels (snd (Register env r (Some s) hosts))) \<Longrightarrow>
    he \<in> set (tunnels r) \<or>
    (entry_session (snd he) = s \<and> is_ok (fst (Register env r (Some s) hosts))
      \<and> fst he \<in> normalize env ` set hosts)"
proof -
  assume he: "he \<in> set (tunnels (snd (Register env r (Some s) hosts)))"
  show ?thesis
  proof (cases "\<exists>ns. normalize_hosts env hosts = Inr ns \<and> \<not> closed r \<and> hosts \<noteq> []")
    case False
    then have "snd (Register env r (Some s) hosts) = r" by (auto simp: Register_def split: sum.splits)
    with he show ?thesis by simp
  next
    case True
    then obtain ns where ns: "normalize_hosts env hosts = Inr ns" "\<not> closed r" "hosts \<noteq> []" by blast
    obtain e m where c: "claim_labels env s ns (tunnels r) = (e, m)" by fastforce
    have sub: "set m \<subseteq> set (tunnels r)" using claim_labels_subset[OF c] by blast
    have im: "set ns = normalize env ` set hosts" using ns(1) by (auto simp: normalize_hosts_Inr)
    show ?thesis
    proof (cases e)
      case None
      then have reg: "Register env r (Some s) hosts =
          (Inr ns, r\<lparr>tunnels := put_all m ns \<lparr>entry_session = s, entry_hosts = ns\<rparr>\<rparr>)"
        using ns c by (simp add: Register_def)
      with he have "he \<in> set (put_all m ns \<lparr>entry_session = s, entry_hosts = ns\<rparr>)" by simp
      from set_put_all[OF this] sub im reg show ?thesis by auto
    next
      case (Some err)
      then have "tunnels (snd (Register env r (Some s) hosts)) = m"
        using ns c by (simp add: Register_def)
      with he sub show ?thesis by auto
    qed
  qed
qed

lemma Register_error_tunnels:
  "\<not> is_ok (fst (Register env r (Some s) hosts)) \<Longrightarrow>
    set (tunnels (snd (Register env r (Some s) hosts))) \<subseteq> set (tunnels r)"
  by (rule subsetI) (drule Register_tunnels, blast)

lemma Unregister_tunnels:
  "he \<in> set (tunnels (Unregister r (Some s))) \<longleftrightarrow> he \<in> set (tunnels r) \<and> entry_session (snd he) \<noteq> s"
  by (auto simp: Unregister_def)

lemma Lookup_tunnels: "set (tunnels (snd (Lookup env r h))) \<subseteq> set (tunnels r)"
  by (auto simp: Lookup_def Unregister_def split: option.splits)

lemma listener_step_inv:
  assumes "listener_step ex y y'" "listener_inv ex y"
  shows "listener_inv ex y'"
  using assms(1)
proof cases
  case (ls_admit i s conn labels r')
  obtain c hosts where c: "c \<in> set (peer_certs conn)" "ex (Some c) = Inr hosts"
    "r' = snd (Register (ls_env y) (ls_reg y) (Some s) hosts)"
    using admit_conn_Serving[OF ls_admit(4)] by blast
  have wf: "wf_registry (ls_env y) r'" using assms(2) c(3) by (simp add: listener_inv_def Register_wf)
  have "owned ex y' he" if he: "he \<in> set (tunnels r')" for he
  proof -
    from Register_tunnels[OF he[unfolded c(3)]] show ?thesis
    proof
      assume "he \<in> set (tunnels (ls_reg y))"
      then have "owned ex y he" using assms(2) by (simp add: listener_inv_def)
      then obtain j d c' hs where "ls_conns y j = Some (d, entry_session (snd he))"
        "c' \<in> set (peer_certs d)" "ex (Some c') = Inr hs" "fst he \<in> normalize (ls_env y) ` set hs"
        by (auto simp: owned_def)
      moreover have "j \<noteq> i" using calculation(1) ls_admit(2) by auto
      ultimately show ?thesis unfolding owned_def ls_admit(1) by (intro exI[of _ j]) auto
    next
      assume "entry_session (snd he) = s \<and> is_ok (fst (Register (ls_env y) (ls_reg y) (Some s) hosts))
        \<and> fst he \<in> normalize (ls_env y) ` set hosts"
      then show ?thesis unfolding owned_def ls_admit(1) using c(1,2) by (intro exI[of _ i]) auto
    qed
  qed
  moreover have "unique_sessions (ls_conns y')"
    using unique_sessions_add[of "ls_conns y" s i conn] ls_admit(3) assms(2)
    by (simp add: listener_inv_def ls_admit(1))
  ultimately show ?thesis using wf by (simp add: listener_inv_def ls_admit(1))
next
  case (ls_refuse conn out r')
  have "wf_registry (ls_env y) r' \<and> set (tunnels r') \<subseteq> set (tunnels (ls_reg y))"
    using admit_conn_other[OF ls_refuse(3,4)]
  proof (elim disjE exE conjE)
    assume "r' = ls_reg y"
    then show ?thesis using assms(2) by (simp add: listener_inv_def)
  next
    fix s hosts assume "r' = snd (Register (ls_env y) (ls_reg y) (Some s) hosts)"
      "\<not> is_ok (fst (Register (ls_env y) (ls_reg y) (Some s) hosts))"
    then show ?thesis using assms(2) Register_error_tunnels by (simp add: listener_inv_def Register_wf)
  qed
  then have wf: "wf_registry (ls_env y) r'" and sub: "set (tunnels r') \<subseteq> set (tunnels (ls_reg y))" by simp_all
  have "owned ex y' he" if "he \<in> set (tunnels r')" for he
    using that sub assms(2) by (auto simp: listener_inv_def owned_def ls_refuse(1))
  with wf show ?thesis using assms(2) by (simp add: listener_inv_def ls_refuse(1))
next
  case (ls_end i conn s env' r')
  have e: "env' = kill {s} (ls_env y)" "r' = Unregister (ls_reg y) (Some s)"
    using ls_end(3) by (simp_all add: teardown_conn_def)
  have "owned ex y' he" if he: "he \<in> set (tunnels r')" for he
  proof -
    have h: "he \<in> set (tunnels (ls_reg y))" "entry_session (snd he) \<noteq> s"
      using he e(2) by (simp_all add: Unregister_tunnels)
    then have "owned ex y he" using assms(2) by (simp add: listener_inv_def)
    then obtain j d c' hs where "ls_conns y j = Some (d, entry_session (snd he))"
      "c' \<in> set (peer_certs d)" "ex (Some c') = Inr hs" "fst he \<in> normalize (ls_env y) ` set hs"
      by (auto simp: owned_def)
    moreover have "j \<noteq> i" using calculation(1) ls_end(2) h(2) by auto
    ultimately show ?thesis unfolding owned_def ls_end(1) e by (intro exI[of _ j]) auto
  qed
  moreover have "unique_sessions (ls_conns y')"
    using unique_sessions_del assms(2) by (simp add: listener_inv_def ls_end(1))
  ultimately show ?thesis using assms(2)
    by (simp add: listener_inv_def ls_end(1) e Unregister_wf)
next
  case (ls_die s)
  then show ?thesis using assms(2) by (auto simp: listener_inv_def owned_def)
next
  case (ls_lookup h)
  then show ?thesis using assms(2) Lookup_tunnels[of "ls_env y" "ls_reg y" h]
    by (auto simp: listener_inv_def owned_def Lookup_wf)
qed

lemma listener_reachable_inv: "listener_reachable ex ul y \<Longrightarrow> listener_inv ex y"
proof (induction rule: listener_reachable.induct)
  case ls_start
  show ?case by (simp add: listener_inv_def new_registry_wf unique_sessions_def) (simp add: new_registry_def)
next
  case (ls_next y y')
  then show ?case by (blast intro: listener_step_inv)
qed

section \<open>Properties\<close>

definition demo_cert :: leaf_cert where
  "demo_cert = \<lparr>cert_uris = [\<lparr>url_scheme = ''spiffe'', url_path = ''/host/db-1.prod,db-1''\<rparr>]\<rparr>"

definition demo_conn :: tunnel_conn where
  "demo_conn = \<lparr>is_tls = True, handshake_err = None, peer_certs = [demo_cert], yamux_server = Inr 7\<rparr>"

definition demo_sys :: listener_sys where
  "demo_sys =
     \<lparr>ls_env = \<lparr>ulower = (\<lambda>s. s), dead = (\<lambda>_. False)\<rparr>,
      ls_reg = snd (admit_conn \<lparr>ulower = (\<lambda>s. s), dead = (\<lambda>_. False)\<rparr> HostFromSPIFFE demo_conn new_registry),
      ls_conns = Map.empty(0 \<mapsto> (demo_conn, 7))\<rparr>"

text \<open>
  C8. A certificate whose only SPIFFE URI has the path \<open>/host/\<close> followed by comma-separated names yields
  exactly those names, in order: printing host labels into a certificate and extracting them is the
  identity.
\<close>

theorem HostFromSPIFFE_roundtrip:
  assumes "filter (\<lambda>v. EqualFold (url_scheme v) ''spiffe'') (cert_uris c) = [u]"
    and "url_path u = ''/host/'' @ join_with '','' hosts" and "hosts \<noteq> []"
    and "\<And>h. h \<in> set hosts \<Longrightarrow> h \<noteq> [] \<and> CHR '','' \<notin> set h \<and> space_free_ends h"
  shows "HostFromSPIFFE (Some c) = Inr hosts"
proof -
  have split: "split_on (CHR '','') (join_with '','' hosts) = hosts"
    using assms(3,4) by (intro split_join_with) auto
  have "map TrimSpace hosts = hosts" using assms(4) by (intro map_idI) (auto intro: TrimSpace_id)
  then have parts: "trimmed_parts hosts = hosts" using assms(4) by (auto simp: trimmed_parts_def filter_id_conv)
  have "join_with '','' hosts \<noteq> []" using split assms(3,4) by (cases hosts) auto
  with assms(1-3) split parts show ?thesis by (auto simp: HostFromSPIFFE_Inr)
qed

theorem HostFromSPIFFE_roundtrip_witness:
  "HostFromSPIFFE (Some demo_cert) = Inr [''db-1.prod'', ''db-1'']"
proof (rule HostFromSPIFFE_roundtrip [where u = "\<lparr>url_scheme = ''spiffe'', url_path = ''/host/db-1.prod,db-1''\<rparr>"])
  show "filter (\<lambda>v. EqualFold (url_scheme v) ''spiffe'') (cert_uris demo_cert) =
      [\<lparr>url_scheme = ''spiffe'', url_path = ''/host/db-1.prod,db-1''\<rparr>]" by code_simp
  show "h \<noteq> [] \<and> CHR '','' \<notin> set h \<and> space_free_ends h" if "h \<in> set [''db-1.prod'', ''db-1'']" for h
  proof -
    have "space_free_ends ''db-1.prod''" "space_free_ends ''db-1''" by code_simp+
    with that show ?thesis by auto
  qed
qed simp_all

lemma label_owned:
  assumes "listener_reachable ex ul y"
    and "fst (Lookup (ls_env y) (ls_reg y) h) = Inr s"
  shows "\<exists>i conn c hosts. ls_conns y i = Some (conn, s) \<and> c \<in> set (peer_certs conn)
     \<and> ex (Some c) = Inr hosts \<and> normalize (ls_env y) h \<in> normalize (ls_env y) ` set hosts"
proof -
  have inv: "listener_inv ex y" using assms(1) by (rule listener_reachable_inv)
  obtain e where "map_of (tunnels (ls_reg y)) (normalize (ls_env y) h) = Some e" "entry_session e = s"
    using assms(2) by (auto simp: Lookup_def split: option.splits if_splits)
  then have "owned ex y (normalize (ls_env y) h, e)"
    using inv by (auto simp: listener_inv_def dest: map_of_SomeD)
  with \<open>entry_session e = s\<close> show ?thesis by (auto simp: owned_def)
qed



text \<open>
  Connection lifecycles are balanced: whatever happens to one connection (a handshake failure, a
  bad certificate, a refused or a served registration), after its handler returns every host
  resolves as it did before, provided its session is new.
\<close>

theorem handle_conn_balanced:
  assumes "wf_registry env r" and "\<And>s l. yamux_server conn = Inr s \<Longrightarrow> abs_reg env r l \<noteq> Some s"
    and "\<And>s. yamux_server conn = Inr s \<Longrightarrow> \<not> dead env s"
    and "handle_tunnel_conn env ex conn r = (env', r')"
  shows "fst (Lookup env' r' h) = fst (Lookup env r h) \<and> wf_registry env' r'"
proof -
  obtain out r1 where a: "admit_conn env ex conn r = (out, r1)" by fastforce
  have gone: "abs_reg (kill {s} env) r2 = abs_reg env r"
    if "abs_reg env r2 = abs_reg env r" "yamux_server conn = Inr s" for s r2
    using abs_reg_kill_unused[of env r2 s] that assms(2) by simp
  have "abs_reg env' r' = abs_reg env r \<and> wf_registry env' r' \<and> normalize env' = normalize env"
  proof (cases "\<exists>s ls. out = Serving s ls")
    case True
    then obtain s ls where out: "out = Serving s ls" by blast
    from admit_conn_Serving[OF a[unfolded out]] obtain hosts where
      reg: "fst (Register env r (Some s) hosts) = Inr ls" "r1 = snd (Register env r (Some s) hosts)"
      and y: "yamux_server conn = Inr s" by blast
    have e: "env' = kill {s} env" "r' = Unregister r1 (Some s)"
      using assms(4) a out by (simp_all add: handle_tunnel_conn_def teardown_conn_def)
    have wf1: "wf_registry env r1" using assms(1) reg(2) by (simp add: Register_wf)
    have sp: "abs_reg env r1 = spec_register env (abs_reg env r) s ls" "\<not> conflicts (abs_reg env r) s ls"
      using Register_ok[OF reg(1)] Register_abs[OF wf_registry_distinct[OF assms(1)], of env hosts ls s] reg
      by auto
    have none: "l \<in> set ls \<Longrightarrow> abs_reg env r l = None" for l
      using sp(2) assms(2)[OF y, of l] by (cases "abs_reg env r l") (auto simp: conflicts_def)
    have "abs_reg env r' = abs_reg env r"
      unfolding e Unregister_abs[OF wf_registry_distinct[OF wf1]] sp(1)
      using sp(2) none assms(2)[OF y] assms(3)[OF y]
      by (auto simp: spec_unregister_def spec_register_def fun_eq_iff)
    with gone[OF _ y] wf1 show ?thesis by (simp add: e Unregister_wf)
  next
    case False
    then have c: "r1 = r \<or> (\<exists>s hosts. out = SessionClosed s \<and> r1 = snd (Register env r (Some s) hosts)
        \<and> \<not> is_ok (fst (Register env r (Some s) hosts)) \<and> yamux_server conn = Inr s)"
      by (intro admit_conn_other[OF a]) auto
    have abs1: "abs_reg env r1 = abs_reg env r" and wf1: "wf_registry env r1"
      using c assms(1) Register_error_abs[OF wf_registry_distinct[OF assms(1)]] by (auto simp: Register_wf)
    show ?thesis
    proof (cases out)
      case Dropped
      then show ?thesis using assms(4) a abs1 wf1 by (simp add: handle_tunnel_conn_def)
    next
      case (SessionClosed s)
      then have y: "yamux_server conn = Inr s"
        using a by (auto simp: admit_conn_def split: if_splits sum.splits prod.splits)
      show ?thesis using assms(4) a wf1 gone[OF abs1 y] SessionClosed by (auto simp: handle_tunnel_conn_def)
    qed (use False in auto)
  qed
  moreover have "fst (Lookup env r h) = (case abs_reg env r (normalize env h) of None \<Rightarrow> Inl ErrNoTunnel | Some s \<Rightarrow> Inr s)"
    by (rule Lookup_abs(1)[OF wf_registry_distinct[OF assms(1)]])
  ultimately show ?thesis
    using Lookup_abs(1)[OF wf_registry_distinct, of env' r' env' h] by auto
qed

theorem handle_conn_balanced_witness:
  "fst (Lookup (fst (handle_tunnel_conn demo_env HostFromSPIFFE demo_conn new_registry))
               (snd (handle_tunnel_conn demo_env HostFromSPIFFE demo_conn new_registry)) ''db-1'')
     = Inl ErrNoTunnel"
proof -
  let ?x = "handle_tunnel_conn demo_env HostFromSPIFFE demo_conn new_registry"
  have "?x = (fst ?x, snd ?x)" by simp
  from handle_conn_balanced[OF new_registry_wf _ _ this, of "''db-1''"]
  have "fst (Lookup (fst ?x) (snd ?x) ''db-1'') = fst (Lookup demo_env new_registry ''db-1'')"
    by (auto simp: abs_reg_def new_registry_def demo_conn_def demo_env_def)
  then show ?thesis by (simp add: Lookup_def new_registry_def)
qed

end
