(* ===== verification/Listener_Serve.thy ===== *)
theory Listener_Serve
  imports Listener Wind_Down
begin

text \<open>
  The tunnel listener as a whole, \<^verbatim>\<open>ListenAndServe\<close>, \<^verbatim>\<open>Serve\<close> and \<^verbatim>\<open>serve\<close> of \<^verbatim>\<open>internal/proxyd/routing/listener.go\<close>:
  the accept loop, the goroutine that closes the listener when the context fires, one handler goroutine
  per connection, and the wait for them. The lemmas show that its steps refine the steps of
  concurrent connections, that it leaves nothing registered behind, and that it always gets to its end once
  the context has fired.
\<close>

section \<open>States\<close>

text \<open>Where the loop is: in \<^verbatim>\<open>Accept\<close>, in the deferred wait with its result, or returned.\<close>

datatype serve_loop = Accepting | Draining go_error | Returned go_error

text \<open>
  Handlers that have not registered yet hold their connection; those that have are the connections of
  the listener system.
\<close>

record serve_sys =
  sv_sys :: listener_sys
  sv_ctx :: "go_error option"
  sv_open :: bool
  sv_loop :: serve_loop
  sv_pending :: "nat \<rightharpoonup> tunnel_conn"

definition accept_error :: "go_error option \<Rightarrow> go_error \<Rightarrow> go_error" where
  "accept_error ctx_err e = (case ctx_err of Some c \<Rightarrow> c | None \<Rightarrow> Wrap ''accept'' e)"

definition start_sys :: "(string \<Rightarrow> string) \<Rightarrow> listener_sys" where
  "start_sys ul = \<lparr>ls_env = \<lparr>ulower = ul, dead = (\<lambda>_. False)\<rparr>, ls_reg = new_registry, ls_conns = Map.empty\<rparr>"

definition Serve :: "(string \<Rightarrow> string) \<Rightarrow> go_error option \<Rightarrow> serve_sys" where
  "Serve ul ctx_err = \<lparr>sv_sys = start_sys ul, sv_ctx = ctx_err, sv_open = True, sv_loop = Accepting, sv_pending = Map.empty\<rparr>"

text \<open>\<open>listen\<close> is \<^verbatim>\<open>tls.Listen\<close> on the configured address.\<close>

definition Listener_ListenAndServe ::
  "listener_config \<Rightarrow> (string \<Rightarrow> unit result) \<Rightarrow> (string \<Rightarrow> string) \<Rightarrow> go_error option \<Rightarrow> serve_sys" where
  "Listener_ListenAndServe cfg listen ul ctx_err =
     (case listen (lc_addr cfg) of
        Inl e \<Rightarrow> (Serve ul ctx_err)\<lparr>sv_open := False, sv_loop := Returned (Wrap (''listen '' @ lc_addr cfg) e)\<rparr>
      | Inr _ \<Rightarrow> Serve ul ctx_err)"

section \<open>Steps\<close>

text \<open>The session of a connection is a new pointer.\<close>

definition fresh_conn :: "serve_sys \<Rightarrow> tunnel_conn \<Rightarrow> bool" where
  "fresh_conn z conn \<longleftrightarrow>
     (\<forall>s. yamux_server conn = Inr s \<longrightarrow>
        (\<forall>j c t. ls_conns (sv_sys z) j = Some (c, t) \<longrightarrow> t \<noteq> s) \<and> (\<forall>j c. sv_pending z j = Some c \<longrightarrow> yamux_server c \<noteq> Inr s))"

text \<open>
  The environment fires the context, ends sessions, looks hosts up, and connects peers or breaks the
  listener; the rest are steps of the listener's goroutines. A handler that serves a session ends when the
  session has closed or the context has fired.
\<close>

inductive env_step :: "serve_sys \<Rightarrow> serve_sys \<Rightarrow> bool" where
  sv_cancel: "sv_ctx z = None \<Longrightarrow> env_step z (z\<lparr>sv_ctx := Some e\<rparr>)"
| sv_die: "env_step z (z\<lparr>sv_sys := (sv_sys z)\<lparr>ls_env := kill {s} (ls_env (sv_sys z))\<rparr>\<rparr>)"
| sv_lookup: "env_step z (z\<lparr>sv_sys := (sv_sys z)\<lparr>ls_reg := snd (Lookup (ls_env (sv_sys z)) (ls_reg (sv_sys z)) h)\<rparr>\<rparr>)"
| sv_accept: "sv_loop z = Accepting \<Longrightarrow> sv_open z \<Longrightarrow> sv_pending z i = None \<Longrightarrow> ls_conns (sv_sys z) i = None \<Longrightarrow>
     fresh_conn z conn \<Longrightarrow> env_step z (z\<lparr>sv_pending := (sv_pending z)(i \<mapsto> conn)\<rparr>)"
| sv_broken: "sv_loop z = Accepting \<Longrightarrow> sv_open z \<Longrightarrow> env_step z (z\<lparr>sv_loop := Draining (accept_error (sv_ctx z) e)\<rparr>)"

inductive work_step :: "(leaf_cert option \<Rightarrow> string list result) \<Rightarrow> serve_sys \<Rightarrow> serve_sys \<Rightarrow> bool" for ex where
  sv_close: "sv_ctx z \<noteq> None \<Longrightarrow> sv_open z \<Longrightarrow> work_step ex z (z\<lparr>sv_open := False\<rparr>)"
| sv_closed: "sv_loop z = Accepting \<Longrightarrow> \<not> sv_open z \<Longrightarrow>
     work_step ex z (z\<lparr>sv_loop := Draining (accept_error (sv_ctx z) (Sentinel ''use of closed network connection''))\<rparr>)"
| sv_admit: "sv_pending z i = Some conn \<Longrightarrow>
     admit_conn (ls_env (sv_sys z)) ex conn (ls_reg (sv_sys z)) = (Serving s labels, r') \<Longrightarrow>
     work_step ex z (z\<lparr>sv_pending := (sv_pending z)(i := None),
        sv_sys := (sv_sys z)\<lparr>ls_reg := r', ls_conns := (ls_conns (sv_sys z))(i \<mapsto> (conn, s))\<rparr>\<rparr>)"
| sv_refuse: "sv_pending z i = Some conn \<Longrightarrow>
     admit_conn (ls_env (sv_sys z)) ex conn (ls_reg (sv_sys z)) = (out, r') \<Longrightarrow> (\<And>s ls. out \<noteq> Serving s ls) \<Longrightarrow>
     work_step ex z (z\<lparr>sv_pending := (sv_pending z)(i := None),
        sv_sys := (sv_sys z)\<lparr>ls_reg := r', ls_env := kill {s. out = SessionClosed s} (ls_env (sv_sys z))\<rparr>\<rparr>)"
| sv_end: "ls_conns (sv_sys z) i = Some (conn, s) \<Longrightarrow> dead (ls_env (sv_sys z)) s \<or> sv_ctx z \<noteq> None \<Longrightarrow>
     teardown_conn (ls_env (sv_sys z)) (ls_reg (sv_sys z)) s = (env', r') \<Longrightarrow>
     work_step ex z (z\<lparr>sv_sys := (sv_sys z)\<lparr>ls_env := env', ls_reg := r', ls_conns := (ls_conns (sv_sys z))(i := None)\<rparr>\<rparr>)"
| sv_return: "sv_loop z = Draining e \<Longrightarrow> sv_pending z = Map.empty \<Longrightarrow> ls_conns (sv_sys z) = Map.empty \<Longrightarrow>
     work_step ex z (z\<lparr>sv_loop := Returned e\<rparr>)"

inductive serve_reachable ::
  "(leaf_cert option \<Rightarrow> string list result) \<Rightarrow> serve_sys \<Rightarrow> serve_sys \<Rightarrow> bool" for ex z0 where
  sr_start: "serve_reachable ex z0 z0"
| sr_env: "serve_reachable ex z0 z \<Longrightarrow> env_step z z' \<Longrightarrow> serve_reachable ex z0 z'"
| sr_work: "serve_reachable ex z0 z \<Longrightarrow> work_step ex z z' \<Longrightarrow> serve_reachable ex z0 z'"

section \<open>Invariant and refinement\<close>

text \<open>Handlers have connections of their own and sessions of their own; a loop that returned left no handler.\<close>

definition own_sessions :: "serve_sys \<Rightarrow> bool" where
  "own_sessions z \<longleftrightarrow>
     (\<forall>i j c d t. sv_pending z i = Some c \<longrightarrow> ls_conns (sv_sys z) j = Some (d, t) \<longrightarrow> i \<noteq> j \<and> yamux_server c \<noteq> Inr t) \<and>
     (\<forall>i j c d s. sv_pending z i = Some c \<longrightarrow> sv_pending z j = Some d \<longrightarrow> yamux_server c = Inr s \<longrightarrow> yamux_server d = Inr s \<longrightarrow> i = j)"

definition drained :: "serve_sys \<Rightarrow> bool" where
  "drained z \<longleftrightarrow> (\<forall>e. sv_loop z = Returned e \<longrightarrow> sv_pending z = Map.empty \<and> ls_conns (sv_sys z) = Map.empty)"

definition result_ok :: "serve_sys \<Rightarrow> bool" where
  "result_ok z \<longleftrightarrow>
     (\<forall>e. sv_loop z = Draining e \<or> sv_loop z = Returned e \<longrightarrow> sv_ctx z = Some e \<or> (\<exists>a. e = Wrap ''accept'' a)) \<and>
     (\<not> sv_open z \<longrightarrow> sv_ctx z \<noteq> None)"

definition finite_work :: "serve_sys \<Rightarrow> bool" where
  "finite_work z \<longleftrightarrow> finite (dom (sv_pending z)) \<and> finite (dom (ls_conns (sv_sys z)))"

definition serve_inv :: "serve_sys \<Rightarrow> bool" where
  "serve_inv z \<longleftrightarrow> own_sessions z \<and> drained z \<and> result_ok z \<and> finite_work z"

lemma Serve_inv: "serve_inv (Serve ul ctx_err)"
  by (simp add: serve_inv_def own_sessions_def drained_def result_ok_def finite_work_def Serve_def start_sys_def)

lemma env_step_inv: "env_step z z' \<Longrightarrow> serve_inv z \<Longrightarrow> serve_inv z'"
proof (induction rule: env_step.induct)
  case (sv_accept z i conn)
  have "own_sessions (z\<lparr>sv_pending := (sv_pending z)(i \<mapsto> conn)\<rparr>)"
    using sv_accept(3-6) unfolding own_sessions_def serve_inv_def fresh_conn_def by (auto split: if_split_asm)
  then show ?case using sv_accept by (simp add: serve_inv_def drained_def result_ok_def finite_work_def)
qed (auto simp: serve_inv_def own_sessions_def drained_def result_ok_def finite_work_def accept_error_def split: option.splits)

lemma admit_session: "admit_conn env ex conn r = (Serving s labels, r') \<Longrightarrow> yamux_server conn = Inr s"
  using admit_conn_Serving by blast

lemma work_step_own: "work_step ex z z' \<Longrightarrow> own_sessions z \<Longrightarrow> own_sessions z'"
proof (induction rule: work_step.induct)
  case (sv_admit z i conn s labels r')
  have y: "yamux_server conn = Inr s" by (rule admit_session[OF sv_admit(2)])
  show ?case unfolding own_sessions_def
  proof (intro conjI allI impI)
    fix k j c d t
    assume h: "sv_pending (z\<lparr>sv_pending := (sv_pending z)(i := None),
        sv_sys := (sv_sys z)\<lparr>ls_reg := r', ls_conns := (ls_conns (sv_sys z))(i \<mapsto> (conn, s))\<rparr>\<rparr>) k = Some c"
      "ls_conns (sv_sys (z\<lparr>sv_pending := (sv_pending z)(i := None),
        sv_sys := (sv_sys z)\<lparr>ls_reg := r', ls_conns := (ls_conns (sv_sys z))(i \<mapsto> (conn, s))\<rparr>\<rparr>)) j = Some (d, t)"
    then have k: "k \<noteq> i" "sv_pending z k = Some c" by (auto split: if_split_asm)
    show "k \<noteq> j" "yamux_server c \<noteq> Inr t"
      using h(2) k sv_admit(1,3) y unfolding own_sessions_def by (auto split: if_split_asm)
  next
    fix k j c d t
    assume "sv_pending (z\<lparr>sv_pending := (sv_pending z)(i := None),
        sv_sys := (sv_sys z)\<lparr>ls_reg := r', ls_conns := (ls_conns (sv_sys z))(i \<mapsto> (conn, s))\<rparr>\<rparr>) k = Some c"
      "sv_pending (z\<lparr>sv_pending := (sv_pending z)(i := None),
        sv_sys := (sv_sys z)\<lparr>ls_reg := r', ls_conns := (ls_conns (sv_sys z))(i \<mapsto> (conn, s))\<rparr>\<rparr>) j = Some d"
      "yamux_server c = Inr t" "yamux_server d = Inr t"
    then show "k = j" using sv_admit(3) unfolding own_sessions_def by (auto split: if_split_asm)
  qed
qed (auto simp: own_sessions_def split: if_split_asm)

lemma work_step_rest: "work_step ex z z' \<Longrightarrow> drained z \<and> result_ok z \<and> finite_work z \<Longrightarrow> drained z' \<and> result_ok z' \<and> finite_work z'"
  by (induction rule: work_step.induct)
    (auto simp: drained_def result_ok_def finite_work_def accept_error_def split: option.splits)

lemma work_step_inv: "work_step ex z z' \<Longrightarrow> serve_inv z \<Longrightarrow> serve_inv z'"
  unfolding serve_inv_def using work_step_own work_step_rest by blast

lemma own_slot: "own_sessions z \<Longrightarrow> sv_pending z i = Some conn \<Longrightarrow> ls_conns (sv_sys z) i = None"
  unfolding own_sessions_def by (cases "ls_conns (sv_sys z) i") (simp, metis surj_pair)

lemma own_session:
  "own_sessions z \<Longrightarrow> sv_pending z i = Some conn \<Longrightarrow> ls_conns (sv_sys z) j = Some (c, t) \<Longrightarrow> yamux_server conn \<noteq> Inr t"
  unfolding own_sessions_def by blast

lemma reachable_inv: "serve_reachable ex z0 z \<Longrightarrow> serve_inv z0 \<Longrightarrow> serve_inv z"
  by (induction rule: serve_reachable.induct) (auto intro: env_step_inv work_step_inv)

text \<open>Every step is one of the concurrent connections, or leaves them as they are.\<close>

lemma env_step_refines: "env_step z z' \<Longrightarrow> sv_sys z' = sv_sys z \<or> listener_step ex (sv_sys z) (sv_sys z')"
  by (induction rule: env_step.induct) (auto intro: ls_die ls_lookup)

lemma work_step_refines:
  assumes "work_step ex z z'" "serve_inv z"
  shows "sv_sys z' = sv_sys z \<or> listener_step ex (sv_sys z) (sv_sys z')"
  using assms
proof (induction rule: work_step.induct)
  case (sv_admit z i conn s labels r')
  have own: "own_sessions z" using sv_admit(3) by (simp add: serve_inv_def)
  have "yamux_server conn = Inr s" by (rule admit_session[OF sv_admit(2)])
  then have "ls_conns (sv_sys z) i = None" "\<And>c t j. ls_conns (sv_sys z) j = Some (c, t) \<Longrightarrow> t \<noteq> s"
    using own_slot[OF own sv_admit(1)] own_session[OF own sv_admit(1)] by auto
  from ls_admit[OF this sv_admit(2)] show ?case by simp
next
  case (sv_refuse z i conn out r')
  have own: "own_sessions z" using sv_refuse(4) by (simp add: serve_inv_def)
  then have "\<And>c t j. ls_conns (sv_sys z) j = Some (c, t) \<Longrightarrow> yamux_server conn \<noteq> Inr t"
    using own_session[OF own sv_refuse(1)] by auto
  from ls_refuse[OF this sv_refuse(2,3)] show ?case by simp
next
  case (sv_end z i conn s env' r')
  from ls_end[OF sv_end(1,3)] show ?case by simp
qed simp_all

lemma serve_refines_listener:
  assumes "serve_reachable ex (Serve ul ctx_err) z"
  shows "listener_reachable ex ul (sv_sys z)"
  using assms
proof (induction rule: serve_reachable.induct)
  case sr_start
  show ?case using ls_start by (simp add: Serve_def start_sys_def)
next
  case (sr_env z z')
  from env_step_refines[OF sr_env(2)] sr_env(3) show ?case by (metis ls_next)
next
  case (sr_work z z')
  from work_step_refines[OF sr_work(2) reachable_inv[OF sr_work(1) Serve_inv]] sr_work(3) show ?case by (metis ls_next)
qed

section \<open>Getting to the end\<close>

definition work_left :: "serve_sys \<Rightarrow> nat" where
  "work_left z = 2 * card (dom (sv_pending z)) + card (dom (ls_conns (sv_sys z))) + (if sv_open z then 1 else 0) +
     (case sv_loop z of Accepting \<Rightarrow> 2 | Draining _ \<Rightarrow> 1 | Returned _ \<Rightarrow> 0)"

lemma card_dom_del: "finite (dom m) \<Longrightarrow> m i = Some x \<Longrightarrow> Suc (card (dom (m(i := None)))) = card (dom m)"
  using card_Suc_Diff1[of "dom m" i] by (simp add: domI)

lemma card_dom_add: "finite (dom m) \<Longrightarrow> m i = None \<Longrightarrow> card (dom (m(i \<mapsto> x))) = Suc (card (dom m))"
  by (simp add: domIff)

lemma work_step_less: "work_step ex z z' \<Longrightarrow> serve_inv z \<Longrightarrow> work_left z' < work_left z"
proof (induction rule: work_step.induct)
  case (sv_admit z i conn s labels r')
  have f: "finite (dom (sv_pending z))" "finite (dom (ls_conns (sv_sys z)))" and own: "own_sessions z"
    using sv_admit(3) by (simp_all add: serve_inv_def finite_work_def)
  have "ls_conns (sv_sys z) i = None" using own_slot[OF own sv_admit(1)] .
  with card_dom_del[OF f(1) sv_admit(1)] card_dom_add[OF f(2), of i "(conn, s)"] show ?case
    unfolding work_left_def by (simp del: dom_fun_upd)
next
  case (sv_refuse z i conn out r')
  have f: "finite (dom (sv_pending z))" using sv_refuse(4) by (simp add: serve_inv_def finite_work_def)
  from card_dom_del[OF f sv_refuse(1)] show ?case unfolding work_left_def by (simp del: dom_fun_upd)
next
  case (sv_end z i conn s env' r')
  have f: "finite (dom (ls_conns (sv_sys z)))" using sv_end(4) by (simp add: serve_inv_def finite_work_def)
  from card_dom_del[OF f sv_end(1)] show ?case unfolding work_left_def by (simp del: dom_fun_upd)
qed (auto simp: work_left_def)

lemma work_enabled:
  assumes "sv_ctx z \<noteq> None" "\<And>e. sv_loop z \<noteq> Returned e"
  shows "\<exists>z'. work_step ex z z'"
proof -
  consider (pending) i conn where "sv_pending z i = Some conn" | (serving) i conn s where "ls_conns (sv_sys z) i = Some (conn, s)"
    | (idle) "sv_pending z = Map.empty" "ls_conns (sv_sys z) = Map.empty" by (metis not_Some_eq surj_pair ext)
  then show ?thesis
  proof cases
    case pending
    obtain out r' where a: "admit_conn (ls_env (sv_sys z)) ex conn (ls_reg (sv_sys z)) = (out, r')" by fastforce
    then show ?thesis using sv_admit[OF pending] sv_refuse[OF pending a] by (cases out) blast+
  next
    case serving
    from sv_end[OF this] assms(1) show ?thesis by (auto simp: teardown_conn_def)
  next
    case idle
    show ?thesis
    proof (cases "sv_loop z")
      case Accepting
      then show ?thesis using sv_close[of z ex] sv_closed[of z ex] assms(1) by blast
    next
      case (Draining e)
      from sv_return[OF this idle] show ?thesis by blast
    qed (use assms(2) in blast)
  qed
qed

lemma work_step_ctx: "work_step ex z z' \<Longrightarrow> sv_ctx z' = sv_ctx z"
  by (induction rule: work_step.induct) simp_all

interpretation serve_down: winding_down "work_step ex" work_left serve_inv "\<lambda>z. sv_ctx z \<noteq> None" "\<lambda>z. \<exists>e. sv_loop z = Returned e" for ex
proof
  fix z z'
  show "work_step ex z z' \<Longrightarrow> serve_inv z \<Longrightarrow> serve_inv z'" by (rule work_step_inv)
  show "work_step ex z z' \<Longrightarrow> serve_inv z \<Longrightarrow> work_left z' < work_left z" by (rule work_step_less)
  show "work_step ex z z' \<Longrightarrow> sv_ctx z \<noteq> None \<Longrightarrow> sv_ctx z' \<noteq> None" by (simp add: work_step_ctx)
  show "sv_ctx z \<noteq> None \<Longrightarrow> \<not> (\<exists>e. sv_loop z = Returned e) \<Longrightarrow> \<exists>z'. work_step ex z z'" using work_enabled by blast
qed

lemma env_step_work: "env_step z z' \<Longrightarrow> \<not> sv_open z \<Longrightarrow> work_left z' = work_left z \<and> \<not> sv_open z'"
  by (induction rule: env_step.induct) (auto simp: work_left_def)

text \<open>With the context alive, a broken accept is not reported while a connection is still served.\<close>

lemma broken_accept_waits:
  assumes "work_step ex z z'" "sv_loop z = Draining e" "ls_conns (sv_sys z) i = Some cs"
  shows "sv_loop z' = Draining e"
  using assms by (induction rule: work_step.induct) auto

text \<open>
  C10. The tunnel listener winds down cleanly. In every interleaving of its accept loop, its closing goroutine
  and its connection handlers with peers, lookups and a context that fires at any time: it returns only when
  no handler is left and no host is registered, with the context's error or the error of a broken accept;
  once the context has fired it has steps of its own that lead to the return, each of its own steps leaves less
  to do, and once the listener is closed nothing from outside can add work. Without the context it may
  wait: a broken accept returns only after the last connection has ended.
\<close>

theorem serve_winds_down:
  assumes "serve_reachable ex (Serve ul ctx_err) z"
  shows "(\<forall>e. sv_loop z = Returned e \<longrightarrow>
      sv_pending z = Map.empty \<and> ls_conns (sv_sys z) = Map.empty \<and> tunnels (ls_reg (sv_sys z)) = [] \<and>
      (sv_ctx z = Some e \<or> (\<exists>a. e = Wrap ''accept'' a))) \<and>
    (sv_ctx z \<noteq> None \<longrightarrow> (\<exists>z' e. (work_step ex)\<^sup>*\<^sup>* z z' \<and> sv_loop z' = Returned e)) \<and>
    (\<forall>z'. work_step ex z z' \<longrightarrow> work_left z' < work_left z) \<and>
    (\<forall>z'. env_step z z' \<and> \<not> sv_open z \<longrightarrow> work_left z' = work_left z \<and> \<not> sv_open z')"
proof -
  have inv: "serve_inv z" by (rule reachable_inv[OF assms Serve_inv])
  have li: "listener_inv ex (sv_sys z)" by (rule listener_reachable_inv[OF serve_refines_listener[OF assms]])
  have none: "tunnels (ls_reg (sv_sys z)) = []" if "ls_conns (sv_sys z) = Map.empty"
  proof -
    have "he \<notin> set (tunnels (ls_reg (sv_sys z)))" for he using li that by (cases he) (auto simp: listener_inv_def owned_def)
    then show ?thesis by (cases "tunnels (ls_reg (sv_sys z))") auto
  qed
  have fin: "sv_pending z = Map.empty" "ls_conns (sv_sys z) = Map.empty" "sv_ctx z = Some e \<or> (\<exists>a. e = Wrap ''accept'' a)"
    if "sv_loop z = Returned e" for e
    using inv that by (auto simp: serve_inv_def drained_def result_ok_def)
  show ?thesis
  proof (intro conjI allI impI; (elim conjE)?)
    fix e assume r: "sv_loop z = Returned e"
    show "sv_pending z = Map.empty" "ls_conns (sv_sys z) = Map.empty" "tunnels (ls_reg (sv_sys z)) = []"
      "sv_ctx z = Some e \<or> (\<exists>a. e = Wrap ''accept'' a)" using fin[OF r] none by blast+
  qed (use serve_down.gets_to_end[OF inv] work_step_less[OF _ inv] env_step_work in blast)+
qed

definition demo_served :: serve_sys where
  "demo_served = (Serve (\<lambda>s. s) None)\<lparr>sv_ctx := Some (Msg ''context canceled'')\<rparr>"

theorem serve_winds_down_witness:
  "\<exists>z' e. (work_step HostFromSPIFFE)\<^sup>*\<^sup>* (demo_served\<lparr>sv_pending := [0 \<mapsto> demo_conn]\<rparr>) z' \<and> sv_loop z' = Returned e"
proof -
  let ?z = "Serve (\<lambda>s. s) None"
  have "env_step ?z (?z\<lparr>sv_pending := (sv_pending ?z)(0 \<mapsto> demo_conn)\<rparr>)"
    by (rule sv_accept) (simp_all add: Serve_def start_sys_def fresh_conn_def)
  moreover have "env_step (?z\<lparr>sv_pending := (sv_pending ?z)(0 \<mapsto> demo_conn)\<rparr>)
      (?z\<lparr>sv_pending := (sv_pending ?z)(0 \<mapsto> demo_conn), sv_ctx := Some (Msg ''context canceled'')\<rparr>)"
    by (rule sv_cancel) (simp add: Serve_def)
  ultimately have "serve_reachable HostFromSPIFFE ?z (demo_served\<lparr>sv_pending := [0 \<mapsto> demo_conn]\<rparr>)"
    using sr_env[OF sr_env[OF sr_start]] by (simp add: demo_served_def Serve_def)
  from serve_winds_down[OF this] show ?thesis by (simp add: demo_served_def)
qed

end
