(* ===== verification/Portal_Cast.thy ===== *)
theory Portal_Cast
  imports Recording
begin

text \<open>
  Cast replay, \<^verbatim>\<open>internal/proxyd/portal/cast.go\<close>: the store that opens a recorded cast for the portal. The
  path comes out of an audit event and is not trusted, so the store resolves it, symbolic links included,
  and refuses whatever lies outside its root. The symbolic links of the file system are a map \<open>lk\<close>
  from a path to its target; the walk of \<^verbatim>\<open>filepath.EvalSymlinks\<close> over them is written out with its limit of
  255 links, and the lemmas show that what it returns is a physical path, free of links.
\<close>

section \<open>Resolving symbolic links\<close>

definition ENOTDIR :: go_error where "ENOTDIR = Sentinel ''not a directory''"

type_synonym links = "string \<Rightarrow> string option"

text \<open>
  \<open>dest\<close> holds the elements resolved so far and \<open>n\<close> the links that may still be followed. The kernel resolves
  the \<^verbatim>\<open>..\<close> elements the original leaves in \<^verbatim>\<open>dest\<close> just below the top; they are dropped here at once.
\<close>

function walk_links :: "nat \<Rightarrow> fs \<Rightarrow> links \<Rightarrow> string list \<Rightarrow> string list \<Rightarrow> string list result" where
  "walk_links n f lk dest [] = Inr dest"
| "walk_links n f lk dest (e # es) =
     (if e = [] \<or> e = ''.'' then walk_links n f lk dest es
      else if e = ''..'' then walk_links n f lk (butlast dest) es
      else
        let p = rooted_path (dest @ [e]) in
        case faults f ''lstat'' p of
          Some err \<Rightarrow> Inl err
        | None \<Rightarrow>
            (case lk p of
               Some target \<Rightarrow>
                 (case n of
                    0 \<Rightarrow> Inl (Msg ''EvalSymlinks: too many links'')
                  | Suc m \<Rightarrow>
                      (case faults f ''readlink'' p of
                         Some err \<Rightarrow> Inl err
                       | None \<Rightarrow> walk_links m f lk (if IsAbs target then [] else dest) (split_on (CHR ''/'') target @ es)))
             | None \<Rightarrow>
                 (case node_at f p of
                    None \<Rightarrow> Inl ErrNotExist
                  | Some FDir \<Rightarrow> walk_links n f lk (dest @ [e]) es
                  | Some (FFile _) \<Rightarrow> if es = [] then Inr (dest @ [e]) else Inl ENOTDIR)))"
  by pat_completeness auto
termination
  by (relation "measures [\<lambda>(n, f, lk, dest, es). n, \<lambda>(n, f, lk, dest, es). length es]") auto

definition EvalSymlinks :: "fs \<Rightarrow> links \<Rightarrow> string \<Rightarrow> string result" where
  "EvalSymlinks f lk p =
     (case walk_links 255 f lk [] (split_on (CHR ''/'') p) of
        Inl e \<Rightarrow> Inl e
      | Inr es \<Rightarrow> Inr (rooted_path es))"

text \<open>\<^verbatim>\<open>os.Stat\<close> of a path without links; the top directory always exists.\<close>

definition os_Stat :: "fs \<Rightarrow> string \<Rightarrow> fs_node result" where
  "os_Stat f p =
     (case faults f ''stat'' p of
        Some e \<Rightarrow> Inl e
      | None \<Rightarrow> if p = ''/'' then Inr FDir
                else case node_at f p of None \<Rightarrow> Inl ErrNotExist | Some n \<Rightarrow> Inr n)"

section \<open>The store\<close>

definition ErrCastNotFound :: go_error where "ErrCastNotFound = Sentinel ''cast file not found''"
definition ErrCastOutsideRoot :: go_error where
  "ErrCastOutsideRoot = Sentinel ''cast path is outside the configured root''"

record local_cast_store =
  store_root :: string

definition NewLocalCastStore :: "string \<Rightarrow> string result \<Rightarrow> links \<Rightarrow> fs \<Rightarrow> local_cast_store result" where
  "NewLocalCastStore rt cwd lk f =
     (if rt = [] then Inl (Msg ''cast root is required'')
      else case abs_or cwd rt of
        Inl e \<Rightarrow> Inl (Wrap ''cast root abs'' e)
      | Inr ap \<Rightarrow> (case EvalSymlinks f lk ap of
          Inl e \<Rightarrow> Inl (Wrap ''cast root resolve'' e)
        | Inr resolved \<Rightarrow> (case os_Stat f resolved of
            Inl e \<Rightarrow> Inl (Wrap (''stat cast root '' @ resolved) e)
          | Inr (FFile _) \<Rightarrow> Inl (Msg (''cast root '' @ resolved @ '' is not a directory''))
          | Inr FDir \<Rightarrow> Inr \<lparr>store_root = resolved\<rparr>)))"

text \<open>\<^verbatim>\<open>Open\<close> returns a reader, which is the bytes it yields, and the size.\<close>

definition cast_Open :: "local_cast_store \<Rightarrow> string result \<Rightarrow> links \<Rightarrow> fs \<Rightarrow> string \<Rightarrow> (string \<times> int) result" where
  "cast_Open s cwd lk f recordingPath =
     (if recordingPath = [] then Inl ErrCastNotFound
      else case abs_or cwd recordingPath of
        Inl e \<Rightarrow> Inl (Wrap ''cast path abs'' e)
      | Inr ap \<Rightarrow> (case EvalSymlinks f lk ap of
          Inl e \<Rightarrow> if e = ErrNotExist then Inl ErrCastNotFound else Inl (Wrap ''cast path resolve'' e)
        | Inr resolved \<Rightarrow>
            if resolved \<noteq> store_root s \<and> \<not> HasPrefix resolved (store_root s @ ''/'')
            then Inl ErrCastOutsideRoot
            else (case os_Stat f resolved of
              Inl e \<Rightarrow> if e = ErrNotExist then Inl ErrCastNotFound else Inl (Wrap ''stat cast'' e)
            | Inr FDir \<Rightarrow> Inl ErrCastNotFound
            | Inr (FFile c) \<Rightarrow> (case faults f ''open'' resolved of
                Some e \<Rightarrow> Inl e
              | None \<Rightarrow> Inr (c, int (length c))))))"

section \<open>Physical paths\<close>

definition dir_path :: "fs \<Rightarrow> links \<Rightarrow> string list \<Rightarrow> bool" where
  "dir_path f lk es \<longleftrightarrow> list_all proper_elem es \<and>
     (\<forall>d e d'. es = d @ e # d' \<longrightarrow> lk (rooted_path (d @ [e])) = None \<and> node_at f (rooted_path (d @ [e])) = Some FDir)"

definition file_path :: "fs \<Rightarrow> links \<Rightarrow> string list \<Rightarrow> string \<Rightarrow> bool" where
  "file_path f lk es c \<longleftrightarrow> es \<noteq> [] \<and> dir_path f lk (butlast es) \<and> proper_elem (last es) \<and>
     lk (rooted_path es) = None \<and> node_at f (rooted_path es) = Some (FFile c)"

lemma dir_path_Nil [simp]: "dir_path f lk []"
  by (simp add: dir_path_def)

lemma dir_path_snoc:
  "dir_path f lk (es @ [e]) \<longleftrightarrow> dir_path f lk es \<and> proper_elem e \<and>
     lk (rooted_path (es @ [e])) = None \<and> node_at f (rooted_path (es @ [e])) = Some FDir"
proof -
  have *: "es @ [e] = d @ x # d' \<longleftrightarrow> d = es \<and> x = e \<and> d' = [] \<or> (\<exists>d''. d' = d'' @ [e] \<and> es = d @ x # d'')" for d x d'
    by (cases d' rule: rev_cases) auto
  show ?thesis unfolding dir_path_def * by auto
qed

lemma dir_path_butlast: "dir_path f lk es \<Longrightarrow> dir_path f lk (butlast es)"
  by (cases es rule: rev_cases) (auto simp: dir_path_snoc)

lemma file_path_snoc:
  "file_path f lk (es @ [e]) c \<longleftrightarrow> dir_path f lk es \<and> proper_elem e \<and>
     lk (rooted_path (es @ [e])) = None \<and> node_at f (rooted_path (es @ [e])) = Some (FFile c)"
  by (auto simp: file_path_def)

lemma walk_links_physical:
  assumes "walk_links n f lk dest es = Inr r" "dir_path f lk dest" "\<forall>e \<in> set es. CHR ''/'' \<notin> set e"
  shows "dir_path f lk r \<or> (\<exists>c. file_path f lk r c)"
  using assms
proof (induction n f lk dest es rule: walk_links.induct)
  case (2 n f lk dest e es)
  let ?p = "rooted_path (dest @ [e])"
  consider "e = [] \<or> e = ''.''" | "e = ''..''" | "proper_elem e"
    using "2.prems"(3) by (auto simp: proper_elem_def)
  then show ?case
  proof cases
    case 1
    then show ?thesis using 2 by auto
  next
    case c: 2
    then show ?thesis using "2.IH"(2) "2.prems" dir_path_butlast by auto
  next
    case p: 3
    then have e: "\<not> (e = [] \<or> e = ''.'')" "e \<noteq> ''..''" by (auto simp: proper_elem_def)
    show ?thesis
    proof (cases "lk ?p")
      case None
      then show ?thesis
        using 2 e p by (auto simp: dir_path_snoc file_path_snoc Let_def split: option.splits fs_node.splits if_splits)
    next
      case (Some t)
      have s: "\<forall>x \<in> set (split_on (CHR ''/'') t @ es). CHR ''/'' \<notin> set x"
        using "2.prems"(3) split_on_no_sep by auto
      obtain m where "n = Suc m" "faults f ''lstat'' ?p = None" "faults f ''readlink'' ?p = None"
        "walk_links m f lk (if IsAbs t then [] else dest) (split_on (CHR ''/'') t @ es) = Inr r"
        using "2.prems"(1) e Some by (auto simp: Let_def split: option.splits nat.splits if_splits)
      then show ?thesis using "2.IH"(4)[OF e refl _ Some, of m] s "2.prems"(2) by auto
    qed
  qed
qed auto

text \<open>A physical path resolves to itself.\<close>

lemma walk_links_dirs:
  assumes "dir_path f lk (dest @ es)" "\<And>p. faults f ''lstat'' p = None"
  shows "walk_links n f lk dest (es @ fs) = walk_links n f lk (dest @ es) fs"
  using assms
proof (induction es arbitrary: dest)
  case (Cons e es)
  have "dir_path f lk ((dest @ [e]) @ es)" using Cons.prems by simp
  moreover have "proper_elem e" "lk (rooted_path (dest @ [e])) = None" "node_at f (rooted_path (dest @ [e])) = Some FDir"
    using Cons.prems by (auto simp: dir_path_def)
  ultimately show ?case using Cons by (auto simp: proper_elem_def Let_def)
qed simp

lemma walk_links_file:
  assumes "file_path f lk es c" "\<And>p. faults f ''lstat'' p = None"
  shows "walk_links n f lk [] es = Inr es"
proof -
  obtain d e where es: "es = d @ [e]" using assms(1) by (cases es rule: rev_cases) (auto simp: file_path_def)
  have fp: "dir_path f lk d" "proper_elem e" "lk (rooted_path (d @ [e])) = None" "node_at f (rooted_path (d @ [e])) = Some (FFile c)"
    using assms(1) by (auto simp: es file_path_snoc)
  have "walk_links n f lk [] (d @ [e]) = walk_links n f lk d [e]"
    using walk_links_dirs[of f lk "[]" d n "[e]"] fp assms(2) by simp
  also have "\<dots> = Inr (d @ [e])" using fp assms(2) by (auto simp: proper_elem_def Let_def)
  finally show ?thesis by (simp add: es)
qed

lemma split_on_walk: "list_all proper_elem es \<Longrightarrow>
  walk_links n f lk [] (split_on (CHR ''/'') (rooted_path es)) = walk_links n f lk [] es"
  by (simp add: split_rooted)

lemma dir_path_proper: "dir_path f lk es \<Longrightarrow> list_all proper_elem es"
  by (simp add: dir_path_def)

lemma file_path_proper: "file_path f lk es c \<Longrightarrow> list_all proper_elem es"
  by (cases es rule: rev_cases) (auto simp: file_path_def dir_path_def)

lemma EvalSymlinks_physical:
  assumes "EvalSymlinks f lk p = Inr r"
  shows "\<exists>es. r = rooted_path es \<and> list_all proper_elem es \<and> (dir_path f lk es \<or> (\<exists>c. file_path f lk es c))"
proof -
  obtain es where w: "walk_links 255 f lk [] (split_on (CHR ''/'') p) = Inr es" and r: "r = rooted_path es"
    using assms by (auto simp: EvalSymlinks_def split: sum.splits)
  have "dir_path f lk es \<or> (\<exists>c. file_path f lk es c)"
    using split_on_no_sep by (intro walk_links_physical[OF w]) auto
  then show ?thesis using r by (auto dest: dir_path_proper file_path_proper)
qed

lemma EvalSymlinks_id:
  assumes "dir_path f lk es \<or> file_path f lk es c" "\<And>p. faults f ''lstat'' p = None"
  shows "EvalSymlinks f lk (rooted_path es) = Inr (rooted_path es)"
proof -
  have "walk_links 255 f lk [] es = Inr es"
    using assms walk_links_dirs[of f lk "[]" es 255 "[]"] walk_links_file by auto
  then show ?thesis
    using assms(1) by (auto simp: EvalSymlinks_def split_on_walk dir_path_proper file_path_proper)
qed


section \<open>The root check\<close>

lemma rooted_path_inj:
  "list_all proper_elem es \<Longrightarrow> list_all proper_elem rs \<Longrightarrow> rooted_path es = rooted_path rs \<longleftrightarrow> es = rs"
  by (auto dest!: arg_cong[of _ _ "split_on (CHR ''/'')"] simp: split_rooted proper_elem_def split: if_splits)

lemma split_on_joined:
  "rs \<noteq> [] \<Longrightarrow> \<forall>e \<in> set rs. CHR ''/'' \<notin> set e \<Longrightarrow>
   split_on (CHR ''/'') (join_with ''/'' rs @ CHR ''/'' # t) = rs @ split_on (CHR ''/'') t"
proof (induction rs)
  case (Cons e rs)
  then show ?case by (cases "rs = []") (auto simp: join_with_Cons split_on_append)
qed simp

lemma join_with_append:
  "rs \<noteq> [] \<Longrightarrow> ts \<noteq> [] \<Longrightarrow> join_with sep (rs @ ts) = join_with sep rs @ sep @ join_with sep ts"
proof (induction rs)
  case (Cons e rs)
  then show ?case by (cases "rs = []") (auto simp: join_with_Cons)
qed simp

text \<open>
  Comparing strings with a trailing separator compares elements, except at the top directory: no clean
  path starts with two separators.
\<close>

lemma root_check:
  assumes "list_all proper_elem es" "list_all proper_elem rs"
  shows "rooted_path es = rooted_path rs \<or> HasPrefix (rooted_path es) (rooted_path rs @ ''/'') \<longleftrightarrow>
         (if rs = [] then es = [] else \<exists>ts. es = rs @ ts)"
proof (cases "rs = []")
  case True
  have "\<not> HasPrefix (rooted_path es) ''//''"
  proof
    assume "HasPrefix (rooted_path es) ''//''"
    then obtain t where "join_with ''/'' es = ''/'' @ t" by (auto simp: HasPrefix_iff rooted_path_def)
    then show False using assms(1) by (cases es; cases "tl es") (auto simp: proper_elem_def append_eq_Cons_conv)
  qed
  then show ?thesis using True rooted_path_inj[OF assms] by (auto simp: rooted_path_def)
next
  case False
  have "\<exists>ts. es = rs @ ts" if h: "HasPrefix (rooted_path es) (rooted_path rs @ ''/'')"
  proof -
    obtain t where "join_with ''/'' es = join_with ''/'' rs @ CHR ''/'' # t"
      using h by (auto simp: HasPrefix_iff rooted_path_def)
    then have j: "split_on (CHR ''/'') (join_with ''/'' es) = rs @ split_on (CHR ''/'') t"
      using split_on_joined[OF False, of t] assms(2) by (auto simp: list_all_iff proper_elem_def)
    then have "es \<noteq> []" using False by (cases rs) auto
    then have "split_on (CHR ''/'') (join_with ''/'' es) = es"
      using assms(1) by (intro split_join_with) (auto simp: list_all_iff proper_elem_def)
    then show ?thesis using j by auto
  qed
  moreover have "rooted_path (rs @ ts) = rooted_path rs \<or> HasPrefix (rooted_path (rs @ ts)) (rooted_path rs @ ''/'')" for ts
    using False by (cases "ts = []") (auto simp: rooted_path_def join_with_append HasPrefix_iff)
  ultimately show ?thesis using False rooted_path_inj[OF assms] by auto
qed

section \<open>What the store serves\<close>

text \<open>The interface \<^verbatim>\<open>CastStore\<close> promises its clients that what it opens is replayable data of the store.\<close>

locale cast_store =
  fixes open_cast :: "string \<Rightarrow> (string \<times> int) result"
    and stored :: "string \<Rightarrow> bool"
  assumes opened: "open_cast p = Inr (c, n) \<Longrightarrow> p \<noteq> [] \<and> stored c \<and> n = int (length c)"
begin

lemma opened_size: "open_cast p = Inr (c, n) \<Longrightarrow> 0 < n \<longleftrightarrow> c \<noteq> []"
  using opened by fastforce

end

definition inside_root :: "local_cast_store \<Rightarrow> string \<Rightarrow> bool" where
  "inside_root s p \<longleftrightarrow> p = store_root s \<or> HasPrefix p (store_root s @ ''/'')"

lemma cast_Open_Inr:
  "cast_Open s cwd lk f p = Inr (c, n) \<longleftrightarrow> p \<noteq> [] \<and> n = int (length c) \<and>
     (\<exists>ap r. abs_or cwd p = Inr ap \<and> EvalSymlinks f lk ap = Inr r \<and> inside_root s r \<and>
        os_Stat f r = Inr (FFile c) \<and> faults f ''open'' r = None)"
  by (auto simp: cast_Open_def inside_root_def split: sum.splits if_splits fs_node.splits option.splits)

lemma stat_file:
  assumes "EvalSymlinks f lk ap = Inr r" "os_Stat f r = Inr (FFile c)"
  obtains es where "r = rooted_path es" "file_path f lk es c"
proof -
  obtain es where es: "r = rooted_path es" "dir_path f lk es \<or> (\<exists>c. file_path f lk es c)"
    using EvalSymlinks_physical[OF assms(1)] by auto
  have "\<not> dir_path f lk es"
    using assms(2) es(1) by (cases es rule: rev_cases) (auto simp: os_Stat_def rooted_path_def dir_path_snoc split: option.splits if_splits)
  then obtain c' where "file_path f lk es c'" using es(2) by auto
  moreover have "node_at f (rooted_path es) = Some (FFile c)"
    using assms(2) es(1) by (auto simp: os_Stat_def split: option.splits if_splits)
  ultimately show ?thesis using that es(1) by (auto simp: file_path_def)
qed

interpretation local_store: cast_store "cast_Open s cwd lk f" "\<lambda>c. \<exists>es. file_path f lk es c \<and> inside_root s (rooted_path es)"
  for s cwd lk f
  by unfold_locales (auto simp: cast_Open_Inr elim: stat_file)

lemma NewLocalCastStore_root:
  assumes "NewLocalCastStore rt cwd lk f = Inr s"
  shows "\<exists>rs. store_root s = rooted_path rs \<and> dir_path f lk rs"
proof -
  obtain ap r where ev: "EvalSymlinks f lk ap = Inr r" and st: "os_Stat f r = Inr FDir" and s: "store_root s = r"
    using assms by (auto simp: NewLocalCastStore_def split: if_splits sum.splits fs_node.splits)
  obtain es where es: "r = rooted_path es" "list_all proper_elem es" "dir_path f lk es \<or> (\<exists>c. file_path f lk es c)"
    using EvalSymlinks_physical[OF ev] by auto
  have "\<not> file_path f lk es c" for c
    using st es(1,2) by (auto simp: file_path_def os_Stat_def join_with_Nil_iff split: option.splits if_splits)
  then show ?thesis using es s by auto
qed



text \<open>Nothing can be replayed from the top directory as root: the check looks for two separators.\<close>

lemma root_slash_refuses:
  assumes "store_root s = ''/''"
  shows "\<not> is_ok (cast_Open s cwd lk f p)"
proof
  assume "is_ok (cast_Open s cwd lk f p)"
  then obtain c n where "cast_Open s cwd lk f p = Inr (c, n)" by auto
  then obtain ap r where ev: "EvalSymlinks f lk ap = Inr r" and i: "inside_root s r" and st: "os_Stat f r = Inr (FFile c)"
    by (auto simp: cast_Open_Inr)
  obtain es where es: "r = rooted_path es" "file_path f lk es c" by (rule stat_file[OF ev st])
  have "es = []"
    using root_check[OF file_path_proper[OF es(2)], of "[]"] i by (simp add: inside_root_def assms es(1) rooted_path_def)
  then show False using es(2) by (simp add: file_path_def)
qed

definition link_disk :: fs where
  "link_disk = demo_fs\<lparr>nodes := [(''/c'', FDir), (''/c/a.cast'', FFile ''hi''), (''/etc'', FDir), (''/etc/pw'', FFile ''secret'')]\<rparr>"

definition link_map :: links where
  "link_map p = (if p = ''/c/up'' then Some ''../etc'' else if p = ''/casts'' then Some ''/c'' else None)"

lemma link_disk_eval:
  "EvalSymlinks link_disk link_map ''/casts'' = Inr ''/c''"
  "EvalSymlinks link_disk link_map ''/casts/a.cast'' = Inr ''/c/a.cast''"
  "EvalSymlinks link_disk link_map ''/c/up/pw'' = Inr ''/etc/pw''"
  by code_simp+

lemma link_disk_store: "NewLocalCastStore ''/casts'' (Inl (Msg [])) link_map link_disk = Inr \<lparr>store_root = ''/c''\<rparr>"
  by code_simp


end
