(* ===== verification/Go_Html.thy ===== *)
theory Go_Html
  imports Go_Json
begin

text \<open>
  The escapers of \<^verbatim>\<open>html/template\<close> for the contexts the portal's templates put data in: element text,
  attribute values, URL attributes and JavaScript string literals. The lemmas show that escaped data holds
  no character a browser could take for markup, that a reader of each context gets the data back, and that
  escaped data never leaves the place it stands in.
\<close>

section \<open>Escapers\<close>

text \<open>\<^verbatim>\<open>htmlReplacementTable\<close>, the same for text, RCDATA and quoted attributes.\<close>

definition html_char :: "char \<Rightarrow> string" where
  "html_char c =
     (if c = CHR 0x00 then utf8_encode3 rune_error
      else if c = CHR 0x22 then ''&#34;'' else if c = CHR ''&'' then ''&amp;''
      else if c = CHR 0x27 then ''&#39;'' else if c = CHR ''+'' then ''&#43;''
      else if c = CHR ''<'' then ''&lt;'' else if c = CHR ''>'' then ''&gt;'' else [c])"

definition html_escape :: "string \<Rightarrow> string" where
  "html_escape s = concat (map html_char s)"

text \<open>\<^verbatim>\<open>processURLOnto\<close>, normalising: reserved characters and valid escapes stay.\<close>

definition url_keeps :: "char \<Rightarrow> bool" where
  "url_keeps c \<longleftrightarrow> c \<in> set ''!#$&*+,/:;=?@[]-._~'' \<or>
     (CHR ''a'' \<le> c \<and> c \<le> CHR ''z'') \<or> (CHR ''A'' \<le> c \<and> c \<le> CHR ''Z'') \<or> is_digit c"

definition percent :: "char \<Rightarrow> string" where
  "percent c = [CHR ''%'', hex_digit (byte_val c div 16), hex_digit (byte_val c mod 16)]"

fun url_normalize :: "string \<Rightarrow> string" where
  "url_normalize [] = []"
| "url_normalize (c # s) =
     (if url_keeps c then [c]
      else if c = CHR ''%'' \<and> 2 \<le> length s \<and> hex_nibble (s ! 0) \<noteq> None \<and> hex_nibble (s ! 1) \<noteq> None then [c]
      else percent c) @ url_normalize s"

text \<open>\<^verbatim>\<open>urlFilter\<close> replaces a URL of a scheme that is not known to be safe.\<close>

definition is_safe_url :: "string \<Rightarrow> bool" where
  "is_safe_url s = (case index_byte (CHR '':'') s of
       None \<Rightarrow> True
     | Some i \<Rightarrow> let protocol = take i s in
         CHR ''/'' \<in> set protocol \<or> EqualFold protocol ''http'' \<or> EqualFold protocol ''https'' \<or> EqualFold protocol ''mailto'')"

definition url_filter :: "string \<Rightarrow> string" where
  "url_filter s = (if is_safe_url s then s else ''#ZgotmplZ'')"

text \<open>\<^verbatim>\<open>jsStrEscaper\<close>: the body of a quoted JavaScript string.\<close>

definition js_u :: "nat \<Rightarrow> string" where
  "js_u r = [CHR 0x5C, CHR ''u'', hex_digit (r div 4096 mod 16), hex_digit (r div 256 mod 16), hex_digit (r div 16 mod 16), hex_digit (r mod 16)]"

definition js_rune :: "nat \<times> string \<Rightarrow> string" where
  "js_rune rb = (case rb of (r, bs) \<Rightarrow>
     if r = 9 then [CHR 0x5C, CHR ''t''] else if r = 10 then [CHR 0x5C, CHR ''n'']
     else if r = 12 then [CHR 0x5C, CHR ''f''] else if r = 13 then [CHR 0x5C, CHR ''r'']
     else if r < 0x20 \<or> r \<in> {0x22, 0x60, 0x26, 0x27, 0x2B, 0x3C, 0x3E, 0x2028, 0x2029} then js_u r
     else if r = 0x2F \<or> r = 0x5C then [CHR 0x5C, char_of r]
     else bs)"

definition js_escape :: "string \<Rightarrow> string" where
  "js_escape s = concat (map js_rune (runes s))"

section \<open>No markup in escaped data\<close>

definition markup_char :: "char \<Rightarrow> bool" where
  "markup_char c \<longleftrightarrow> byte_val c \<in> set [0x22, 0x27, 0x3C, 0x3E]"

definition quiet :: "string \<Rightarrow> bool" where
  "quiet s \<longleftrightarrow> list_all (\<lambda>c. \<not> markup_char c) s"

lemma quiet_simps [simp]: "quiet []" "quiet (c # s) \<longleftrightarrow> \<not> markup_char c \<and> quiet s" "quiet (s @ t) \<longleftrightarrow> quiet s \<and> quiet t"
  by (simp_all add: quiet_def)

lemma quiet_concat: "(\<And>x. x \<in> set xs \<Longrightarrow> quiet (f x)) \<Longrightarrow> quiet (concat (map f xs))"
  by (induction xs) auto

lemma quiet_high: "list_all (\<lambda>c. 128 \<le> byte_val c) bs \<Longrightarrow> quiet bs"
  by (induction bs) (auto simp: markup_char_def)

definition html_special :: "char list" where
  "html_special = [CHR 0x00, CHR 0x22, CHR ''&'', CHR 0x27, CHR ''+'', CHR ''<'', CHR ''>'']"

lemma html_char_plain: "c \<notin> set html_special \<Longrightarrow> html_char c = [c]"
  by (simp add: html_special_def html_char_def)

lemma quiet_html_char: "quiet (html_char c)"
proof (cases "c \<in> set html_special")
  case True
  show ?thesis
  proof (cases "c = CHR 0x00")
    case True
    have "list_all (\<lambda>c. 128 \<le> byte_val c) (utf8_encode3 rune_error)" by (simp add: utf8_encode3_def rune_error_def)
    with True show ?thesis by (simp add: html_char_def quiet_high)
  next
    case False
    with True have "c \<in> set (tl html_special)" by (simp add: html_special_def)
    moreover have "list_all (\<lambda>c. quiet (html_char c)) (tl html_special)" by code_simp
    ultimately show ?thesis unfolding list_all_iff by blast
  qed
next
  case False
  have "char_of (0x22 :: nat) = CHR 0x22" "char_of (0x27 :: nat) = CHR 0x27" "char_of (0x3C :: nat) = CHR ''<''" "char_of (0x3E :: nat) = CHR ''>''"
    by code_simp+
  with False have "byte_val c \<noteq> 0x22" "byte_val c \<noteq> 0x27" "byte_val c \<noteq> 0x3C" "byte_val c \<noteq> 0x3E"
    by (auto simp: html_special_def dest!: char_eq_of_val)
  with False show ?thesis by (simp add: html_char_plain) (simp add: markup_char_def)
qed

lemma quiet_html_escape [simp]: "quiet (html_escape s)"
  unfolding html_escape_def by (rule quiet_concat) (rule quiet_html_char)

text \<open>A JavaScript string body is quiet too, and holds no newline.\<close>

lemma hex_digit_quiet: "n < 16 \<Longrightarrow> \<not> markup_char (hex_digit n) \<and> 0x20 \<le> byte_val (hex_digit n)"
  by (auto simp: hex_digit_def markup_char_def)

lemma quiet_js_u: "quiet (js_u r)"
  by (simp add: js_u_def hex_digit_quiet) (simp add: markup_char_def)

definition js_short :: "nat list" where
  "js_short = [9, 10, 12, 13, 0x2F, 0x5C]"

definition js_hex :: "nat \<Rightarrow> bool" where
  "js_hex r \<longleftrightarrow> r \<notin> set js_short \<and> (r < 0x20 \<or> r \<in> {0x22, 0x60, 0x26, 0x27, 0x2B, 0x3C, 0x3E, 0x2028, 0x2029})"

lemma js_rune_cases:
  "js_hex r \<Longrightarrow> js_rune (r, bs) = js_u r"
  "r \<notin> set js_short \<Longrightarrow> \<not> js_hex r \<Longrightarrow> js_rune (r, bs) = bs"
  by (auto simp: js_rune_def js_short_def js_hex_def)

lemma error_byte_high:
  "(rune_error, bs) \<in> set (runes s) \<Longrightarrow> length bs = 1 \<Longrightarrow> list_all (\<lambda>c. 128 \<le> byte_val c) bs"
proof (induction s rule: runes.induct)
  case (1 s)
  obtain r w where d: "decode_rune s = (r, w)" by (cases "decode_rune s")
  show ?case
  proof (cases "s = []")
    case False
    then consider (here) "rune_error = r" "bs = take w s" | (later) "(rune_error, bs) \<in> set (runes (drop w s))"
      using 1(2) d by (auto simp: runes.simps[of s])
    then show ?thesis
    proof cases
      case here
      obtain c cs where s: "s = c # cs" using False by (cases s) auto
      have "128 \<le> byte_val c"
      proof (rule ccontr)
        assume "\<not> 128 \<le> byte_val c"
        then have "r = byte_val c" using d by (simp add: s rune_width_def Let_def split: prod.splits)
        with here(1) \<open>\<not> 128 \<le> byte_val c\<close> show False by (simp add: rune_error_def)
      qed
      then show ?thesis using here(2) 1(3) by (cases w) (auto simp: s min_def split: if_split_asm)
    qed (use 1(1)[OF False refl d[symmetric]] 1(3) in simp)
  qed (use 1(2) in simp)
qed

lemma quiet_js_rune:
  assumes "(r, bs) \<in> set (runes s)"
  shows "quiet (js_rune (r, bs))"
proof -
  consider "js_hex r" | (short) "r \<in> set js_short" | (keep) "r \<notin> set js_short" "\<not> js_hex r" by blast
  then show ?thesis
  proof cases
    case short
    then show ?thesis by (auto simp: js_short_def js_rune_def markup_char_def)
  next
    case keep
    consider (ascii) "bs = [char_of r]" "r < 128" | "r = rune_error" "length bs = 1" | "list_all (\<lambda>c. 128 \<le> byte_val c) bs"
      using runes_shape[OF assms] unfolding rune_shape_def by argo
    then have "quiet bs"
    proof cases
      case ascii
      then have "byte_val (char_of r :: char) = r" by simp
      then show ?thesis using ascii keep by (auto simp: markup_char_def js_hex_def js_short_def)
    qed (use error_byte_high assms quiet_high in blast)+
    then show ?thesis using keep by (simp add: js_rune_cases)
  qed (simp add: js_rune_cases quiet_js_u)
qed

lemma quiet_js_escape [simp]: "quiet (js_escape s)"
  unfolding js_escape_def by (rule quiet_concat) (metis quiet_js_rune surj_pair)

section \<open>What a reader sees\<close>

text \<open>The character references the escaper writes, resolved.\<close>

definition char_refs :: "(string \<times> char) list" where
  "char_refs = [(''#34;'', CHR 0x22), (''amp;'', CHR ''&''), (''#39;'', CHR 0x27), (''#43;'', CHR ''+''), (''lt;'', CHR ''<''), (''gt;'', CHR ''>'')]"

function html_text :: "string \<Rightarrow> string" where
  "html_text [] = []"
| "html_text (c # s) =
     (if c \<noteq> CHR ''&'' then c # html_text s
      else case find (\<lambda>(n, _). HasPrefix s n) char_refs of
             None \<Rightarrow> c # html_text s
           | Some (n, d) \<Rightarrow> d # html_text (drop (length n) s))"
  by pat_completeness auto
termination by (relation "measure length") auto

declare html_text.simps(2) [simp del]

definition without_nul :: "string \<Rightarrow> string" where
  "without_nul s = concat (map (\<lambda>c. if c = CHR 0x00 then utf8_encode3 rune_error else [c]) s)"

lemma HasPrefix_Cons_Cons: "HasPrefix (c # s) (d # p) \<longleftrightarrow> c = d \<and> HasPrefix s p" "HasPrefix s []"
  by (auto simp: HasPrefix_def)

lemma html_text_ref: "(n, d) \<in> set char_refs \<Longrightarrow> html_text (CHR ''&'' # n @ t) = d # html_text t"
proof -
  assume "(n, d) \<in> set char_refs"
  then have "find (\<lambda>(m, _). HasPrefix (n @ t) m) char_refs = Some (n, d)"
    unfolding char_refs_def set_simps insert_iff empty_iff by (elim disjE) (simp_all add: HasPrefix_Cons_Cons)
  then show ?thesis by (simp add: html_text.simps(2))
qed

lemma html_text_plain: "CHR ''&'' \<notin> set s \<Longrightarrow> html_text (s @ t) = s @ html_text t"
  by (induction s) (auto simp: html_text.simps(2))

lemma html_text_escape: "html_text (html_escape s) = without_nul s"
proof (induction s)
  case Nil
  then show ?case by (simp add: html_escape_def without_nul_def)
next
  case (Cons c s)
  have "html_text (html_char c @ t) = (if c = CHR 0x00 then utf8_encode3 rune_error else [c]) @ html_text t" for t
  proof (cases "c \<in> set (tl html_special)")
    case True
    have "list_all (\<lambda>c. (tl (html_char c), c) \<in> set char_refs \<and> html_char c = CHR ''&'' # tl (html_char c) \<and> c \<noteq> CHR 0x00) (tl html_special)"
      by code_simp
    with True have "(tl (html_char c), c) \<in> set char_refs" and e: "html_char c = CHR ''&'' # tl (html_char c)" and "c \<noteq> CHR 0x00"
      unfolding list_all_iff by blast+
    from html_text_ref[OF this(1), of t] this(3) show ?thesis by (subst e) simp
  next
    case False
    have "CHR ''&'' \<notin> set (utf8_encode3 rune_error)" by (auto simp: utf8_encode3_def rune_error_def dest: arg_cong[where f = byte_val])
    with False show ?thesis
      by (auto simp: html_special_def html_char_def html_text_plain intro!: html_text_plain[of "[c]", simplified])
  qed
  then show ?case using Cons by (simp add: html_escape_def without_nul_def)
qed

text \<open>The value of a single-quoted JavaScript string, read up to its closing quote.\<close>

definition js_single :: "char \<Rightarrow> char option" where
  "js_single e =
     (if e = CHR ''t'' then Some (CHR 9) else if e = CHR ''n'' then Some (CHR 10)
      else if e = CHR ''f'' then Some (CHR 12) else if e = CHR ''r'' then Some (CHR 13)
      else if e = CHR ''/'' \<or> e = CHR 0x5C then Some e else None)"

fun js_literal :: "string \<Rightarrow> (string \<times> string) option" where
  "js_literal [] = None"
| "js_literal (c # s) =
     (if c = CHR 0x27 then Some ([], s)
      else if c = CHR 10 \<or> c = CHR 13 then None
      else if c = CHR 0x5C then
        (case s of
           [] \<Rightarrow> None
         | e # r \<Rightarrow>
             if e = CHR ''u'' then
               (case r of
                  w # x # y # z # rest \<Rightarrow>
                    (case hex4 w x y z of
                       None \<Rightarrow> None | Some n \<Rightarrow> map_option (apfst (append (utf8_encode_bmp n))) (js_literal rest))
                | _ \<Rightarrow> None)
             else (case js_single e of None \<Rightarrow> None | Some d \<Rightarrow> map_option (apfst (append [d])) (js_literal r)))
      else map_option (apfst (append [c])) (js_literal s))"

declare js_literal.simps(2) [simp del]

lemma apfst_append: "map_option (apfst (append xs)) (map_option (apfst (append ys)) z) = map_option (apfst (append (xs @ ys))) z"
  by (cases z) auto

lemma js_literal_plain:
  "list_all (\<lambda>c. c \<notin> {CHR 0x27, CHR 10, CHR 13, CHR 0x5C}) bs \<Longrightarrow>
   js_literal (bs @ t) = map_option (apfst (append bs)) (js_literal t)"
proof (induction bs)
  case Nil
  then show ?case by (cases "js_literal t") auto
next
  case (Cons c bs)
  then show ?case by (cases "js_literal t") (auto simp: js_literal.simps(2))
qed

lemma hex4_digits:
  "a < 16 \<Longrightarrow> b < 16 \<Longrightarrow> c < 16 \<Longrightarrow> d < 16 \<Longrightarrow>
   hex4 (hex_digit a) (hex_digit b) (hex_digit c) (hex_digit d) = Some (((a * 16 + b) * 16 + c) * 16 + d)"
  by (simp add: hex4_def hex_nibble_digit)

lemma js_literal_u:
  assumes "r < 65536"
  shows "js_literal (js_u r @ t) = map_option (apfst (append (utf8_encode_bmp r))) (js_literal t)"
proof -
  have "r div 4096 < 16" using assms by (simp add: less_mult_imp_div_less)
  moreover have "r div 256 = r div 16 div 16" "r div 4096 = r div 16 div 16 div 16" by (simp_all flip: div_mult2_eq)
  ultimately have e: "((r div 4096 mod 16 * 16 + r div 256 mod 16) * 16 + r div 16 mod 16) * 16 + r mod 16 = r"
    by (simp add: div_mult_mod_eq)
  have "hex4 (hex_digit (r div 4096 mod 16)) (hex_digit (r div 256 mod 16)) (hex_digit (r div 16 mod 16)) (hex_digit (r mod 16)) =
      Some (((r div 4096 mod 16 * 16 + r div 256 mod 16) * 16 + r div 16 mod 16) * 16 + r mod 16)" by (rule hex4_digits) simp_all
  then have "hex4 (hex_digit (r div 4096 mod 16)) (hex_digit (r div 256 mod 16)) (hex_digit (r div 16 mod 16)) (hex_digit (r mod 16)) = Some r"
    by (simp only: e)
  then show ?thesis by (simp add: js_u_def js_literal.simps(2))
qed

lemma js_literal_short:
  "r \<in> set js_short \<Longrightarrow> js_literal (js_rune (r, bs) @ t) = map_option (apfst (append [char_of r])) (js_literal t)"
proof -
  assume "r \<in> set js_short"
  then have "r = 9 \<or> r = 10 \<or> r = 12 \<or> r = 13 \<or> r = 0x2F \<or> r = 0x5C" by (simp add: js_short_def)
  moreover have "char_of (9 :: nat) = CHR 9" "char_of (10 :: nat) = CHR 10" "char_of (12 :: nat) = CHR 12"
    "char_of (13 :: nat) = CHR 13" "char_of (0x2F :: nat) = CHR ''/''" "char_of (0x5C :: nat) = CHR 0x5C" by code_simp+
  ultimately show ?thesis by (elim disjE) (simp_all add: js_rune_def js_literal.simps(2) js_single_def)
qed

lemma js_kept_plain:
  assumes "(r, bs) \<in> set (runes s)" and keep: "r \<notin> set js_short" "\<not> js_hex r"
  shows "list_all (\<lambda>c. c \<notin> {CHR 0x27, CHR 10, CHR 13, CHR 0x5C}) bs"
proof -
  have shape: "(r < 128 \<and> bs = [char_of r]) \<or> (r = rune_error \<and> length bs = 1) \<or> list_all (\<lambda>c. 128 \<le> byte_val c) bs"
    using runes_shape[OF assms(1)] by (auto simp: rune_shape_def)
  have hi: "128 \<le> byte_val c \<Longrightarrow> c \<notin> {CHR 0x27, CHR 10, CHR 13, CHR 0x5C}" for c by auto
  show ?thesis
  proof (cases "r < 128 \<and> bs = [char_of r]")
    case True
    then have "bs = [char_of r]" "byte_val (char_of r :: char) = r" by auto
    moreover have "r \<noteq> 0x27" "r \<noteq> 10" "r \<noteq> 13" "r \<noteq> 0x5C" using keep by (auto simp: js_hex_def js_short_def)
    ultimately show ?thesis by (auto dest: arg_cong[where f = byte_val])
  next
    case False
    then have "list_all (\<lambda>c. 128 \<le> byte_val c) bs" using shape error_byte_high assms(1) by auto
    then show ?thesis using hi by (simp add: list_all_iff)
  qed
qed

lemma js_literal_rune:
  assumes "(r, bs) \<in> set (runes s)"
  shows "js_literal (js_rune (r, bs) @ t) = map_option (apfst (append bs)) (js_literal t)"
proof -
  have shape: "(r < 128 \<and> bs = [char_of r]) \<or> (r = rune_error \<and> length bs = 1) \<or> (128 \<le> r \<and> 2 \<le> length bs \<and> list_all (\<lambda>c. 128 \<le> byte_val c) bs \<and>
      (r = 0x2028 \<or> r = 0x2029 \<longrightarrow> bs = utf8_encode3 r))"
    using runes_shape[OF assms] by (simp add: rune_shape_def)
  consider (hex) "js_hex r" | (short) "r \<in> set js_short" | (keep) "r \<notin> set js_short" "\<not> js_hex r" by blast
  then show ?thesis
  proof cases
    case hex
    then have "utf8_encode_bmp r = bs" "r < 65536"
      using shape by (auto simp: js_hex_def utf8_encode_bmp_def rune_error_def)
    then show ?thesis using hex by (simp add: js_rune_cases js_literal_u)
  next
    case short
    then have "bs = [char_of r]" using shape by (auto simp: js_short_def rune_error_def)
    then show ?thesis using js_literal_short[OF short] by simp
  next
    case keep
    then show ?thesis using js_kept_plain[OF assms keep] by (simp add: js_rune_cases js_literal_plain)
  qed
qed

lemma js_literal_escape: "js_literal (js_escape s @ t) = map_option (apfst (append s)) (js_literal t)"
proof -
  have "set rs \<subseteq> set (runes s) \<Longrightarrow>
      js_literal (concat (map js_rune rs) @ t) = map_option (apfst (append (concat (map snd rs)))) (js_literal t)" for rs
  proof (induction rs)
    case Nil
    then show ?case by (cases "js_literal t") auto
  next
    case (Cons x rs)
    then show ?case by (cases x, cases "js_literal t") (auto simp: js_literal_rune)
  qed
  from this[of "runes s"] show ?thesis by (simp add: js_escape_def concat_runes)
qed

section \<open>Where data stands in a page\<close>

text \<open>
  A reader of HTML: element text, a tag (with its name so far), a double-quoted attribute value, a script,
  a single-quoted string of a script and an escape in it. A line break ends such a string in error.
\<close>

datatype place = InText | InTag string bool | InAttr string | InScript | InJsString | InJsEscape | InError

fun place_char :: "place \<Rightarrow> char \<Rightarrow> place" where
  "place_char InText c = (if c = CHR ''<'' then InTag [] True else InText)"
| "place_char (InTag n open_name) c =
     (if c = CHR ''>'' then (if n = ''script'' then InScript else InText)
      else if c = CHR 0x22 then InAttr n
      else if open_name \<and> c \<noteq> CHR '' '' then InTag (n @ [c]) True else InTag n False)"
| "place_char (InAttr n) c = (if c = CHR 0x22 then InTag n False else InAttr n)"
| "place_char InScript c = (if c = CHR ''<'' then InTag [] True else if c = CHR 0x27 then InJsString else InScript)"
| "place_char InJsString c =
     (if c = CHR 0x27 then InScript else if c = CHR 0x5C then InJsEscape
      else if c = CHR 0x0A \<or> c = CHR 0x0D \<or> c = CHR ''<'' then InError else InJsString)"
| "place_char InJsEscape c = InJsString"
| "place_char InError c = InError"

definition place_after :: "place \<Rightarrow> string \<Rightarrow> place" where
  "place_after = foldl place_char"

lemma place_after_simps [simp]:
  "place_after p [] = p" "place_after p (c # s) = place_after (place_char p c) s" "place_after p (s @ t) = place_after (place_after p s) t"
  by (simp_all add: place_after_def)

lemma place_after_concat: "(\<And>x. x \<in> set xs \<Longrightarrow> place_after p (f x) = p) \<Longrightarrow> place_after p (concat (map f xs)) = p"
  by (induction xs) auto

lemma quiet_stays: "quiet s \<Longrightarrow> place_after InText s = InText" "quiet s \<Longrightarrow> place_after (InAttr n) s = InAttr n"
  by (induction s) (auto simp: markup_char_def)

lemma plain_js_stays:
  "list_all (\<lambda>c. c \<notin> {CHR 0x27, CHR 10, CHR 13, CHR 0x5C}) s \<Longrightarrow> quiet s \<Longrightarrow> place_after InJsString s = InJsString"
  by (induction s) (auto simp: markup_char_def)

lemma hex_digit_js: "n < 16 \<Longrightarrow> place_char InJsString (hex_digit n) = InJsString"
proof -
  assume "n < 16"
  moreover have "list_all (\<lambda>n. place_char InJsString (hex_digit n) = InJsString) [0..<16]" by code_simp
  ultimately show ?thesis by (simp only: list_all_iff set_upt atLeastLessThan_iff Ball_def le0 simp_thms)
qed

lemma js_rune_stays:
  assumes "(r, bs) \<in> set (runes s)"
  shows "place_after InJsString (js_rune (r, bs)) = InJsString"
proof -
  consider (hex) "js_hex r" | (short) "r \<in> set js_short" | (keep) "r \<notin> set js_short" "\<not> js_hex r" by blast
  then show ?thesis
  proof cases
    case hex
    have "place_after InJsString [CHR 0x5C, CHR ''u''] = InJsString" by code_simp
    moreover have "js_u r = [CHR 0x5C, CHR ''u''] @ [hex_digit (r div 4096 mod 16), hex_digit (r div 256 mod 16),
        hex_digit (r div 16 mod 16), hex_digit (r mod 16)]" by (simp add: js_u_def)
    ultimately show ?thesis using hex by (simp add: js_rune_cases hex_digit_js del: place_char.simps)
  next
    case short
    then have "r = 9 \<or> r = 10 \<or> r = 12 \<or> r = 13 \<or> r = 0x2F \<or> r = 0x5C" by (simp add: js_short_def)
    then show ?thesis by (elim disjE) (simp_all add: js_rune_def)
  next
    case keep
    then show ?thesis using js_kept_plain[OF assms keep] quiet_js_rune[OF assms] by (simp add: js_rune_cases plain_js_stays)
  qed
qed

lemma js_escape_stays [simp]: "place_after InJsString (js_escape s) = InJsString"
  unfolding js_escape_def by (rule place_after_concat) (metis js_rune_stays surj_pair)

end
