(* ===== verification/Go_Json_Types.thy ===== *)
theory Go_Json_Types
  imports Go_Json_Read
begin

text \<open>
  What decoding guarantees of its results, whatever the bytes decoded: strings are valid UTF-8, times lie
  in the years RFC 3339 can write, and a struct keeps every property its fields keep.
\<close>

section \<open>Valid runes\<close>

text \<open>The bytes of one valid rune: decoded as a unit whatever follows.\<close>

definition rune_bytes :: "string \<Rightarrow> bool" where
  "rune_bytes bs \<longleftrightarrow> bs \<noteq> [] \<and> (\<exists>r. (r = rune_error \<longrightarrow> length bs \<noteq> 1) \<and> (\<forall>t. decode_rune (bs @ t) = (r, length bs)))"

lemma valid_rune_append: "rune_bytes bs \<Longrightarrow> valid_utf8 (bs @ t) \<longleftrightarrow> valid_utf8 t"
proof -
  assume "rune_bytes bs"
  then obtain r where "bs \<noteq> []" "r = rune_error \<longrightarrow> length bs \<noteq> 1" "decode_rune (bs @ t) = (r, length bs)"
    unfolding rune_bytes_def by blast
  then show ?thesis by (auto simp: valid_utf8_def runes.simps[of "bs @ t"])
qed

lemma valid_Nil [simp]: "valid_utf8 []"
  by (simp add: valid_utf8_def)

lemma rune_ascii: "byte_val c < 128 \<Longrightarrow> rune_bytes [c]"
  by (auto simp: rune_bytes_def rune_width_def second_range_def rune_error_def)

lemma multi_rune: "snd (decode_rune bs) = length bs \<Longrightarrow> 2 \<le> length bs \<Longrightarrow> rune_bytes bs"
  using decode_rune_prefix[of bs] unfolding rune_bytes_def by (cases "decode_rune bs") auto

lemma byte_val_of: "n < 256 \<Longrightarrow> byte_val (char_of n :: char) = n"
  by simp

lemma cont_byte: "n < 64 \<Longrightarrow> between 0x80 0xBF (char_of (0x80 + n))" for n :: nat
  by (simp add: between_def)

lemma encode2_rune:
  fixes r :: nat
  assumes "128 \<le> r" "r < 2048"
  shows "rune_bytes [char_of (0xC0 + r div 64), char_of (0x80 + r mod 64)]"
proof -
  have a: "2 \<le> r div 64" "r div 64 < 32" using assms by (simp_all add: less_eq_div_iff_mult_less_eq less_mult_imp_div_less)
  define b where "b = 0xC0 + r div 64"
  have b: "byte_val (char_of b :: char) = b" "0xC2 \<le> b" "b < 0xE0" using a by (simp_all add: b_def)
  have w: "rune_width b = 2" "second_range b = (0x80, 0xBF)" using b(2,3) by (auto simp: rune_width_def second_range_def)
  have c: "between 0x80 0xBF (char_of (0x80 + r mod 64))" by (rule cont_byte) simp
  show ?thesis unfolding b_def[symmetric]
    by (rule multi_rune) (use w c in \<open>simp_all only: decode_rune.simps b(1) Let_def prod.case\<close>, simp_all)
qed

lemma encode3_rune:
  assumes "2048 \<le> r" "r < 65536" "\<not> surrogate r"
  shows "rune_bytes (utf8_encode3 r)"
proof -
  define b c where "b = r div 4096" and "c = r div 64 mod 64"
  have "r div 4096 = r div 64 div 64" by (simp flip: div_mult2_eq)
  then have r: "r div 64 = 64 * b + c" "c < 64" by (simp_all add: b_def c_def)
  have b: "b < 16" using assms(2) by (simp add: b_def less_mult_imp_div_less)
  have z: "b = 0 \<Longrightarrow> 32 \<le> c" using r(1) assms(1) by (simp add: less_eq_div_iff_mult_less_eq)
  have d: "b = 13 \<Longrightarrow> c < 32"
  proof -
    assume "b = 13"
    have "r < 4096 * 13 + 4096" using \<open>b = 13\<close> mod_less_divisor[of 4096 r] div_mult_mod_eq[of r 4096] unfolding b_def by linarith
    then have "r < 0xD800" using assms(3) by (simp add: surrogate_def)
    then have "r div 64 < 0x360" by (simp add: less_mult_imp_div_less)
    then show ?thesis using r(1) \<open>b = 13\<close> by simp
  qed
  define b0 where "b0 = 0xE0 + b"
  have b0: "byte_val (char_of b0 :: char) = b0" "0xE0 \<le> b0" "b0 < 0xF0" using b by (simp_all add: b0_def)
  have w: "rune_width b0 = 3" using b0 by (simp add: rune_width_def)
  obtain lo hi where sr: "second_range b0 = (lo, hi)" by (cases "second_range b0")
  have s: "between lo hi (char_of (0x80 + c))"
    using sr z d b r(2) by (auto simp: second_range_def b0_def between_def split: if_split_asm)
  have e: "between 0x80 0xBF (char_of (0x80 + r mod 64))" by (rule cont_byte) simp
  show ?thesis unfolding utf8_encode3_def b_def[symmetric] c_def[symmetric] b0_def[symmetric]
    by (rule multi_rune) (use w sr s e in \<open>simp_all only: decode_rune.simps b0(1) Let_def prod.case\<close>, simp_all)
qed

lemma encode4_rune:
  assumes "0x10000 \<le> r" "r < 0x110000"
  shows "rune_bytes (utf8_encode4 r)"
proof -
  define b c where "b = r div 262144" and "c = r div 4096 mod 64"
  have "r div 262144 = r div 4096 div 64" by (simp flip: div_mult2_eq)
  then have r: "r div 4096 = 64 * b + c" "c < 64" by (simp_all add: b_def c_def)
  have q: "0x10 \<le> r div 4096" "r div 4096 < 0x110" using assms by (simp_all add: less_eq_div_iff_mult_less_eq less_mult_imp_div_less)
  have b: "b \<le> 4" "b = 0 \<Longrightarrow> 16 \<le> c" "b = 4 \<Longrightarrow> c < 16" using q r by linarith+
  define b0 where "b0 = 0xF0 + b"
  have b0: "byte_val (char_of b0 :: char) = b0" "0xF0 \<le> b0" "b0 < 0xF5" using b by (simp_all add: b0_def)
  have w: "rune_width b0 = 4" using b0 by (simp add: rune_width_def)
  obtain lo hi where sr: "second_range b0 = (lo, hi)" by (cases "second_range b0")
  have s: "between lo hi (char_of (0x80 + c))"
    using sr b r(2) by (auto simp: second_range_def b0_def between_def split: if_split_asm)
  have e: "between 0x80 0xBF (char_of (0x80 + r mod 64))" "between 0x80 0xBF (char_of (0x80 + r div 64 mod 64))" by (rule cont_byte; simp)+
  show ?thesis unfolding utf8_encode4_def b_def[symmetric] c_def[symmetric] b0_def[symmetric]
    by (rule multi_rune) (use w sr s e in \<open>simp_all only: decode_rune.simps b0(1) Let_def prod.case\<close>, simp_all)
qed

lemma error_rune: "rune_bytes (utf8_encode3 rune_error)"
  by (rule encode3_rune) (simp_all add: rune_error_def surrogate_def)

lemma bmp_rune: "r < 65536 \<Longrightarrow> \<not> surrogate r \<Longrightarrow> rune_bytes (utf8_encode_bmp r)"
  by (simp add: utf8_encode_bmp_def encode2_rune encode3_rune rune_ascii)

lemma repaired_rune:
  assumes "decode_rune s = (r, w)" "s \<noteq> []"
  shows "rune_bytes (repair_rune (r, take w s))"
proof -
  have w: "0 < w" "w \<le> length s" using decode_rune_width_pos[OF assms(2)] decode_rune_width_le[of s] assms(1) by simp_all
  consider "w = 1" "r = rune_error" | (ascii) "w = 1" "r \<noteq> rune_error" | (multi) "2 \<le> w" using w(1) by linarith
  then show ?thesis
  proof cases
    case ascii
    obtain c cs where s: "s = c # cs" using assms(2) by (cases s) auto
    have "rune_shape r (take w s)" by (rule decode_rune_shape[OF assms])
    then have "r < 128 \<and> [c] = [char_of r]" using ascii by (auto simp: rune_shape_def s)
    then have "byte_val c < 128" by simp
    then show ?thesis using ascii by (simp add: repair_rune_def s rune_ascii)
  next
    case multi
    then show ?thesis using decode_rune_prefix[OF assms(1) multi] w(2)
      by (auto simp: repair_rune_def rune_bytes_def)
  qed (use w assms in \<open>simp add: repair_rune_def error_rune\<close>)
qed

section \<open>Strings\<close>

lemma valid_Cons_ascii: "byte_val c < 128 \<Longrightarrow> valid_utf8 (c # s) \<longleftrightarrow> valid_utf8 s"
  using valid_rune_append[OF rune_ascii, of c s] by simp

lemma hex4_bound: "hex4 w x y z = Some r \<Longrightarrow> r < 65536"
proof -
  have n: "hex_nibble c = Some v \<Longrightarrow> v < 16" for c v by (auto simp: hex_nibble_def Let_def split: if_split_asm)
  assume "hex4 w x y z = Some r"
  then obtain a b c d where "hex_nibble w = Some a" "hex_nibble x = Some b" "hex_nibble y = Some c" "hex_nibble z = Some d"
    "r = ((a * 16 + b) * 16 + c) * 16 + d" by (auto simp: hex4_def split: option.splits)
  with n show ?thesis by (fastforce dest: n)
qed

lemma surrogate_pair_range: "surrogate_pair hi s = Some (r, t) \<Longrightarrow> surrogate hi \<Longrightarrow> 0x10000 \<le> r \<and> r < 0x110000"
  by (auto simp: surrogate_pair_def surrogate_def split: list.splits option.splits if_splits)

lemma short_escape_ascii: "short_escape e = Some b \<Longrightarrow> byte_val b < 128"
  by (auto simp: short_escape_def split: if_split_asm)

text \<open>Every step of unquoting adds one valid rune.\<close>

definition unescape_adds :: "string \<Rightarrow> string \<Rightarrow> bool" where
  "unescape_adds b s \<longleftrightarrow> (\<exists>bs b' t. rune_bytes bs \<and> s = bs @ t \<and> json_unescape b' = Some t \<and> length b' < length b)"

lemma unescape_addsI:
  "map_option (append bs) (json_unescape b') = Some s \<Longrightarrow> rune_bytes bs \<Longrightarrow> length b' < length b \<Longrightarrow> unescape_adds b s"
  unfolding unescape_adds_def by auto

lemma unescape_addsI_ascii:
  "map_option (Cons c) (json_unescape b') = Some s \<Longrightarrow> byte_val c < 128 \<Longrightarrow> length b' < length b \<Longrightarrow> unescape_adds b s"
  by (rule unescape_addsI[of "[c]"]) (auto simp: rune_ascii)

lemma unescape_step_u:
  assumes "json_unescape (CHR 0x5C # CHR ''u'' # ds) = Some s"
  shows "unescape_adds (CHR 0x5C # CHR ''u'' # ds) s"
proof -
  obtain w x y z rest r where ds: "ds = w # x # y # z # rest" "hex4 w x y z = Some r"
    using assms by (subst (asm) json_unescape.simps) (auto split: list.splits option.splits)
  note u = assms[unfolded ds(1), simplified json_unescape.simps[of "CHR 0x5C # _"], simplified ds(2), simplified]
  show ?thesis
  proof (cases "surrogate r")
    case False
    then show ?thesis using u ds by (auto intro!: unescape_addsI bmp_rune hex4_bound)
  next
    case True
    show ?thesis
    proof (cases "surrogate_pair r rest")
      case None
      then show ?thesis using u ds True by (auto intro!: unescape_addsI[of "utf8_encode3 rune_error"] error_rune)
    next
      case (Some p)
      obtain r' rest' where p: "p = (r', rest')" by (cases p)
      have "length rest' < length rest" "0x10000 \<le> r'" "r' < 0x110000"
        using surrogate_pair_shorter[of r rest r' rest'] surrogate_pair_range[of r rest r' rest'] Some p True by simp_all
      then show ?thesis using u ds True Some p by (auto intro!: unescape_addsI[of "utf8_encode4 r'" rest'] encode4_rune)
    qed
  qed
qed

lemma unescape_step:
  assumes "json_unescape (c # cs) = Some s"
  shows "unescape_adds (c # cs) s"
proof -
  consider (esc) "c = CHR 0x5C" | (plain) "c \<noteq> CHR 0x5C" "byte_val c < 128" | (multi) "c \<noteq> CHR 0x5C" "\<not> byte_val c < 128" by blast
  then show ?thesis
  proof cases
    case esc
    then obtain e ds where cs: "cs = e # ds" using assms by (subst (asm) json_unescape.simps) (auto split: list.splits)
    show ?thesis
    proof (cases "e = CHR ''u''")
      case True
      then show ?thesis using unescape_step_u assms esc cs by simp
    next
      case False
      then obtain b where "short_escape e = Some b" "map_option (Cons b) (json_unescape ds) = Some s"
        using assms esc cs by (subst (asm) json_unescape.simps) (auto split: option.splits)
      then show ?thesis by (auto simp: cs intro!: unescape_addsI_ascii short_escape_ascii)
    qed
  next
    case plain
    then have "map_option (Cons c) (json_unescape cs) = Some s"
      using assms by (subst (asm) json_unescape.simps) (simp split: if_split_asm)
    then show ?thesis using plain(2) by (rule unescape_addsI_ascii) simp
  next
    case multi
    obtain r w where d: "decode_rune (c # cs) = (r, w)" by (cases "decode_rune (c # cs)")
    have "c \<noteq> CHR 0x22" using multi(2) by auto
    then have "map_option (append (repair_rune (r, take w (c # cs)))) (json_unescape (drop w (c # cs))) = Some s"
      using assms multi d by (subst (asm) json_unescape.simps) (simp split: if_split_asm del: decode_rune.simps)
    moreover have "length (drop w (c # cs)) < length (c # cs)" using decode_rune_width_pos[of "c # cs"] d by simp
    ultimately show ?thesis using repaired_rune[OF d] by (auto intro: unescape_addsI)
  qed
qed

lemma json_unescape_valid: "json_unescape b = Some s \<Longrightarrow> valid_utf8 s"
proof (induction b arbitrary: s rule: length_induct)
  case (1 b)
  show ?case
  proof (cases b)
    case (Cons c cs)
    then obtain bs b' t where "rune_bytes bs" "s = bs @ t" "json_unescape b' = Some t" "length b' < length b"
      using unescape_step[of c cs s] 1(2) unfolding unescape_adds_def by auto
    then show ?thesis using 1(1) valid_rune_append by blast
  qed (use 1 in simp)
qed

lemma read_str_valid: "read_str v old = Some s \<Longrightarrow> valid_utf8 old \<Longrightarrow> valid_utf8 s"
  by (cases v) (auto dest: json_unescape_valid)

section \<open>Times\<close>

text \<open>From the first day of year 0 to the last of year 9999, a zone offset of at most 25 hours apart.\<close>

definition wire_time :: "time \<Rightarrow> bool" where
  "wire_time t \<longleftrightarrow> (- 719528 * 86400 - 90000) * second \<le> t \<and> t < (2932897 * 86400 + 90000) * second"

lemma year_days:
  fixes k :: int
  assumes "0 \<le> k" "k \<le> 399"
  shows "0 \<le> k * 365 + k div 4 - k div 100" "k * 365 + k div 4 - k div 100 \<le> 145731" "k \<le> 398 \<Longrightarrow> k * 365 + k div 4 - k div 100 \<le> 145366"
  using assms div_between[of 4 k] div_between[of 100 k] by linarith+

lemma civil_range:
  assumes "0 \<le> y" "y \<le> 9999" "1 \<le> m" "m \<le> 12" "1 \<le> d" "d \<le> 31"
  shows "- 719528 \<le> days_civil y m d" "days_civil y m d \<le> 2932896"
proof -
  define y' where "y' = (if m \<le> 2 then y - 1 else y)"
  define q where "q = y' mod 400 * 365 + y' mod 400 div 4 - y' mod 400 div 100"
  define doy where "doy = (153 * (if m > 2 then m - 3 else m + 9) + 2) div 5 + d - 1"
  have dc: "days_civil y m d = y' div 400 * 146097 + q + doy - 719468"
    unfolding days_civil_def Let_def y'_def q_def doy_def by simp
  have yoe: "0 \<le> y' mod 400" "y' mod 400 \<le> 399" "y' = 400 * (y' div 400) + y' mod 400" by simp_all
  note qb = year_days[OF yoe(1,2), folded q_def]
  have doy0: "0 \<le> doy" using assms(3,5) unfolding doy_def by (auto simp: div_int_pos_iff)
  show "- 719528 \<le> days_civil y m d"
  proof (cases "y' = - 1")
    case True
    then have "m \<le> 2" using assms(1) by (auto simp: y'_def split: if_split_asm)
    then have "306 \<le> doy" using assms(3,5) unfolding doy_def by auto
    moreover have "y' div 400 = - 1" "q = 145731" unfolding q_def True by simp_all
    ultimately show ?thesis unfolding dc by simp
  next
    case False
    then have "0 \<le> y' div 400" using assms(1) by (simp add: y'_def pos_imp_zdiv_nonneg_iff split: if_split_asm)
    then show ?thesis unfolding dc using qb(1) doy0 by linarith
  qed
  show "days_civil y m d \<le> 2932896"
  proof (cases "m \<le> 2")
    case True
    have "y' \<le> 9998" using True assms(2) by (simp add: y'_def)
    then have "y' div 400 \<le> 24" "y' div 400 = 24 \<longrightarrow> y' mod 400 \<le> 398" using yoe by linarith+
    moreover have "doy \<le> 367" using True assms(3,6) unfolding doy_def by auto
    ultimately show ?thesis unfolding dc using qb by linarith
  next
    case False
    have "y' \<le> 9999" using False assms(2) by (simp add: y'_def)
    then have "y' div 400 \<le> 24" using yoe by linarith
    moreover have "doy \<le> 305"
    proof -
      have "(153 * (m - 3) + 2) div 5 \<le> (153 * 9 + 2) div (5 :: int)" using assms(4) by (intro zdiv_mono1) auto
      then show ?thesis using False assms(6) unfolding doy_def by simp
    qed
    ultimately show ?thesis unfolding dc using qb(2) by linarith
  qed
qed

lemma take_field_range: "take_field n lo hi s = Some (v, r) \<Longrightarrow> lo \<le> v \<and> v \<le> hi"
  by (auto simp: take_field_def split: bind_splits if_split_asm)

lemma take_hour_range: "take_hour s = Some (v, r) \<Longrightarrow> 0 \<le> v \<and> v \<le> 23"
  by (auto simp: take_hour_def split: if_split_asm dest!: take_field_range)

lemma digits_val_less: "list_all is_digit ds \<Longrightarrow> digits_val ds < 10 ^ length ds"
proof (induction ds rule: rev_induct)
  case (snoc c ds)
  have "digit_val c < 10" using snoc(2) by (auto simp: is_digit_def digit_val_def)
  moreover have "digits_val ds + 1 \<le> 10 ^ length ds" using snoc by simp
  ultimately show ?case by (simp add: digits_val_def) 
qed (simp add: digits_val_def)

lemma take_fraction_range: "take_fraction s = (ns, r) \<Longrightarrow> 0 \<le> ns \<and> ns < second"
proof -
  define ds where "ds = take 9 (takeWhile is_digit (tl s))"
  assume f: "take_fraction s = (ns, r)"
  have l: "length ds \<le> 9" by (simp add: ds_def)
  have "list_all is_digit ds" unfolding ds_def list_all_iff by (meson in_set_takeD set_takeWhileD)
  then have "int (digits_val ds) < 10 ^ length ds" using digits_val_less by (metis of_nat_less_iff of_nat_power of_nat_numeral)
  then have "int (digits_val ds) * 10 ^ (9 - length ds) < 10 ^ length ds * 10 ^ (9 - length ds)" by simp
  also have "\<dots> = 10 ^ 9" using l by (simp flip: power_add)
  finally show ?thesis using f by (auto simp: take_fraction_def Let_def ds_def[symmetric] second_def split: if_split_asm)
qed

lemma take_zone_range: "take_zone s = Some off \<Longrightarrow> - 90000 \<le> off \<and> off \<le> 90000"
  by (auto simp: take_zone_def split: if_split_asm bind_splits dest!: take_field_range)

lemma parse_rfc3339_range: "parse_rfc3339 s = Some t \<Longrightarrow> wire_time t"
proof -
  assume "parse_rfc3339 s = Some t"
  then obtain y s1 m s2 d s3 hh s4 mm s5 ss s6 ns s7 off where
    f: "take_field 4 0 9999 s = Some (y, s1)" "take_field 2 1 12 s2 = Some (m, s3)" "take_field 2 1 (daysIn m y) s4 = Some (d, s5)"
    and g: "\<exists>s s'. take_hour s = Some (hh, s')" "\<exists>s s'. take_field 2 0 59 s = Some (mm, s')" "\<exists>s s'. take_field 2 0 59 s = Some (ss, s')"
      "take_fraction s6 = (ns, s7)" "take_zone s7 = Some off"
    and t: "t = (days_civil y m d * 86400 + hh * 3600 + mm * 60 + ss - off) * second + ns"
    unfolding parse_rfc3339_def by (auto split: bind_splits prod.splits) blast
  have "daysIn m y \<le> 31" by (simp add: daysIn_def)
  then have c: "- 719528 \<le> days_civil y m d" "days_civil y m d \<le> 2932896"
    using civil_range[of y m d] f[THEN take_field_range] by auto
  have h: "0 \<le> hh" "hh \<le> 23" "0 \<le> mm" "mm \<le> 59" "0 \<le> ss" "ss \<le> 59"
    using g(1-3) take_hour_range take_field_range by blast+
  note ns = take_fraction_range[OF g(4)] and off = take_zone_range[OF g(5)]
  define x where "x = days_civil y m d * 86400 + hh * 3600 + mm * 60 + ss - off"
  have x: "- 719528 * 86400 - 90000 \<le> x" "x + 1 \<le> 2932897 * 86400 + 90000" using c h off unfolding x_def by linarith+
  have s0: "0 \<le> second" by (simp add: second_def)
  have "(- 719528 * 86400 - 90000) * second \<le> x * second" "(x + 1) * second \<le> (2932897 * 86400 + 90000) * second"
    using mult_right_mono[OF x(1) s0] mult_right_mono[OF x(2) s0] by simp_all
  then show ?thesis using ns unfolding wire_time_def t x_def[symmetric] distrib_right by linarith
qed

lemma read_time_range: "read_time v old = Some t \<Longrightarrow> wire_time old \<Longrightarrow> wire_time t"
  by (cases v) (auto dest: parse_rfc3339_range)

lemma zero_time_range: "wire_time zero_time"
  by (simp add: wire_time_def zero_time_def second_def)

section \<open>Structs\<close>

text \<open>The contract of a struct's fields: whatever value a field is given, it keeps the struct well-typed.\<close>

locale typed_struct =
  fixes fields :: "'r field list" and zero :: 'r and typed :: "'r \<Rightarrow> bool"
  assumes zero_typed: "typed zero"
    and field_typed: "(n, f) \<in> set fields \<Longrightarrow> typed r \<Longrightarrow> f v r = Some r' \<Longrightarrow> typed r'"
begin

lemma fill_object_typed: "fill_object fields kvs r = Some r' \<Longrightarrow> typed r \<Longrightarrow> typed r'"
proof (induction kvs arbitrary: r)
  case (Cons kv kvs)
  obtain k v where kv: "kv = (k, v)" by (cases kv)
  with Cons(2) obtain name r1 where n: "json_unescape k = Some name"
    "(case find_field fields name of None \<Rightarrow> Some r | Some f \<Rightarrow> f v r) = Some r1" "fill_object fields kvs r1 = Some r'"
    by (auto split: bind_splits)
  have "typed r1"
  proof (cases "find_field fields name")
    case (Some f)
    then have "\<exists>n. (n, f) \<in> set fields"
      by (auto simp: find_field_def dest: map_of_SomeD find_Some_member split: option.splits)
    then show ?thesis using n(2) Some field_typed Cons(3) by auto
  qed (use n(2) Cons(3) in simp)
  then show ?case using Cons(1) n(3) by blast
qed simp

lemma Unmarshal_typed: "Unmarshal fields zero s = Some r \<Longrightarrow> typed r"
proof -
  assume "Unmarshal fields zero s = Some r"
  then obtain v where "fill_struct fields v zero = Some r" by (auto simp: Unmarshal_def split: bind_splits)
  then show ?thesis using zero_typed fill_object_typed by (cases v) auto
qed

end

end
