(* ===== verification/Portal_Rows.thy ===== *)
theory Portal_Rows
  imports Session_Audit Go_Json_Types
begin

text \<open>
  The rows of the web portal, \<^verbatim>\<open>internal/proxyd/portal/sessions.go\<close> and \<^verbatim>\<open>audit.go\<close>: decoding the journal's
  messages into session and audit rows, and the configuration of the trackers that keep them. The
  tracker itself (package \<^verbatim>\<open>tokyo3-base/journal\<close>) is a parameter. The lemmas show that the JSON of an audit
  entry is read back field by field, and that every row has well-typed fields whatever the message was.
\<close>

section \<open>Session rows\<close>

text \<open>The struct \<^verbatim>\<open>json.Unmarshal\<close> fills, and its fields by their tags.\<close>

record raw_session =
  rwAction :: string
  rwSessionID :: string
  rwUser :: string
  rwTarget :: string
  rwRemoteUser :: string
  rwPrincipals :: string
  rwClientIP :: string
  rwRecordingPath :: string
  rwMetadata :: string
  rwOccurredAt :: time

definition zero_raw_session :: raw_session where
  "zero_raw_session = \<lparr>rwAction = [], rwSessionID = [], rwUser = [], rwTarget = [], rwRemoteUser = [], rwPrincipals = [], rwClientIP = [], rwRecordingPath = [], rwMetadata = [], rwOccurredAt = zero_time\<rparr>"

definition raw_session_fields :: "raw_session field list" where
  "raw_session_fields =
     [scalar_field read_str ''action'' rwAction (\<lambda>x r. r\<lparr>rwAction := x\<rparr>),
      scalar_field read_str ''session_id'' rwSessionID (\<lambda>x r. r\<lparr>rwSessionID := x\<rparr>),
      scalar_field read_str ''user'' rwUser (\<lambda>x r. r\<lparr>rwUser := x\<rparr>),
      scalar_field read_str ''target'' rwTarget (\<lambda>x r. r\<lparr>rwTarget := x\<rparr>),
      scalar_field read_str ''remote_user'' rwRemoteUser (\<lambda>x r. r\<lparr>rwRemoteUser := x\<rparr>),
      scalar_field read_str ''principals'' rwPrincipals (\<lambda>x r. r\<lparr>rwPrincipals := x\<rparr>),
      scalar_field read_str ''client_ip'' rwClientIP (\<lambda>x r. r\<lparr>rwClientIP := x\<rparr>),
      scalar_field read_str ''recording_path'' rwRecordingPath (\<lambda>x r. r\<lparr>rwRecordingPath := x\<rparr>),
      scalar_field read_str ''metadata'' rwMetadata (\<lambda>x r. r\<lparr>rwMetadata := x\<rparr>),
      scalar_field read_time ''occurred_at'' rwOccurredAt (\<lambda>x r. r\<lparr>rwOccurredAt := x\<rparr>)]"

record portal_session =
  psSessionID :: string
  psUser :: string
  psTarget :: string
  psRemoteUser :: string
  psPrincipals :: string
  psClientIP :: string
  psRecordingPath :: string
  psCompletedAt :: time
  psDuration :: duration

text \<open>The struct of the metadata blob has one field, \<^verbatim>\<open>duration_seconds\<close>; it is its value.\<close>

definition metadata_fields :: "rat field list" where
  "metadata_fields = [scalar_field read_float64 ''duration_seconds'' (\<lambda>r. r) (\<lambda>x r. x)]"

text \<open>
  Converting a float to \<^verbatim>\<open>int64\<close> truncates; out of range the result is implementation-specific, and
  \<open>oob\<close> stands for it.
\<close>

definition to_int64 :: "(rat \<Rightarrow> int) \<Rightarrow> rat \<Rightarrow> int" where
  "to_int64 oob x = (if in_int64 (trunc_rat x) then trunc_rat x else oob x)"

definition decodeSession :: "(rat \<Rightarrow> int) \<Rightarrow> string \<Rightarrow> portal_session option" where
  "decodeSession oob msg =
     (case Unmarshal raw_session_fields zero_raw_session msg of
        None \<Rightarrow> None
      | Some raw \<Rightarrow>
          if rwAction raw \<noteq> ActionRecordingComplete then None
          else
            let sess = \<lparr>psSessionID = rwSessionID raw, psUser = rwUser raw, psTarget = rwTarget raw,
                        psRemoteUser = rwRemoteUser raw, psPrincipals = rwPrincipals raw, psClientIP = rwClientIP raw,
                        psRecordingPath = rwRecordingPath raw, psCompletedAt = rwOccurredAt raw, psDuration = 0\<rparr>
            in if rwMetadata raw \<noteq> [] then
                 (case Unmarshal metadata_fields 0 (rwMetadata raw) of
                    None \<Rightarrow> Some sess
                  | Some secs \<Rightarrow> if secs > 0 then Some (sess\<lparr>psDuration := to_int64 oob (fl64 (secs * of_int second))\<rparr>)
                                else Some sess)
               else Some sess)"

section \<open>Audit rows\<close>

record raw_audit =
  raID :: string
  raAction :: string
  raOccurredAt :: time
  raUser :: string
  raTarget :: string
  raClientIP :: string
  raSessionID :: string
  raReason :: string
  raMetadata :: string

record audit_event =
  aeID :: string
  aeAction :: string
  aeOccurredAt :: time
  aeActor :: string
  aeSubject :: string
  aeIP :: string
  aeSessionID :: string
  aeReason :: string
  aeDetail :: string

definition zero_raw_audit :: raw_audit where
  "zero_raw_audit = \<lparr>raID = [], raAction = [], raOccurredAt = zero_time, raUser = [], raTarget = [], raClientIP = [], raSessionID = [], raReason = [], raMetadata = []\<rparr>"

definition raw_audit_fields :: "raw_audit field list" where
  "raw_audit_fields =
     [scalar_field read_str ''id'' raID (\<lambda>x r. r\<lparr>raID := x\<rparr>),
      scalar_field read_str ''action'' raAction (\<lambda>x r. r\<lparr>raAction := x\<rparr>),
      scalar_field read_time ''occurred_at'' raOccurredAt (\<lambda>x r. r\<lparr>raOccurredAt := x\<rparr>),
      scalar_field read_str ''user'' raUser (\<lambda>x r. r\<lparr>raUser := x\<rparr>),
      scalar_field read_str ''target'' raTarget (\<lambda>x r. r\<lparr>raTarget := x\<rparr>),
      scalar_field read_str ''client_ip'' raClientIP (\<lambda>x r. r\<lparr>raClientIP := x\<rparr>),
      scalar_field read_str ''session_id'' raSessionID (\<lambda>x r. r\<lparr>raSessionID := x\<rparr>),
      scalar_field read_str ''reason'' raReason (\<lambda>x r. r\<lparr>raReason := x\<rparr>),
      scalar_field read_str ''metadata'' raMetadata (\<lambda>x r. r\<lparr>raMetadata := x\<rparr>)]"

definition decodeAuditEvent :: "string \<Rightarrow> audit_event option" where
  "decodeAuditEvent msg =
     (case Unmarshal raw_audit_fields zero_raw_audit msg of
        None \<Rightarrow> None
      | Some raw \<Rightarrow>
          if raAction raw = [] \<or> raOccurredAt raw = zero_time then None
          else Some \<lparr>aeID = raID raw, aeAction = raAction raw, aeOccurredAt = raOccurredAt raw, aeActor = raUser raw,
                     aeSubject = raTarget raw, aeIP = raClientIP raw, aeSessionID = raSessionID raw,
                     aeReason = raReason raw, aeDetail = raMetadata raw\<rparr>)"

section \<open>Trackers\<close>

text \<open>The configuration handed to \<^verbatim>\<open>journal.NewTracker\<close>, which is the parameter \<open>newTracker\<close>.\<close>

record ('src, 'row) tracker_config =
  tkSource :: "'src option"
  tkMax :: int
  tkLabel :: string
  tkDecode :: "string \<Rightarrow> 'row option"
  tkLess :: "('row \<Rightarrow> 'row \<Rightarrow> bool) option"

definition DefaultMaxSessions :: int where "DefaultMaxSessions = 200"
definition DefaultMaxAuditEvents :: int where "DefaultMaxAuditEvents = 500"

definition NewSessionTracker ::
  "(('src, portal_session) tracker_config \<Rightarrow> 't result) \<Rightarrow> (rat \<Rightarrow> int) \<Rightarrow> 'src option \<Rightarrow> int \<Rightarrow> 't result" where
  "NewSessionTracker newTracker oob source maxSessions =
     newTracker \<lparr>tkSource = source, tkMax = (if maxSessions \<le> 0 then DefaultMaxSessions else maxSessions),
                 tkLabel = ''ssh_audit/sessions'', tkDecode = decodeSession oob, tkLess = None\<rparr>"

definition NewAuditTracker ::
  "(('src, audit_event) tracker_config \<Rightarrow> 't result) \<Rightarrow> 'src option \<Rightarrow> int \<Rightarrow> 't result" where
  "NewAuditTracker newTracker source maxEvents =
     newTracker \<lparr>tkSource = source, tkMax = maxEvents, tkLabel = ''ssh_audit'', tkDecode = decodeAuditEvent,
                 tkLess = Some (\<lambda>a b. aeOccurredAt a > aeOccurredAt b)\<rparr>"

section \<open>Completed recordings in the session list\<close>

lemma trunc_rat_nonneg: "0 \<le> x \<Longrightarrow> trunc_rat x = \<lfloor>x\<rfloor>"
  by (simp add: trunc_rat_def)

lemma near_in_int64: "\<bar>m - 1000 * k\<bar> < 3 \<Longrightarrow> 0 \<le> k \<Longrightarrow> 1000 * k \<le> 2 ^ 52 \<Longrightarrow> in_int64 m"
  by (simp add: int64_defs abs_less_iff)

lemma duration_recovered:
  assumes "0 \<le> k" "1000 * k \<le> 2 ^ 52"
  shows "\<bar>to_int64 oob (fl64 (fl64 (of_int k / 1000000) * of_int second)) - 1000 * k\<bar> \<le> 2"
proof -
  define x a y b where "x = (of_int k / 1000000 :: rat)" and "a = fl64 x" and "y = a * of_int second" and "b = fl64 y"
  have x: "0 \<le> x" "of_int (1000 * k) = x * 1000000000" using assms(1) by (simp_all add: x_def)
  have big: "x * 1000000000 \<le> 2 ^ 52" using assms(2) x(2) by (metis of_int_le_iff of_int_numeral of_int_power)
  have ae: "\<bar>a - x\<bar> \<le> x / 2 ^ 53" unfolding a_def by (rule fl64_error) (rule x(1))
  have y0: "0 \<le> y" using x(1) by (simp add: y_def a_def second_def)
  have ye: "\<bar>y - x * 1000000000\<bar> \<le> 1 / 2"
  proof -
    have "y - x * 1000000000 = (a - x) * 1000000000" by (simp add: y_def second_def left_diff_distrib)
    then have "\<bar>y - x * 1000000000\<bar> = \<bar>a - x\<bar> * 1000000000" by (simp only: abs_mult abs_numeral)
    also have "\<dots> \<le> (x / 2 ^ 53) * 1000000000" using ae by (intro mult_right_mono) auto
    also have "\<dots> \<le> 1 / 2" using big by (simp add: field_simps)
    finally show ?thesis .
  qed
  have be: "\<bar>b - y\<bar> \<le> y / 2 ^ 53" unfolding b_def by (rule fl64_error) (rule y0)
  have "y \<le> 2 ^ 52 + 1 / 2" using ye big by linarith
  then have "y / 2 ^ 53 \<le> 3 / 4" by simp
  then have bd: "\<bar>b - of_int (1000 * k)\<bar> \<le> 5 / 4" using be ye unfolding x(2) by linarith
  have b0: "0 \<le> b" using y0 by (simp add: b_def)
  have fl: "of_int \<lfloor>b\<rfloor> \<le> b" "b < of_int \<lfloor>b\<rfloor> + 1" by linarith+
  have "of_int \<lfloor>b\<rfloor> < of_int (1000 * k) + (3 :: rat)" "of_int (1000 * k) < of_int \<lfloor>b\<rfloor> + (3 :: rat)" using bd fl by linarith+
  then have "of_int \<lfloor>b\<rfloor> < (of_int (1000 * k + 3) :: rat)" "of_int (1000 * k) < (of_int (\<lfloor>b\<rfloor> + 3) :: rat)" by simp_all
  then have lt: "\<bar>\<lfloor>b\<rfloor> - 1000 * k\<bar> < 3" unfolding of_int_less_iff by linarith
  moreover have "in_int64 \<lfloor>b\<rfloor>" by (rule near_in_int64[OF lt assms])
  ultimately show ?thesis
    using b0 unfolding b_def y_def a_def x_def by (simp add: to_int64_def trunc_rat_nonneg)
qed

section \<open>Entries read back\<close>

lemma entry_keys [simp]:
  "repair_utf8 ''id'' = ''id''"
  "repair_utf8 ''action'' = ''action''"
  "repair_utf8 ''session_id'' = ''session_id''"
  "repair_utf8 ''user'' = ''user''"
  "repair_utf8 ''principals'' = ''principals''"
  "repair_utf8 ''target'' = ''target''"
  "repair_utf8 ''remote_user'' = ''remote_user''"
  "repair_utf8 ''client_ip'' = ''client_ip''"
  "repair_utf8 ''recording_path'' = ''recording_path''"
  "repair_utf8 ''reason'' = ''reason''"
  "repair_utf8 ''metadata'' = ''metadata''"
  "repair_utf8 ''occurred_at'' = ''occurred_at''"
  "repair_utf8 ''duration_seconds'' = ''duration_seconds''"
  "repair_utf8 ''started_at'' = ''started_at''"
  by (simp_all add: repair_ascii is_ascii_def)

lemma raw_session_rules:
  "map_of raw_session_fields ''action'' = Some (snd (scalar_field read_str ''action'' rwAction (\<lambda>x r. r\<lparr>rwAction := x\<rparr>)))"
  "map_of raw_session_fields ''session_id'' = Some (snd (scalar_field read_str ''session_id'' rwSessionID (\<lambda>x r. r\<lparr>rwSessionID := x\<rparr>)))"
  "map_of raw_session_fields ''user'' = Some (snd (scalar_field read_str ''user'' rwUser (\<lambda>x r. r\<lparr>rwUser := x\<rparr>)))"
  "map_of raw_session_fields ''target'' = Some (snd (scalar_field read_str ''target'' rwTarget (\<lambda>x r. r\<lparr>rwTarget := x\<rparr>)))"
  "map_of raw_session_fields ''remote_user'' = Some (snd (scalar_field read_str ''remote_user'' rwRemoteUser (\<lambda>x r. r\<lparr>rwRemoteUser := x\<rparr>)))"
  "map_of raw_session_fields ''principals'' = Some (snd (scalar_field read_str ''principals'' rwPrincipals (\<lambda>x r. r\<lparr>rwPrincipals := x\<rparr>)))"
  "map_of raw_session_fields ''client_ip'' = Some (snd (scalar_field read_str ''client_ip'' rwClientIP (\<lambda>x r. r\<lparr>rwClientIP := x\<rparr>)))"
  "map_of raw_session_fields ''recording_path'' = Some (snd (scalar_field read_str ''recording_path'' rwRecordingPath (\<lambda>x r. r\<lparr>rwRecordingPath := x\<rparr>)))"
  "map_of raw_session_fields ''metadata'' = Some (snd (scalar_field read_str ''metadata'' rwMetadata (\<lambda>x r. r\<lparr>rwMetadata := x\<rparr>)))"
  by (simp_all add: raw_session_fields_def scalar_field_def)

lemma raw_audit_rules:
  "map_of raw_audit_fields ''id'' = Some (snd (scalar_field read_str ''id'' raID (\<lambda>x r. r\<lparr>raID := x\<rparr>)))"
  "map_of raw_audit_fields ''action'' = Some (snd (scalar_field read_str ''action'' raAction (\<lambda>x r. r\<lparr>raAction := x\<rparr>)))"
  "map_of raw_audit_fields ''user'' = Some (snd (scalar_field read_str ''user'' raUser (\<lambda>x r. r\<lparr>raUser := x\<rparr>)))"
  "map_of raw_audit_fields ''target'' = Some (snd (scalar_field read_str ''target'' raTarget (\<lambda>x r. r\<lparr>raTarget := x\<rparr>)))"
  "map_of raw_audit_fields ''client_ip'' = Some (snd (scalar_field read_str ''client_ip'' raClientIP (\<lambda>x r. r\<lparr>raClientIP := x\<rparr>)))"
  "map_of raw_audit_fields ''session_id'' = Some (snd (scalar_field read_str ''session_id'' raSessionID (\<lambda>x r. r\<lparr>raSessionID := x\<rparr>)))"
  "map_of raw_audit_fields ''reason'' = Some (snd (scalar_field read_str ''reason'' raReason (\<lambda>x r. r\<lparr>raReason := x\<rparr>)))"
  "map_of raw_audit_fields ''metadata'' = Some (snd (scalar_field read_str ''metadata'' raMetadata (\<lambda>x r. r\<lparr>raMetadata := x\<rparr>)))"
  by (simp_all add: raw_audit_fields_def scalar_field_def)

lemma raw_session_others:
  "list_all (\<lambda>n. ''id'' \<noteq> n \<and> \<not> EqualFold ''id'' n) (map fst raw_session_fields)"
  "list_all (\<lambda>n. ''reason'' \<noteq> n \<and> \<not> EqualFold ''reason'' n) (map fst raw_session_fields)"
  by (simp_all add: raw_session_fields_def scalar_field_def EqualFold.simps HasPrefix_def lower_byte_def)

lemma raw_audit_others:
  "list_all (\<lambda>n. ''principals'' \<noteq> n \<and> \<not> EqualFold ''principals'' n) (map fst raw_audit_fields)"
  "list_all (\<lambda>n. ''remote_user'' \<noteq> n \<and> \<not> EqualFold ''remote_user'' n) (map fst raw_audit_fields)"
  "list_all (\<lambda>n. ''recording_path'' \<noteq> n \<and> \<not> EqualFold ''recording_path'' n) (map fst raw_audit_fields)"
  by (simp_all add: raw_audit_fields_def scalar_field_def EqualFold.simps HasPrefix_def lower_byte_def)

text \<open>Every string of an entry reaches the structs with invalid bytes replaced.\<close>

definition raw_of_entry :: "audit_entry \<Rightarrow> raw_session" where
  "raw_of_entry e =
     \<lparr>rwAction = repair_utf8 (Action e), rwSessionID = repair_utf8 (SessionID e), rwUser = repair_utf8 (User e),
      rwTarget = repair_utf8 (Target e), rwRemoteUser = repair_utf8 (RemoteUser e), rwPrincipals = repair_utf8 (Principals e),
      rwClientIP = repair_utf8 (ClientIP e), rwRecordingPath = repair_utf8 (RecordingPath e),
      rwMetadata = repair_utf8 (Metadata e), rwOccurredAt = OccurredAt e\<rparr>"

definition raw_audit_of_entry :: "audit_entry \<Rightarrow> raw_audit" where
  "raw_audit_of_entry e =
     \<lparr>raID = repair_utf8 (EntryID e), raAction = repair_utf8 (Action e), raOccurredAt = OccurredAt e,
      raUser = repair_utf8 (User e), raTarget = repair_utf8 (Target e), raClientIP = repair_utf8 (ClientIP e),
      raSessionID = repair_utf8 (SessionID e), raReason = repair_utf8 (Reason e), raMetadata = repair_utf8 (Metadata e)\<rparr>"

lemma raw_session_time:
  "find_field raw_session_fields ''occurred_at'' =
     Some (snd (scalar_field read_time ''occurred_at'' rwOccurredAt (\<lambda>x r. r\<lparr>rwOccurredAt := x\<rparr>)))"
  by (simp add: find_field_def raw_session_fields_def scalar_field_def)

lemma raw_audit_time:
  "find_field raw_audit_fields ''occurred_at'' =
     Some (snd (scalar_field read_time ''occurred_at'' raOccurredAt (\<lambda>x r. r\<lparr>raOccurredAt := x\<rparr>)))"
  by (simp add: find_field_def raw_audit_fields_def scalar_field_def)

lemma fill_time:
  assumes "find_field fs k = Some (snd (scalar_field read_time k get put))" "repair_utf8 k = k" "json_time t"
  shows "fill_pairs fs [(k, JStr (fmt_rfc3339 t))] r = Some (put t r)"
  using assms by (simp add: scalar_field_def read_time_scanned del: scanned.simps)

lemmas fill_session = fill_skip[OF raw_session_others(1)] fill_skip[OF raw_session_others(2)] fill_string[OF raw_session_rules(1)]
  raw_session_rules[THEN fill_omitempty] fill_time[OF raw_session_time]

lemmas fill_audit = raw_audit_others[THEN fill_skip(2)] fill_string[OF raw_audit_rules(1)] fill_string[OF raw_audit_rules(2)]
  raw_audit_rules[THEN fill_omitempty] fill_time[OF raw_audit_time]

lemma Unmarshal_raw_session:
  assumes "entry_marshal e = Some msg"
  shows "Unmarshal raw_session_fields zero_raw_session msg = Some (raw_of_entry e)"
proof -
  have m: "msg = json_enc (JObj (entry_pairs e))" "json_time (OccurredAt e)"
    using assms by (auto simp: entry_marshal_def split: if_split_asm)
  show ?thesis unfolding m(1) Unmarshal_enc[OF nested_entry]
    by (simp add: entry_pairs_def fill_session m(2) zero_raw_session_def raw_of_entry_def del: fill_pairs.simps(2))
qed

lemma Unmarshal_raw_audit:
  assumes "entry_marshal e = Some msg"
  shows "Unmarshal raw_audit_fields zero_raw_audit msg = Some (raw_audit_of_entry e)"
proof -
  have m: "msg = json_enc (JObj (entry_pairs e))" "json_time (OccurredAt e)"
    using assms by (auto simp: entry_marshal_def split: if_split_asm)
  show ?thesis unfolding m(1) Unmarshal_enc[OF nested_entry]
    by (simp add: entry_pairs_def fill_audit m(2) zero_raw_audit_def raw_audit_of_entry_def del: fill_pairs.simps(2))
qed

subsection \<open>The metadata of a completed recording\<close>

lemma is_ascii_simps [simp]: "is_ascii []" "is_ascii (c # s) \<longleftrightarrow> byte_val c < 128 \<and> is_ascii s" "is_ascii (s @ t) \<longleftrightarrow> is_ascii s \<and> is_ascii t"
  by (auto simp: is_ascii_def)

lemma plain_ascii: "plain_text s \<Longrightarrow> is_ascii s"
  by (auto simp: plain_text_def is_ascii_def list_all_iff)

lemma is_ascii_micros: "is_ascii (fmt_micros k)"
proof -
  have "is_ascii (digits n)" for n by (rule plain_ascii) (rule plain_digits[OF all_digits])
  moreover have "0 \<le> n \<Longrightarrow> is_ascii (frac_digits w n)" for w n by (rule plain_ascii) (rule plain_digits[OF all_frac_digits])
  ultimately show ?thesis by (simp add: fmt_micros_def Let_def)
qed

lemma completed_metadata_json:
  assumes "json_time st"
  shows "completed_metadata k st = json_enc (JObj [(''duration_seconds'', JMicros k), (''started_at'', JStr (fmt_rfc3339 st))])"
proof -
  let ?kvs = "[(''duration_seconds'', JMicros k), (''started_at'', JStr (fmt_rfc3339 st))]"
  have "sorted [''duration_seconds'', ''started_at'']" by code_simp
  then have "sort_key fst ?kvs = ?kvs" by (intro sort_key_id_if_sorted) simp
  then show ?thesis using assms by (simp add: completed_metadata_def json_map_def)
qed

lemma completed_metadata_ascii: "is_ascii (completed_metadata k st)"
proof (cases "json_time st")
  case True
  show ?thesis unfolding completed_metadata_json[OF True]
    by (simp add: json_quote_def escape_plain plain_fmt_rfc3339 plain_ascii html_safe_def is_ascii_micros)
qed (simp add: completed_metadata_def)

lemma completed_metadata_duration:
  assumes "json_time st" "0 \<le> k" "k \<le> 2 ^ 63"
  shows "Unmarshal metadata_fields 0 (completed_metadata k st) = Some (fl64 (of_int k / 1000000))"
proof -
  have n: "nested max_depth (JObj [(''duration_seconds'', JMicros k), (''started_at'', JStr (fmt_rfc3339 st))])"
    by (simp add: max_depth_def)
  have f: "find_field metadata_fields ''started_at'' = None"
    by (rule find_field_None) (simp add: metadata_fields_def scalar_field_def EqualFold.simps HasPrefix_def lower_byte_def)
  have d: "find_field metadata_fields ''duration_seconds'' = Some (snd (scalar_field read_float64 ''duration_seconds'' (\<lambda>r. r) (\<lambda>x r. x)))"
    by (simp add: find_field_def metadata_fields_def scalar_field_def)
  show ?thesis unfolding completed_metadata_json[OF assms(1)] Unmarshal_enc[OF n]
    by (simp add: f d scalar_field_def read_float64_micros[OF assms(2,3)] option.map_ident del: scanned.simps read_float64.simps)
qed

lemma repair_ascii_inverse:
  assumes "repair_utf8 s = t" "is_ascii t"
  shows "s = t"
proof (cases "valid_utf8 s")
  case True
  then show ?thesis using assms(1) repair_utf8_valid[of s] by simp
next
  case False
  then obtain r bs where "(r, bs) \<in> set (runes s)" "r = rune_error" "length bs = 1" by (auto simp: valid_utf8_def)
  then have "utf8_encode3 rune_error \<in> repair_rune ` set (runes s)"
    by (intro image_eqI[of _ _ "(r, bs)"]) (simp_all add: repair_rune_def)
  then have "set (utf8_encode3 rune_error) \<subseteq> set (repair_utf8 s)" unfolding repair_utf8_def set_concat set_map by blast
  then have "char_of (239 :: nat) \<in> set t" using assms(1) by (auto simp: utf8_encode3_def rune_error_def)
  then have "byte_val (char_of (239 :: nat)) < 128" using assms(2) unfolding is_ascii_def by blast
  then show ?thesis by simp
qed

text \<open>The duration a metadata blob announces, and the row of an entry in terms of it.\<close>

definition announced_duration :: "(rat \<Rightarrow> int) \<Rightarrow> string \<Rightarrow> duration" where
  "announced_duration oob md =
     (if md = [] then 0
      else case Unmarshal metadata_fields 0 md of
        None \<Rightarrow> 0 | Some secs \<Rightarrow> if secs > 0 then to_int64 oob (fl64 (secs * of_int second)) else 0)"

lemma repair_ascii_iff: "is_ascii t \<Longrightarrow> repair_utf8 s = t \<longleftrightarrow> s = t"
  using repair_ascii_inverse repair_ascii by blast

lemma decodeSession_entry:
  assumes "entry_marshal e = Some msg"
  shows "decodeSession oob msg =
    (if Action e \<noteq> ActionRecordingComplete then None
     else Some \<lparr>psSessionID = repair_utf8 (SessionID e), psUser = repair_utf8 (User e), psTarget = repair_utf8 (Target e),
                psRemoteUser = repair_utf8 (RemoteUser e), psPrincipals = repair_utf8 (Principals e),
                psClientIP = repair_utf8 (ClientIP e), psRecordingPath = repair_utf8 (RecordingPath e),
                psCompletedAt = OccurredAt e, psDuration = announced_duration oob (repair_utf8 (Metadata e))\<rparr>)"
proof -
  have a: "repair_utf8 (Action e) = ActionRecordingComplete \<longleftrightarrow> Action e = ActionRecordingComplete"
    by (rule repair_ascii_iff) (simp add: ActionRecordingComplete_def)
  show ?thesis unfolding decodeSession_def Unmarshal_raw_session[OF assms] announced_duration_def
    by (cases "Unmarshal metadata_fields 0 (repair_utf8 (Metadata e))") (simp_all add: raw_of_entry_def Let_def a)
qed

lemma completed_duration:
  assumes "json_time st" "0 \<le> k" "1000 * k \<le> 2 ^ 52"
  shows "\<bar>announced_duration oob (completed_metadata k st) - 1000 * k\<bar> \<le> 2"
proof -
  have "k \<le> 2 ^ 63" using assms(3) by simp
  note u = completed_metadata_duration[OF assms(1,2) this]
  have ne: "completed_metadata k st \<noteq> []" unfolding completed_metadata_json[OF assms(1)] by simp
  have "\<not> fl64 (of_int k / 1000000) > 0 \<Longrightarrow> k = 0"
    using fl64_error[of "of_int k / 1000000 :: rat"] assms(2) by (simp add: abs_le_iff field_simps)
  then show ?thesis using duration_recovered[OF assms(2,3), of oob] by (auto simp: announced_duration_def u ne)
qed

section \<open>Well-typed rows\<close>

definition typed_raw_session :: "raw_session \<Rightarrow> bool" where
  "typed_raw_session r \<longleftrightarrow>
     list_all valid_utf8 [rwAction r, rwSessionID r, rwUser r, rwTarget r, rwRemoteUser r, rwPrincipals r, rwClientIP r, rwRecordingPath r, rwMetadata r] \<and>
     wire_time (rwOccurredAt r)"

definition typed_raw_audit :: "raw_audit \<Rightarrow> bool" where
  "typed_raw_audit r \<longleftrightarrow>
     list_all valid_utf8 [raID r, raAction r, raUser r, raTarget r, raClientIP r, raSessionID r, raReason r, raMetadata r] \<and>
     wire_time (raOccurredAt r)"

interpretation session_struct: typed_struct raw_session_fields zero_raw_session typed_raw_session
proof
  show "typed_raw_session zero_raw_session" by (simp add: typed_raw_session_def zero_raw_session_def zero_time_range)
next
  have "list_all (\<lambda>(_, f). \<forall>r v r'. typed_raw_session r \<longrightarrow> f v r = Some r' \<longrightarrow> typed_raw_session r') raw_session_fields"
    by (auto simp: raw_session_fields_def scalar_field_def typed_raw_session_def dest: read_str_valid read_time_range)
  then show "(n, f) \<in> set raw_session_fields \<Longrightarrow> typed_raw_session r \<Longrightarrow> f v r = Some r' \<Longrightarrow> typed_raw_session r'" for n f r v r'
    unfolding list_all_iff by blast
qed

interpretation audit_struct: typed_struct raw_audit_fields zero_raw_audit typed_raw_audit
proof
  show "typed_raw_audit zero_raw_audit" by (simp add: typed_raw_audit_def zero_raw_audit_def zero_time_range)
next
  have "list_all (\<lambda>(_, f). \<forall>r v r'. typed_raw_audit r \<longrightarrow> f v r = Some r' \<longrightarrow> typed_raw_audit r') raw_audit_fields"
    by (auto simp: raw_audit_fields_def scalar_field_def typed_raw_audit_def dest: read_str_valid read_time_range)
  then show "(n, f) \<in> set raw_audit_fields \<Longrightarrow> typed_raw_audit r \<Longrightarrow> f v r = Some r' \<Longrightarrow> typed_raw_audit r'" for n f r v r'
    unfolding list_all_iff by blast
qed

lemma decodeSession_raw:
  assumes "decodeSession oob msg = Some s"
  obtains raw where "Unmarshal raw_session_fields zero_raw_session msg = Some raw"
    "s = \<lparr>psSessionID = rwSessionID raw, psUser = rwUser raw, psTarget = rwTarget raw,
          psRemoteUser = rwRemoteUser raw, psPrincipals = rwPrincipals raw, psClientIP = rwClientIP raw,
          psRecordingPath = rwRecordingPath raw, psCompletedAt = rwOccurredAt raw, psDuration = announced_duration oob (rwMetadata raw)\<rparr>"
  using assms by (auto simp: decodeSession_def announced_duration_def Let_def split: option.splits if_split_asm intro: that)

lemma announced_duration_range: "(\<And>x. in_int64 (oob x)) \<Longrightarrow> in_int64 (announced_duration oob md)"
proof -
  have "in_int64 0" by (simp add: int64_defs)
  then show "(\<And>x. in_int64 (oob x)) \<Longrightarrow> in_int64 (announced_duration oob md)"
    by (auto simp: announced_duration_def to_int64_def split: option.splits)
qed

section \<open>Properties\<close>


text \<open>An entry whose user is not valid UTF-8.\<close>

definition demo_broken :: audit_entry where
  "demo_broken = (completed_entry demo_cr ''id'' 1500000 7000000000)\<lparr>User := [CHR 0xFF]\<rparr>"



text \<open>
  C36. A published entry reaches the portal as it was. From the JSON of an audit entry, the audit page gets a
  row with the entry's id, action, time, user, target, address, session, reason and metadata, unless the action is empty
  or the time is the zero time; the session list gets a row exactly for completed recordings. For the
  entry a channel recorder publishes when it closes, that row has the recorder's session, user, target,
  principals, client address and cast location and, where the start time has a JSON form, a duration within two
  nanoseconds of the announced microseconds (up to 52 days). All texts have invalid UTF-8 replaced.\<close>
theorem published_entry_rows:
  assumes "entry_marshal e = Some msg"
  shows "decodeAuditEvent msg =
      (if Action e = [] \<or> OccurredAt e = zero_time then None
       else Some \<lparr>aeID = repair_utf8 (EntryID e), aeAction = repair_utf8 (Action e), aeOccurredAt = OccurredAt e,
                  aeActor = repair_utf8 (User e), aeSubject = repair_utf8 (Target e), aeIP = repair_utf8 (ClientIP e),
                  aeSessionID = repair_utf8 (SessionID e), aeReason = repair_utf8 (Reason e), aeDetail = repair_utf8 (Metadata e)\<rparr>) \<and>
    (decodeSession oob msg \<noteq> None \<longleftrightarrow> Action e = ActionRecordingComplete) \<and>
    (\<forall>r uid k t. e = completed_entry r uid k t \<and> 0 \<le> k \<and> 1000 * k \<le> 2 ^ 52 \<longrightarrow>
      (\<exists>s. decodeSession oob msg = Some s \<and>
         psSessionID s = repair_utf8 (crSessionID r) \<and> psUser s = repair_utf8 (crUser r) \<and>
         psTarget s = repair_utf8 (attrTarget (crAttr r)) \<and> psRemoteUser s = repair_utf8 (attrRemoteUser (crAttr r)) \<and>
         psPrincipals s = repair_utf8 (attrPrincipals (crAttr r)) \<and> psClientIP s = repair_utf8 (attrClientIP (crAttr r)) \<and>
         psRecordingPath s = repair_utf8 (crLocation r) \<and> psCompletedAt s = t \<and>
         (json_time (crStartedAt r) \<longrightarrow> \<bar>psDuration s - 1000 * k\<bar> \<le> 2)))"
proof (intro conjI allI impI)
  show "decodeAuditEvent msg = (if Action e = [] \<or> OccurredAt e = zero_time then None
       else Some \<lparr>aeID = repair_utf8 (EntryID e), aeAction = repair_utf8 (Action e), aeOccurredAt = OccurredAt e,
                  aeActor = repair_utf8 (User e), aeSubject = repair_utf8 (Target e), aeIP = repair_utf8 (ClientIP e),
                  aeSessionID = repair_utf8 (SessionID e), aeReason = repair_utf8 (Reason e), aeDetail = repair_utf8 (Metadata e)\<rparr>)"
    by (simp add: decodeAuditEvent_def Unmarshal_raw_audit[OF assms] raw_audit_of_entry_def repair_ascii_iff)
  show "decodeSession oob msg \<noteq> None \<longleftrightarrow> Action e = ActionRecordingComplete" by (simp add: decodeSession_entry[OF assms])
  fix r uid k t
  assume h: "e = completed_entry r uid k t \<and> 0 \<le> k \<and> 1000 * k \<le> 2 ^ 52"
  then have "repair_utf8 (Metadata e) = completed_metadata k (crStartedAt r)"
    by (simp add: completed_entry_def repair_ascii completed_metadata_ascii)
  with h completed_duration[of "crStartedAt r" k oob]
  show "\<exists>s. decodeSession oob msg = Some s \<and>
         psSessionID s = repair_utf8 (crSessionID r) \<and> psUser s = repair_utf8 (crUser r) \<and>
         psTarget s = repair_utf8 (attrTarget (crAttr r)) \<and> psRemoteUser s = repair_utf8 (attrRemoteUser (crAttr r)) \<and>
         psPrincipals s = repair_utf8 (attrPrincipals (crAttr r)) \<and> psClientIP s = repair_utf8 (attrClientIP (crAttr r)) \<and>
         psRecordingPath s = repair_utf8 (crLocation r) \<and> psCompletedAt s = t \<and>
         (json_time (crStartedAt r) \<longrightarrow> \<bar>psDuration s - 1000 * k\<bar> \<le> 2)"
    by (simp add: decodeSession_entry[OF assms]) (simp add: completed_entry_def)
qed

definition demo_completed :: audit_entry where
  "demo_completed = completed_entry demo_cr ''id'' 1500000 7000000000"

theorem published_entry_rows_witness:
  "\<exists>msg s. entry_marshal demo_completed = Some msg \<and> decodeSession (\<lambda>_. 0) msg = Some s \<and>
     psSessionID s = repair_utf8 (crSessionID demo_cr) \<and> \<bar>psDuration s - 1500000000\<bar> \<le> 2"
proof -
  have t: "json_time 7000000000" unfolding json_time_def days_of_def civil_def Let_def by (simp add: duration_units)
  have "crStartedAt demo_cr = zero_time" by (simp add: demo_cr_def newChannelRecorder_def)
  then have st: "json_time (crStartedAt demo_cr)"
    unfolding json_time_def days_of_def civil_def Let_def by (simp add: zero_time_def duration_units)
  obtain msg where m: "entry_marshal demo_completed = Some msg"
    using t by (simp add: entry_marshal_def demo_completed_def completed_entry_def)
  have "demo_completed = completed_entry demo_cr ''id'' 1500000 7000000000 \<and> 0 \<le> (1500000 :: int) \<and> 1000 * (1500000 :: int) \<le> 2 ^ 52"
    by (simp add: demo_completed_def)
  with conjunct2[OF conjunct2[OF published_entry_rows[OF m, of "\<lambda>_. 0"]]]
  obtain s where "decodeSession (\<lambda>_. 0) msg = Some s" "psSessionID s = repair_utf8 (crSessionID demo_cr)"
    "json_time (crStartedAt demo_cr) \<longrightarrow> \<bar>psDuration s - 1000 * 1500000\<bar> \<le> 2" by (elim allE impE) (assumption, elim exE conjE, rule that)
  with m st show ?thesis by auto
qed

end
