(* ===== verification/Portal_Pages.thy ===== *)
theory Portal_Pages
  imports Go_Html Portal_Rows
begin

text \<open>
  The pages of the web portal: the templates of \<^verbatim>\<open>internal/proxyd/portal/portal.go\<close> and their functions. A
  page is a sequence of fragments, the template's own text and data; each piece of data carries the
  escaper \<^verbatim>\<open>html/template\<close> picks for the place it stands in. The lemmas show that the markup of a page is
  the templates' alone, whatever the journal announced.
\<close>

section \<open>Template functions\<close>

text \<open>\<^verbatim>\<open>fmtTime\<close>: layout \<^verbatim>\<open>time.RFC3339\<close>, in UTC and without a fraction.\<close>

definition fmtTime :: "time \<Rightarrow> string" where
  "fmtTime t = fmt_rfc3339 (unix_seconds t * second)"

text \<open>\<^verbatim>\<open>Duration.String\<close>.\<close>

definition fmtFrac :: "nat \<Rightarrow> int \<Rightarrow> string" where
  "fmtFrac prec u = (if u mod 10 ^ prec = 0 then [] else ''.'' @ frac_digits prec (u mod 10 ^ prec))"

definition Duration_String :: "duration \<Rightarrow> string" where
  "Duration_String d =
     (let u = \<bar>d\<bar> in
      if u = 0 then ''0s''
      else (if d < 0 then ''-'' else []) @
        (if u < microsecond then fmt_int u @ ''ns''
         else if u < 1000 * microsecond then fmt_int (u div 10 ^ 3) @ fmtFrac 3 u @ [CHR 0xC2, CHR 0xB5] @ ''s''
         else if u < second then fmt_int (u div 10 ^ 6) @ fmtFrac 6 u @ ''ms''
         else
           (let s = u div 10 ^ 9; m = s div 60; h = m div 60 in
            (if h > 0 then fmt_int h @ ''h'' else []) @
            (if m > 0 then fmt_int (m mod 60) @ ''m'' else []) @
            fmt_int (s mod 60) @ fmtFrac 9 u @ ''s'')))"

definition fmtDuration :: "duration \<Rightarrow> string" where
  "fmtDuration d = (if d = 0 then ''-'' else Duration_String d)"

section \<open>Fragments\<close>

datatype fragment =
    Markup string
  | Text string
  | Attr string
  | Url string
  | UrlStart string
  | JsStr string

fun frag_text :: "fragment \<Rightarrow> string" where
  "frag_text (Markup s) = s"
| "frag_text (Text s) = html_escape s"
| "frag_text (Attr s) = html_escape s"
| "frag_text (Url s) = html_escape (url_normalize s)"
| "frag_text (UrlStart s) = html_escape (url_normalize (url_filter s))"
| "frag_text (JsStr s) = js_escape s"

section \<open>The base template\<close>

definition base_head :: string where
  \<open>base_head =
     ''<!DOCTYPE html>\<newline>'' @
     ''<html lang="en">\<newline>'' @
     ''<head>\<newline>'' @
     ''<meta charset="utf-8">\<newline>'' @
     ''<title>''\<close>

definition base_style :: string where
  \<open>base_style =
     '' '' @ [CHR 0xC2, CHR 0xB7] @ '' ssh-proxyd</title>\<newline>'' @
     ''<style>\<newline>'' @
     ''body { font-family: system-ui, sans-serif; max-width: 60em; margin: 2em auto; padding: 0 1em; color: #1a1a1a; }\<newline>'' @
     ''header, footer { padding: 0.5em 0; border-bottom: 1px solid #ddd; }\<newline>'' @
     ''footer { border-bottom: none; border-top: 1px solid #ddd; margin-top: 2em; padding-top: 0.5em; font-size: 0.85em; color: #666; }\<newline>'' @
     ''h1 { margin-top: 0.5em; }\<newline>'' @
     ''table { border-collapse: collapse; width: 100%; margin-top: 1em; }\<newline>'' @
     ''th, td { text-align: left; padding: 0.4em 0.6em; border-bottom: 1px solid #eee; }\<newline>'' @
     ''.status-planned { color: #888; }\<newline>'' @
     ''.status-ready { color: #1a7f37; font-weight: 600; }\<newline>'' @
     ''</style>\<newline>'' @
     ''</head>\<newline>'' @
     ''<body>\<newline>'' @
     ''<header><strong>ssh-proxyd portal</strong></header>\<newline>'' @
     ''<main>''\<close>

definition base_footer :: string where
  \<open>base_footer =
     ''</main>\<newline>'' @
     ''<footer>ssh-proxyd ''\<close>

definition base_rendered :: string where
  \<open>base_rendered =
     '' '' @ [CHR 0xC2, CHR 0xB7] @ '' rendered ''\<close>

definition base_end :: string where
  \<open>base_end =
     ''</footer>\<newline>'' @
     ''</body>\<newline>'' @
     ''</html>''\<close>

definition base_page :: "string \<Rightarrow> time \<Rightarrow> fragment list \<Rightarrow> fragment list \<Rightarrow> fragment list" where
  "base_page version renderedAt title body =
     [Markup base_head] @ title @ [Markup base_style] @ body @
     [Markup base_footer, Text version, Markup base_rendered, Text (fmtTime renderedAt), Markup base_end]"

text \<open>Pieces the page templates share: table rows and a field that may be empty.\<close>

definition row_start :: string where \<open>row_start = ''\<newline><tr>\<newline>  <td>''\<close>
definition cell_next :: string where \<open>cell_next = ''</td>\<newline>  <td>''\<close>
definition row_end :: string where \<open>row_end = ''</td>\<newline></tr>\<newline>''\<close>

definition field_cell :: "string \<Rightarrow> fragment list" where
  "field_cell s = (if s \<noteq> [] then [Markup ''<code>'', Text s, Markup ''</code>''] else [Markup ''<em>-</em>''])"

section \<open>The landing page\<close>

record page_entry =
  peName :: string
  pePath :: string
  peDescription :: string
  peStatus :: string

definition index_intro :: string where
  \<open>index_intro =
     ''\<newline>'' @
     ''<h1>Welcome</h1>\<newline>'' @
     ''<p>The ssh-proxyd portal surfaces the SSH sessions this proxy has\<newline>'' @
     ''recorded, with in-browser asciinema replay.</p>\<newline>'' @
     ''<table>\<newline>'' @
     ''<thead><tr><th>Page</th><th>Description</th><th>Status</th></tr></thead>\<newline>'' @
     ''<tbody>\<newline>''\<close>

definition index_status :: string where
  \<open>index_status =
     ''</td>\<newline>'' @
     ''  <td class="status-''\<close>

definition table_end :: string where
  \<open>table_end =
     ''\<newline>'' @
     ''</tbody>\<newline>'' @
     ''</table>\<newline>''\<close>

definition index_row :: "page_entry \<Rightarrow> fragment list" where
  \<open>index_row p =
     [Markup row_start] @
     (if peStatus p = ''ready''
      then [Markup ''<a href="'', UrlStart (pePath p), Markup ''">'', Text (peName p), Markup ''</a>'']
      else [Text (peName p)]) @
     [Markup cell_next, Text (peDescription p), Markup index_status, Attr (peStatus p), Markup ''">'', Text (peStatus p),
      Markup row_end]\<close>

definition index_body :: "page_entry list \<Rightarrow> fragment list" where
  "index_body ps = [Markup index_intro] @ concat (map index_row ps) @ [Markup table_end]"

section \<open>The session list\<close>

definition sessions_intro :: string where
  \<open>sessions_intro =
     ''\<newline>'' @
     ''<p><a href="/">&larr; home</a></p>\<newline>'' @
     ''<h1>Sessions</h1>\<newline>'' @
     ''<p>Recent SSH sessions ssh-proxyd has finished recording. Hydrated\<newline>'' @
     ''from the <code>recording.completed</code> audit events on the\<newline>'' @
     ''<code>ssh_audit</code> JetStream stream '' @ [CHR 0xE2, CHR 0x80, CHR 0x94] @ '' order is newest-first.\<newline>'' @
     ''Click a session ID for metadata and asciinema replay.</p>\<newline>''\<close>

definition sessions_head :: string where
  \<open>sessions_head =
     ''\<newline>'' @
     ''<table>\<newline>'' @
     ''<thead>\<newline>'' @
     ''<tr>\<newline>'' @
     ''  <th>Completed at</th>\<newline>'' @
     ''  <th>User</th>\<newline>'' @
     ''  <th>Target</th>\<newline>'' @
     ''  <th>Remote user</th>\<newline>'' @
     ''  <th>Duration</th>\<newline>'' @
     ''  <th>Recording</th>\<newline>'' @
     ''  <th>Session ID</th>\<newline>'' @
     ''</tr>\<newline>'' @
     ''</thead>\<newline>'' @
     ''<tbody>\<newline>''\<close>

definition sessions_link :: string where
  \<open>sessions_link =
     ''</td>\<newline>'' @
     ''  <td><a href="/sessions/''\<close>

definition sessions_link_end :: string where
  \<open>sessions_link_end =
     ''</code></a></td>\<newline>'' @
     ''</tr>\<newline>''\<close>

definition sessions_none :: string where
  \<open>sessions_none =
     ''\<newline>'' @
     ''<p><em>No recorded sessions yet. Hold tight '' @ [CHR 0xE2, CHR 0x80, CHR 0x94] @ '' recording.completed events arrive when ssh-proxyd finishes a PTY session.</em></p>\<newline>''\<close>

definition session_row :: "portal_session \<Rightarrow> fragment list" where
  \<open>session_row s =
     [Markup row_start, Text (fmtTime (psCompletedAt s)), Markup cell_next] @ field_cell (psUser s) @
     [Markup cell_next] @ field_cell (psTarget s) @ [Markup cell_next] @ field_cell (psRemoteUser s) @
     [Markup cell_next, Text (fmtDuration (psDuration s)), Markup cell_next] @ field_cell (psRecordingPath s) @
     [Markup sessions_link, Url (psSessionID s), Markup ''"><code>'', Text (psSessionID s), Markup sessions_link_end]\<close>

definition sessions_body :: "portal_session list \<Rightarrow> fragment list" where
  \<open>sessions_body ss =
     [Markup sessions_intro] @
     (if ss \<noteq> [] then [Markup sessions_head] @ concat (map session_row ss) @ [Markup table_end] else [Markup sessions_none]) @
     [Markup ''\<newline>'']\<close>

section \<open>A session\<close>

definition detail_back :: string where
  \<open>detail_back =
     ''\<newline>'' @
     ''<p><a href="/sessions">&larr; sessions</a></p>\<newline>''\<close>

definition detail_missing :: string where
  \<open>detail_missing =
     ''\<newline>'' @
     ''<h1>Not found</h1>\<newline>'' @
     ''<p>No session with ID <code>''\<close>

definition detail_missing_end :: string where
  \<open>detail_missing_end =
     ''</code> is in the recent buffer.\<newline>'' @
     ''Older sessions may have aged out of the in-memory ring; query\<newline>'' @
     ''JetStream directly to find them.</p>\<newline>''\<close>

definition detail_head :: string where
  \<open>detail_head =
     ''</code></h1>\<newline>'' @
     ''<table>\<newline>'' @
     ''<tbody>\<newline>'' @
     ''<tr><th>Completed at</th><td>''\<close>

definition replay_player :: string where
  \<open>replay_player =
     ''\<newline>'' @
     ''<h2>Replay</h2>\<newline>'' @
     ''<link rel="stylesheet" href="https://cdn.jsdelivr.net/npm/asciinema-player@3.10.0/dist/bundle/asciinema-player.css">\<newline>'' @
     ''<div id="asciinema-player"></div>\<newline>'' @
     ''<script src="https://cdn.jsdelivr.net/npm/asciinema-player@3.10.0/dist/bundle/asciinema-player.min.js"></script>\<newline>'' @
     ''<script>\<newline>'' @
     ''AsciinemaPlayer.create('' @ [CHR 0x27] @ ''/sessions/''\<close>

definition replay_options :: string where
  \<open>replay_options =
     ''/cast'' @ [CHR 0x27] @ '',\<newline>'' @
     ''  document.getElementById('' @ [CHR 0x27] @ ''asciinema-player'' @ [CHR 0x27] @ ''),\<newline>'' @
     ''  {fit: '' @ [CHR 0x27] @ ''width'' @ [CHR 0x27] @ '', terminalLineHeight: 1.2});\<newline>'' @
     ''</script>\<newline>'' @
     ''<p><a href="/sessions/''\<close>

definition replay_none :: string where
  \<open>replay_none =
     ''\<newline>'' @
     ''<p><em>No replay available '' @ [CHR 0xE2, CHR 0x80, CHR 0x94] @ '' </em>''\<close>

definition detail_title :: string where \<open>detail_title = ''session '' @ [CHR 0xC2, CHR 0xB7] @ '' ''\<close>
definition detail_open :: string where \<open>detail_open = ''\<newline><h1>Session <code>''\<close>
definition detail_th :: "string \<Rightarrow> string" where \<open>detail_th label = ''</td></tr>\<newline><tr><th>'' @ label @ ''</th><td>''\<close>
definition detail_table_end :: string where \<open>detail_table_end = ''</td></tr>\<newline></tbody>\<newline></table>\<newline>''\<close>

definition detail_table :: "portal_session \<Rightarrow> fragment list" where
  \<open>detail_table s =
     [Markup detail_open, Text (psSessionID s), Markup detail_head, Text (fmtTime (psCompletedAt s)),
      Markup (detail_th ''Duration''), Text (fmtDuration (psDuration s)), Markup (detail_th ''User'')] @ field_cell (psUser s) @
     [Markup (detail_th ''Target'')] @ field_cell (psTarget s) @ [Markup (detail_th ''Remote user'')] @ field_cell (psRemoteUser s) @
     [Markup (detail_th ''Principals'')] @ field_cell (psPrincipals s) @ [Markup (detail_th ''Client IP'')] @ field_cell (psClientIP s) @
     [Markup (detail_th ''Recording path'')] @ field_cell (psRecordingPath s) @ [Markup detail_table_end]\<close>

definition replay_part :: "portal_session \<Rightarrow> bool \<Rightarrow> fragment list" where
  \<open>replay_part s castAvailable =
     (if castAvailable
      then [Markup replay_player, JsStr (psSessionID s), Markup replay_options, Url (psSessionID s),
            Markup ''/cast">Download raw cast</a></p>\<newline>'']
      else [Markup replay_none,
            Markup (if psRecordingPath s = [] then ''the session was not PTY-recorded.''
                    else ''the cast store is not configured on this ssh-proxyd.''),
            Markup ''</p>\<newline>''])\<close>

definition detail_body :: "string \<Rightarrow> portal_session option \<Rightarrow> bool \<Rightarrow> fragment list" where
  \<open>detail_body sid found castAvailable =
     [Markup detail_back] @
     (case found of
        None \<Rightarrow> [Markup detail_missing, Text sid, Markup detail_missing_end]
      | Some s \<Rightarrow> detail_table s @ replay_part s castAvailable @ [Markup ''\<newline>'']) @
     [Markup ''\<newline>'']\<close>

section \<open>The audit list\<close>

definition audit_intro :: string where
  \<open>audit_intro =
     ''\<newline>'' @
     ''<p><a href="/">&larr; home</a></p>\<newline>'' @
     ''<h1>Audit</h1>\<newline>'' @
     ''<p>Live tail of ssh-proxyd'' @ [CHR 0x27] @ ''s <code>ssh_audit</code> stream '' @ [CHR 0xE2, CHR 0x80, CHR 0x94] @ '' session\<newline>'' @
     ''lifecycle, channel, recording, and port-forward events. Newest first.\<newline>'' @
     ''The buffer caps at the tracker'' @ [CHR 0x27] @ ''s MaxEvents (default 500); to dig\<newline>'' @
     ''deeper, query JetStream directly.</p>\<newline>''\<close>

definition audit_head :: string where
  \<open>audit_head =
     ''\<newline>'' @
     ''<table>\<newline>'' @
     ''<thead>\<newline>'' @
     ''<tr>\<newline>'' @
     ''  <th>Time</th>\<newline>'' @
     ''  <th>Action</th>\<newline>'' @
     ''  <th>Actor</th>\<newline>'' @
     ''  <th>Subject</th>\<newline>'' @
     ''  <th>IP</th>\<newline>'' @
     ''  <th>Detail</th>\<newline>'' @
     ''</tr>\<newline>'' @
     ''</thead>\<newline>'' @
     ''<tbody>\<newline>''\<close>

definition audit_none :: string where
  \<open>audit_none =
     ''\<newline>'' @
     ''<p><em>No audit events yet. Events appear here once ssh-proxyd starts emitting to the stream.</em></p>\<newline>''\<close>

definition action_open :: string where \<open>action_open = ''</td>\<newline>  <td><code>''\<close>
definition action_close :: string where \<open>action_close = ''</code></td>\<newline>  <td>''\<close>

definition detail_cell :: "audit_event \<Rightarrow> fragment list" where
  \<open>detail_cell e =
     (if aeReason e \<noteq> [] then [Markup ''<em>'', Text (aeReason e), Markup ''</em>'']
      else if aeDetail e \<noteq> [] then [Markup ''<details><summary>view</summary><pre>'', Text (aeDetail e), Markup ''</pre></details>'']
      else [Markup ''<em>-</em>''])\<close>

definition audit_row :: "audit_event \<Rightarrow> fragment list" where
  \<open>audit_row e =
     [Markup row_start, Text (fmtTime (aeOccurredAt e)), Markup action_open, Text (aeAction e), Markup action_close] @
     field_cell (aeActor e) @ [Markup cell_next] @ field_cell (aeSubject e) @ [Markup cell_next] @ field_cell (aeIP e) @
     [Markup cell_next] @ detail_cell e @ [Markup row_end]\<close>

definition audit_body :: "audit_event list \<Rightarrow> fragment list" where
  \<open>audit_body es =
     [Markup audit_intro] @
     (if es \<noteq> [] then [Markup audit_head] @ concat (map audit_row es) @ [Markup table_end] else [Markup audit_none]) @
     [Markup ''\<newline>'']\<close>

section \<open>Pages\<close>

text \<open>The data of each page. The session of a detail page is absent exactly when \<^verbatim>\<open>Found\<close> is false.\<close>

datatype page_data =
    IndexData string time "page_entry list"
  | SessionsIndexData string time "portal_session list"
  | SessionDetailData string time string "portal_session option" bool
  | AuditIndexData string time "audit_event list"

fun page_fragments :: "page_data \<Rightarrow> fragment list" where
  "page_fragments (IndexData v tm ps) = base_page v tm [Markup ''home''] (index_body ps)"
| "page_fragments (SessionsIndexData v tm ss) = base_page v tm [Markup ''sessions''] (sessions_body ss)"
| "page_fragments (SessionDetailData v tm sid found available) =
     base_page v tm [Markup detail_title, Text sid] (detail_body sid found available)"
| "page_fragments (AuditIndexData v tm es) = base_page v tm [Markup ''audit''] (audit_body es)"

definition page_html :: "page_data \<Rightarrow> string" where
  "page_html d = concat (map frag_text (page_fragments d))"

fun page_name :: "page_data \<Rightarrow> string" where
  "page_name (IndexData _ _ _) = ''index''"
| "page_name (SessionsIndexData _ _ _) = ''sessions''"
| "page_name (SessionDetailData _ _ _ _ _) = ''session_detail''"
| "page_name (AuditIndexData _ _ _) = ''audit''"

text \<open>
  A page is what executing its template writes, and the error it stops with; a template executed with the
  data of another page fails before its first field. The template texts are constants that parse; what each
  set defines is checked when it is built. The sets are independent, so their order does not matter.
\<close>

type_synonym page_template = "page_data \<Rightarrow> string \<times> go_error option"

definition execute_page :: "string \<Rightarrow> page_template" where
  "execute_page name d = (if page_name d = name then (page_html d, None) else ([], Some (Msg ''no such field'')))"

definition base_defines :: "string list" where
  "base_defines = [''base'']"

definition template_pages :: "(string \<times> string list) list" where
  "template_pages = map (\<lambda>name. (name, [''page'', ''title'', ''body''])) [''index'', ''sessions'', ''session_detail'', ''audit'']"

fun parse_sets :: "(string \<times> string list) list \<Rightarrow> (string \<rightharpoonup> page_template) \<Rightarrow> (string \<rightharpoonup> page_template) result" where
  "parse_sets [] out = Inr out"
| "parse_sets ((name, defines) # pages) out =
     (if list_all (\<lambda>t. t \<in> set (base_defines @ defines)) [''page'', ''title'', ''body'']
      then parse_sets pages (out(name \<mapsto> execute_page name))
      else Inl (Msg (name @ '' missing required define{}: page/title/body'')))"

definition parsePages :: "(string \<rightharpoonup> page_template) result" where
  "parsePages = parse_sets template_pages Map.empty"

lemma parsePages_ok:
  obtains pages where "parsePages = Inr pages" "\<And>d. pages (page_name d) = Some (execute_page (page_name d))"
proof -
  define pages :: "string \<rightharpoonup> page_template" where
    "pages = [''index'' \<mapsto> execute_page ''index'', ''sessions'' \<mapsto> execute_page ''sessions'',
       ''session_detail'' \<mapsto> execute_page ''session_detail'', ''audit'' \<mapsto> execute_page ''audit'']"
  have "parsePages = Inr pages" by (simp add: parsePages_def template_pages_def pages_def)
  moreover have "pages (page_name d) = Some (execute_page (page_name d))" for d by (cases d) (simp_all add: pages_def)
  ultimately show thesis using that by blast
qed

section \<open>Data stays where a template puts it\<close>

text \<open>
  Reading a page, fragment by fragment: template text moves the reader, data must stand where its escaper
  expects it and must leave the reader where it was. The result is the place after the last fragment, and
  \<open>None\<close> once data stood elsewhere or moved the reader.
\<close>

fun stands_in :: "fragment \<Rightarrow> place \<Rightarrow> bool" where
  "stands_in (Markup _) _ = False"
| "stands_in (Text _) p = (p = InText)"
| "stands_in (JsStr _) p = (p = InJsString)"
| "stands_in _ p = (case p of InAttr _ \<Rightarrow> True | _ \<Rightarrow> False)"

fun read_fragments :: "place \<Rightarrow> fragment list \<Rightarrow> place option" where
  "read_fragments p [] = Some p"
| "read_fragments p (Markup m # fs) = read_fragments (place_after p m) fs"
| "read_fragments p (f # fs) =
     (if stands_in f p \<and> place_after p (frag_text f) = p then read_fragments p fs else None)"

lemma read_append [simp]: "read_fragments p (fs @ gs) = Option.bind (read_fragments p fs) (\<lambda>q. read_fragments q gs)"
  by (induction p fs rule: read_fragments.induct) auto

lemma read_concat: "(\<And>x. read_fragments InText (f x) = Some InText) \<Longrightarrow> read_fragments InText (concat (map f xs)) = Some InText"
  by (induction xs) auto

lemma read_place: "read_fragments p fs = Some q \<Longrightarrow> place_after p (concat (map frag_text fs)) = q"
  by (induction p fs rule: read_fragments.induct) (auto split: if_split_asm)

lemma read_data [simp]:
  "read_fragments InText (Text s # fs) = read_fragments InText fs"
  "read_fragments (InAttr n) (Attr s # fs) = read_fragments (InAttr n) fs"
  "read_fragments (InAttr n) (Url s # fs) = read_fragments (InAttr n) fs"
  "read_fragments (InAttr n) (UrlStart s # fs) = read_fragments (InAttr n) fs"
  "read_fragments InJsString (JsStr s # fs) = read_fragments InJsString fs"
  by (simp_all add: quiet_stays)

declare read_fragments.simps(3-) [simp del]

text \<open>Where the templates' own text leads.\<close>

lemma base_places:
  "place_after InText base_head = InText" "place_after InText base_style = InText" "place_after InText base_footer = InText"
  "place_after InText base_rendered = InText" "place_after InText base_end = InText"
  by code_simp+

lemma row_places:
  "place_after InText row_start = InText" "place_after InText cell_next = InText" "place_after InText row_end = InText"
  "place_after InText table_end = InText"
  by code_simp+

lemma index_places:
  "place_after InText index_intro = InText" "place_after InText index_status = InAttr ''td''"
  by code_simp+

lemma sessions_places:
  "place_after InText sessions_intro = InText" "place_after InText sessions_head = InText"
  "place_after InText sessions_link = InAttr ''a''" "place_after InText sessions_link_end = InText"
  "place_after InText sessions_none = InText"
  by code_simp+

lemma detail_places:
  "place_after InText detail_back = InText" "place_after InText detail_missing = InText"
  "place_after InText detail_missing_end = InText" "place_after InText detail_head = InText"
  "place_after InText detail_title = InText" "place_after InText detail_open = InText"
  "place_after InText detail_table_end = InText" "place_after InText replay_none = InText"
  "place_after InText replay_player = InJsString" "place_after InJsString replay_options = InAttr ''a''"
  by code_simp+

lemma audit_places:
  "place_after InText audit_intro = InText" "place_after InText audit_head = InText" "place_after InText audit_none = InText"
  "place_after InText action_open = InText" "place_after InText action_close = InText"
  by code_simp+

lemma detail_th_place: "quiet label \<Longrightarrow> place_after InText (detail_th label) = InText"
proof -
  assume q: "quiet label"
  have "place_after InText ''</td></tr>\<newline><tr><th>'' = InText" "place_after InText ''</th><td>'' = InText" by code_simp+
  then show ?thesis unfolding detail_th_def by (simp only: place_after_simps(3) quiet_stays(1)[OF q])
qed

lemmas places = base_places row_places index_places sessions_places detail_places audit_places

lemma read_field_cell [simp]: "read_fragments InText (field_cell s) = Some InText"
  by (simp add: field_cell_def)

lemma read_index_row: "read_fragments InText (index_row p) = Some InText"
  by (simp add: index_row_def places)

lemma read_session_row: "read_fragments InText (session_row s) = Some InText"
  by (simp add: session_row_def places)

lemma read_audit_row: "read_fragments InText (audit_row e) = Some InText"
  by (simp add: audit_row_def detail_cell_def places)

lemma read_index_body: "read_fragments InText (index_body ps) = Some InText"
  by (simp add: index_body_def places read_concat read_index_row)

lemma read_sessions_body: "read_fragments InText (sessions_body ss) = Some InText"
  by (simp add: sessions_body_def places read_concat read_session_row)

lemma read_audit_body: "read_fragments InText (audit_body es) = Some InText"
  by (simp add: audit_body_def places read_concat read_audit_row)

lemma label_quiet: "list_all quiet [''Duration'', ''User'', ''Target'', ''Remote user'', ''Principals'', ''Client IP'', ''Recording path'']"
  by code_simp

lemma read_detail_table: "read_fragments InText (detail_table s) = Some InText"
  using label_quiet by (simp add: detail_table_def places detail_th_place del: quiet_simps)

lemma read_replay_part: "read_fragments InText (replay_part s available) = Some InText"
  by (simp add: replay_part_def places)

lemma read_detail_body: "read_fragments InText (detail_body sid found available) = Some InText"
  by (cases found) (simp_all add: detail_body_def places read_detail_table read_replay_part)

lemma read_base_page:
  "read_fragments InText title = Some InText \<Longrightarrow> read_fragments InText body = Some InText \<Longrightarrow>
   read_fragments InText (base_page v tm title body) = Some InText"
  by (simp add: base_page_def places)

lemma read_page: "read_fragments InText (page_fragments d) = Some InText"
  by (cases d) (simp_all add: read_base_page read_index_body read_sessions_body read_detail_body read_audit_body places)

text \<open>The player is created with the address of the session's cast.\<close>

lemma replay_script:
  "\<exists>pre post lit. concat (map frag_text (replay_part s True)) @ rest = pre @ CHR 0x27 # lit \<and>
     place_after InText pre = InScript \<and> js_literal lit = Some (''/sessions/'' @ psSessionID s @ ''/cast'', post)"
proof -
  define pre where "pre = take (length replay_player - 11) replay_player"
  have pl: "replay_player = pre @ CHR 0x27 # ''/sessions/''" "place_after InText pre = InScript" unfolding pre_def by code_simp+
  define post where "post = drop 6 replay_options"
  have po: "replay_options = ''/cast'' @ CHR 0x27 # post" unfolding post_def by code_simp
  define lit where "lit = ''/sessions/'' @ js_escape (psSessionID s) @ ''/cast'' @ CHR 0x27 # post @
     html_escape (url_normalize (psSessionID s)) @ ''/cast'' @ [CHR 0x22] @ ''>Download raw cast</a></p>\<newline>'' @ rest"
  have "list_all (\<lambda>c. c \<notin> {CHR 0x27, CHR 10, CHR 13, CHR 0x5C}) ''/sessions/''"
    "list_all (\<lambda>c. c \<notin> {CHR 0x27, CHR 10, CHR 13, CHR 0x5C}) ''/cast''" by code_simp+
  then have "\<exists>t. js_literal lit = Some (''/sessions/'' @ psSessionID s @ ''/cast'', t)"
    unfolding lit_def by (simp only: js_literal_plain js_literal_escape) (simp add: js_literal.simps(2))
  moreover have "concat (map frag_text (replay_part s True)) @ rest = pre @ CHR 0x27 # lit" by (simp add: replay_part_def pl(1) po lit_def)
  ultimately show ?thesis using pl(2) by blast
qed

lemma detail_script:
  "\<exists>pre post lit. page_html (SessionDetailData v tm sid (Some s) True) = pre @ CHR 0x27 # lit \<and>
     place_after InText pre = InScript \<and> js_literal lit = Some (''/sessions/'' @ psSessionID s @ ''/cast'', post)"
proof -
  define front where "front = [Markup base_head, Markup detail_title, Text sid, Markup base_style, Markup detail_back] @ detail_table s"
  define rear where "rear = [Markup ''\<newline>'', Markup ''\<newline>'', Markup base_footer, Text v, Markup base_rendered, Text (fmtTime tm), Markup base_end]"
  have d: "page_fragments (SessionDetailData v tm sid (Some s) True) = front @ replay_part s True @ rear"
    by (simp add: front_def rear_def base_page_def detail_body_def)
  have "read_fragments InText front = Some InText" by (simp add: front_def places read_detail_table)
  note f = read_place[OF this]
  obtain pre post lit where "concat (map frag_text (replay_part s True)) @ concat (map frag_text rear) = pre @ CHR 0x27 # lit"
    "place_after InText pre = InScript" "js_literal lit = Some (''/sessions/'' @ psSessionID s @ ''/cast'', post)"
    using replay_script by blast
  then have "page_html (SessionDetailData v tm sid (Some s) True) = (concat (map frag_text front) @ pre) @ CHR 0x27 # lit"
    "place_after InText (concat (map frag_text front) @ pre) = InScript"
    unfolding page_html_def d by (simp_all add: f)
  with \<open>js_literal lit = _\<close> show ?thesis by blast
qed

text \<open>
  C16. No page can be scripted through its data. Whatever the journal announced and whatever a request
  asked for, every piece of data of a page stands where its escaper is meant for (element text, a quoted
  attribute, a string of the replay script) and leaves a reader exactly there, so that tags, attributes
  and scripts are the templates' alone and the page ends in element text; text is read back as it was
  given, NUL bytes aside; and the player of a session with a cast is created in the page's script with a
  string whose value is the address of that session's cast.\<close>
theorem pages_no_injection:
  "read_fragments InText (page_fragments d) = Some InText \<and> place_after InText (page_html d) = InText \<and>
   (\<forall>s. Text s \<in> set (page_fragments d) \<longrightarrow> html_text (frag_text (Text s)) = without_nul s) \<and>
   (\<forall>v tm sid s. d = SessionDetailData v tm sid (Some s) True \<longrightarrow>
      (\<exists>pre post lit. page_html d = pre @ CHR 0x27 # lit \<and> place_after InText pre = InScript \<and>
         js_literal lit = Some (''/sessions/'' @ psSessionID s @ ''/cast'', post)))"
  using read_page[of d] read_place[OF read_page[of d]] detail_script by (auto simp: page_html_def html_text_escape)

definition hostile_session :: portal_session where
  "hostile_session = \<lparr>psSessionID = [CHR 0x27] @ '');</script>'', psUser = ''<script>'', psTarget = [], psRemoteUser = [],
     psPrincipals = [], psClientIP = [], psRecordingPath = ''/c'', psCompletedAt = zero_time, psDuration = 0\<rparr>"

theorem pages_no_injection_witness:
  "\<exists>pre post lit. page_html (SessionDetailData ''v'' zero_time ''x'' (Some hostile_session) True) = pre @ CHR 0x27 # lit \<and>
     place_after InText pre = InScript \<and>
     js_literal lit = Some (''/sessions/'' @ [CHR 0x27] @ '');</script>'' @ ''/cast'', post)"
  using pages_no_injection[of "SessionDetailData ''v'' zero_time ''x'' (Some hostile_session) True"]
  by (simp add: hostile_session_def)

end
