(* ===== verification/Portal.thy ===== *)
theory Portal
  imports Portal_Cast Portal_Pages
begin

text \<open>
  The web portal, \<^verbatim>\<open>internal/proxyd/portal/portal.go\<close>: its HTTP handlers. The Basic-auth wrapper (package
  \<^verbatim>\<open>tokyo3-base\<close>) is a parameter; the response writer keeps the order of header and body writes.
\<close>

section \<open>Responses\<close>

text \<open>
  A \<^verbatim>\<open>http.ResponseWriter\<close>: the first status wins and freezes the headers sent; a body write sends 200 when no
  status was written; a handler that returns without writing answers 200.
\<close>

record response =
  rsCode :: "nat option"
  rsHeader :: "(string \<times> string) list"
  rsSent :: "(string \<times> string) list"
  rsBody :: string

definition new_response :: response where
  "new_response = \<lparr>rsCode = None, rsHeader = [], rsSent = [], rsBody = []\<rparr>"

definition SetHeader :: "string \<Rightarrow> string \<Rightarrow> response \<Rightarrow> response" where
  "SetHeader k v w = w\<lparr>rsHeader := AList.update k v (rsHeader w)\<rparr>"

definition WriteHeader :: "nat \<Rightarrow> response \<Rightarrow> response" where
  "WriteHeader code w = (case rsCode w of Some _ \<Rightarrow> w | None \<Rightarrow> w\<lparr>rsCode := Some code, rsSent := rsHeader w\<rparr>)"

definition Write_body :: "string \<Rightarrow> response \<Rightarrow> response" where
  "Write_body b w = (let w1 = WriteHeader 200 w in w1\<lparr>rsBody := rsBody w1 @ b\<rparr>)"

definition io_Copy :: "string \<Rightarrow> response \<Rightarrow> response" where
  "io_Copy b w = (if b = [] then w else Write_body b w)"

definition http_Error :: "string \<Rightarrow> nat \<Rightarrow> response \<Rightarrow> response" where
  "http_Error msg code w =
     Write_body (msg @ [CHR 0x0A])
       (WriteHeader code
         (SetHeader ''X-Content-Type-Options'' ''nosniff''
           (SetHeader ''Content-Type'' ''text/plain; charset=utf-8''
             (w\<lparr>rsHeader := AList.delete ''Content-Length'' (rsHeader w)\<rparr>))))"

definition finish :: "response \<Rightarrow> response" where
  "finish w = WriteHeader 200 w"

section \<open>The server\<close>

text \<open>The stores as a request finds them.\<close>

record portal_config =
  ptVersion :: string
  ptSessionStore :: "portal_session list option"
  ptCastStore :: "(string \<Rightarrow> (string \<times> int) result) option"
  ptAuditStore :: "audit_event list option"

record portal_server =
  svCfg :: portal_config
  svPages :: "string \<rightharpoonup> page_template"

definition portal_New :: "portal_config \<Rightarrow> portal_server result" where
  "portal_New cfg =
     (case parsePages of Inl e \<Rightarrow> Inl (Wrap ''parse templates'' e) | Inr pages \<Rightarrow> Inr \<lparr>svCfg = cfg, svPages = pages\<rparr>)"

definition render :: "portal_server \<Rightarrow> string \<Rightarrow> page_data \<Rightarrow> response \<Rightarrow> response" where
  "render s page data w =
     (case svPages s page of
        None \<Rightarrow> http_Error ''template error'' 500 w
      | Some tmpl \<Rightarrow>
          (case tmpl data of
             (out, None) \<Rightarrow> io_Copy out w
           | (out, Some _) \<Rightarrow> http_Error ''template error'' 500 (io_Copy out w)))"

definition landingPages :: "portal_server \<Rightarrow> page_entry list" where
  "landingPages s =
     (let status = (\<lambda>wired. if wired then ''ready'' else ''planned'') in
      [\<lparr>peName = ''Sessions'', pePath = ''/sessions'',
        peDescription = ''Recent recorded SSH sessions with asciinema replay'',
        peStatus = status (ptSessionStore (svCfg s) \<noteq> None)\<rparr>,
       \<lparr>peName = ''Audit'', pePath = ''/audit'',
        peDescription = ''Live audit-event viewer (session lifecycle, channels, recordings, port-forwards)'',
        peStatus = status (ptAuditStore (svCfg s) \<noteq> None)\<rparr>])"

definition handleIndex :: "portal_server \<Rightarrow> time \<Rightarrow> response \<Rightarrow> response" where
  "handleIndex s now w = render s ''index'' (IndexData (ptVersion (svCfg s)) now (landingPages s)) w"

definition handleHealthz :: "response \<Rightarrow> response" where
  "handleHealthz w = Write_body (''ok'' @ [CHR 0x0A]) (SetHeader ''Content-Type'' ''text/plain; charset=utf-8'' w)"

definition handleSessionsIndex :: "portal_server \<Rightarrow> time \<Rightarrow> response \<Rightarrow> response" where
  "handleSessionsIndex s now w =
     (case ptSessionStore (svCfg s) of
        None \<Rightarrow> http_Error ''session store not configured'' 503 w
      | Some sessions \<Rightarrow> render s ''sessions'' (SessionsIndexData (ptVersion (svCfg s)) now sessions) w)"

text \<open>The session of a detail page is absent exactly when \<^verbatim>\<open>Found\<close> is false.\<close>

definition handleSessionDetail :: "portal_server \<Rightarrow> time \<Rightarrow> string \<Rightarrow> response \<Rightarrow> response" where
  "handleSessionDetail s now sid w =
     (case ptSessionStore (svCfg s) of
        None \<Rightarrow> http_Error ''session store not configured'' 503 w
      | Some sessions \<Rightarrow>
          (let found = find (\<lambda>x. psSessionID x = sid) sessions;
               available = (case found of None \<Rightarrow> False
                            | Some x \<Rightarrow> ptCastStore (svCfg s) \<noteq> None \<and> psRecordingPath x \<noteq> []);
               w1 = (if found = None then WriteHeader 404 w else w)
           in render s ''session_detail'' (SessionDetailData (ptVersion (svCfg s)) now sid found available) w1))"

definition cast_error :: "go_error \<Rightarrow> response \<Rightarrow> response" where
  "cast_error e w =
     (if errors_is e ErrCastNotFound then http_Error ''cast file not found'' 404 w
      else if errors_is e ErrCastOutsideRoot then http_Error ''cast outside allowed root'' 403 w
      else http_Error ''cast open failed'' 500 w)"

definition handleSessionCast :: "portal_server \<Rightarrow> string \<Rightarrow> response \<Rightarrow> response" where
  "handleSessionCast s sid w =
     (case ptSessionStore (svCfg s) of
        None \<Rightarrow> http_Error ''session store not configured'' 503 w
      | Some sessions \<Rightarrow> (case ptCastStore (svCfg s) of
          None \<Rightarrow> http_Error ''cast store not configured'' 503 w
        | Some store \<Rightarrow> (case find (\<lambda>x. psSessionID x = sid) sessions of
            None \<Rightarrow> http_Error ''session not found'' 404 w
          | Some sess \<Rightarrow>
              if psRecordingPath sess = [] then http_Error ''session has no recording'' 404 w
              else (case store (psRecordingPath sess) of
                Inl e \<Rightarrow> cast_error e w
              | Inr (rc, sz) \<Rightarrow>
                  let w1 = SetHeader ''Content-Type'' ''text/plain; charset=utf-8'' w;
                      w2 = (if sz > 0 then SetHeader ''Content-Length'' (fmt_int sz) w1 else w1);
                      w3 = SetHeader ''Cache-Control'' ''no-store'' w2
                  in io_Copy rc w3))))"

definition handleAuditIndex :: "portal_server \<Rightarrow> time \<Rightarrow> response \<Rightarrow> response" where
  "handleAuditIndex s now w =
     (case ptAuditStore (svCfg s) of
        None \<Rightarrow> http_Error ''audit store not configured'' 503 w
      | Some events \<Rightarrow> render s ''audit'' (AuditIndexData (ptVersion (svCfg s)) now events) w)"

text \<open>
  The routes: a request is a method and the unescaped segments of its clean path (\<^verbatim>\<open>/\<close> is the one empty
  segment). A \<^verbatim>\<open>GET\<close> pattern also serves \<^verbatim>\<open>HEAD\<close>; a wildcard matches one non-empty segment.
\<close>

record http_request =
  rqMethod :: string
  rqSegments :: "string list"

datatype route = RIndex | RHealthz | RSessions | RDetail string | RCast string | RAudit

definition match_route :: "string list \<Rightarrow> route option" where
  "match_route segs =
     (if segs = [[]] then Some RIndex
      else if segs = [''healthz''] then Some RHealthz
      else if segs = [''sessions''] then Some RSessions
      else if segs = [''audit''] then Some RAudit
      else (case segs of
          [a, sid] \<Rightarrow> if a = ''sessions'' \<and> sid \<noteq> [] then Some (RDetail sid) else None
        | [a, sid, b] \<Rightarrow> if a = ''sessions'' \<and> sid \<noteq> [] \<and> b = ''cast'' then Some (RCast sid) else None
        | _ \<Rightarrow> None))"

fun serve_route :: "portal_server \<Rightarrow> time \<Rightarrow> route \<Rightarrow> response \<Rightarrow> response" where
  "serve_route s now RIndex = handleIndex s now"
| "serve_route s now RHealthz = handleHealthz"
| "serve_route s now RSessions = handleSessionsIndex s now"
| "serve_route s now (RDetail sid) = handleSessionDetail s now sid"
| "serve_route s now (RCast sid) = handleSessionCast s sid"
| "serve_route s now RAudit = handleAuditIndex s now"

definition serve_mux :: "portal_server \<Rightarrow> time \<Rightarrow> http_request \<Rightarrow> response \<Rightarrow> response" where
  "serve_mux s now rq w =
     (case match_route (rqSegments rq) of
        None \<Rightarrow> http_Error ''404 page not found'' 404 w
      | Some r \<Rightarrow> if rqMethod rq = ''GET'' \<or> rqMethod rq = ''HEAD'' then serve_route s now r w
                  else http_Error ''Method Not Allowed'' 405 (SetHeader ''Allow'' ''GET, HEAD'' w))"

text \<open>\<^verbatim>\<open>httpauth.BasicAuth\<close> wraps a handler and exempts paths; it is the parameter \<open>basicAuth\<close>.\<close>

definition Routes ::
  "((http_request \<Rightarrow> response \<Rightarrow> response) \<Rightarrow> string list \<Rightarrow> http_request \<Rightarrow> response \<Rightarrow> response) \<Rightarrow>
   portal_server \<Rightarrow> time \<Rightarrow> http_request \<Rightarrow> response \<Rightarrow> response" where
  "Routes basicAuth s now = basicAuth (serve_mux s now) [''/healthz'']"

section \<open>What the portal answers\<close>

lemmas response_defs = http_Error_def Write_body_def WriteHeader_def SetHeader_def io_Copy_def finish_def new_response_def

text \<open>
  The contract: the page, the message or the cast a request is owed, and its status. A store that is not
  configured is reported as unavailable.
\<close>

datatype answer = Page nat page_data | Message nat string | Cast string

definition found_session :: "portal_config \<Rightarrow> string \<Rightarrow> portal_session option" where
  "found_session cfg sid = (case ptSessionStore cfg of None \<Rightarrow> None | Some ss \<Rightarrow> find (\<lambda>x. psSessionID x = sid) ss)"

definition replayable :: "portal_config \<Rightarrow> portal_session option \<Rightarrow> bool" where
  "replayable cfg found = (case found of None \<Rightarrow> False | Some x \<Rightarrow> ptCastStore cfg \<noteq> None \<and> psRecordingPath x \<noteq> [])"

fun owed_page :: "portal_server \<Rightarrow> time \<Rightarrow> route \<Rightarrow> answer" where
  "owed_page s now RIndex = Page 200 (IndexData (ptVersion (svCfg s)) now (landingPages s))"
| "owed_page s now RHealthz = Message 200 ''ok''"
| "owed_page s now RSessions = (case ptSessionStore (svCfg s) of
     None \<Rightarrow> Message 503 ''session store not configured''
   | Some ss \<Rightarrow> Page 200 (SessionsIndexData (ptVersion (svCfg s)) now ss))"
| "owed_page s now (RDetail sid) =
     (if ptSessionStore (svCfg s) = None then Message 503 ''session store not configured''
      else let found = found_session (svCfg s) sid in
        Page (if found = None then 404 else 200)
          (SessionDetailData (ptVersion (svCfg s)) now sid found (replayable (svCfg s) found)))"
| "owed_page s now (RCast sid) = Cast sid"
| "owed_page s now RAudit = (case ptAuditStore (svCfg s) of
     None \<Rightarrow> Message 503 ''audit store not configured''
   | Some es \<Rightarrow> Page 200 (AuditIndexData (ptVersion (svCfg s)) now es))"

definition owed :: "portal_server \<Rightarrow> time \<Rightarrow> http_request \<Rightarrow> answer" where
  "owed s now rq = (case match_route (rqSegments rq) of
       None \<Rightarrow> Message 404 ''404 page not found''
     | Some r \<Rightarrow> if rqMethod rq = ''GET'' \<or> rqMethod rq = ''HEAD'' then owed_page s now r else Message 405 ''Method Not Allowed'')"

fun answers :: "portal_server \<Rightarrow> answer \<Rightarrow> response \<Rightarrow> bool" where
  "answers s (Page code d) r \<longleftrightarrow> rsCode r = Some code \<and> rsBody r = page_html d"
| "answers s (Message code m) r \<longleftrightarrow> rsCode r = Some code \<and> rsBody r = m @ [CHR 0x0A] \<and>
     map_of (rsSent r) ''Content-Type'' = Some ''text/plain; charset=utf-8''"
| "answers s (Cast sid) r \<longleftrightarrow> r = finish (handleSessionCast s sid new_response)"

lemma portal_New_pages:
  assumes "portal_New cfg = Inr s"
  shows "svCfg s = cfg" "svPages s (page_name d) = Some (execute_page (page_name d))"
  using assms parsePages_ok by (metis (mono_tags, lifting) portal_New_def portal_server.select_convs Inr_inject sum.case(2))+

lemma render_page:
  assumes "portal_New cfg = Inr s" "name = page_name d"
  shows "render s name d w = Write_body (page_html d) w"
proof -
  have "page_html d \<noteq> []" by (cases d) (simp_all add: page_html_def base_page_def base_head_def)
  then show ?thesis using portal_New_pages(2)[OF assms(1), of d] assms(2) by (simp add: render_def execute_page_def io_Copy_def)
qed

lemma message_answers: "answers s (Message code m) (finish (http_Error m code new_response))"
  by (simp add: response_defs update_conv')

lemma route_answers:
  assumes "portal_New cfg = Inr s"
  shows "answers s (owed_page s now r) (finish (serve_route s now r new_response))"
proof (cases r)
  case RIndex
  then show ?thesis by (simp add: handleIndex_def render_page[OF assms]) (simp add: response_defs)
next
  case RHealthz
  then show ?thesis by (simp add: handleHealthz_def response_defs update_conv')
next
  case RSessions
  then show ?thesis
    by (cases "ptSessionStore (svCfg s)") (simp_all add: handleSessionsIndex_def render_page[OF assms] message_answers del: answers.simps(2),
      simp add: response_defs)
next
  case (RDetail sid)
  then show ?thesis
    by (cases "ptSessionStore (svCfg s)")
      (simp_all add: handleSessionDetail_def render_page[OF assms] message_answers found_session_def replayable_def Let_def del: answers.simps(2),
       simp add: response_defs)
next
  case (RCast sid)
  then show ?thesis by simp
next
  case RAudit
  then show ?thesis
    by (cases "ptAuditStore (svCfg s)") (simp_all add: handleAuditIndex_def render_page[OF assms] message_answers del: answers.simps(2),
      simp add: response_defs)
qed



section \<open>The cast endpoint\<close>

definition cast_messages :: "string list" where
  "cast_messages =
     map (\<lambda>m. m @ [CHR 0x0A])
       [''session store not configured'', ''cast store not configured'', ''session not found'',
        ''session has no recording'', ''cast file not found'', ''cast outside allowed root'', ''cast open failed'']"

lemma http_Error_fresh:
  "rsCode (finish (http_Error m c new_response)) = Some c" "rsBody (finish (http_Error m c new_response)) = m @ [CHR 0x0A]"
  by (simp_all add: response_defs)

lemma cast_error_reply:
  "rsCode (finish (cast_error e new_response)) \<in> {Some 403, Some 404, Some 500} \<and>
   rsBody (finish (cast_error e new_response)) \<in> set cast_messages"
  by (simp add: cast_error_def http_Error_fresh cast_messages_def)

definition cast_reply :: "string \<Rightarrow> response \<Rightarrow> bool" where
  "cast_reply c r \<longleftrightarrow> rsCode r = Some 200 \<and> rsBody r = c \<and> map_of (rsSent r) ''Cache-Control'' = Some ''no-store'' \<and>
     map_of (rsSent r) ''Content-Length'' = (if c = [] then None else Some (fmt_int (int (length c))))"

lemma handleSessionCast_ok:
  assumes "ptSessionStore (svCfg s) = Some sessions" "ptCastStore (svCfg s) = Some store"
    "find (\<lambda>x. psSessionID x = sid) sessions = Some sess" "psRecordingPath sess \<noteq> []"
    "store (psRecordingPath sess) = Inr (c, int (length c))"
  shows "cast_reply c (finish (handleSessionCast s sid new_response))"
  using assms by (simp add: handleSessionCast_def cast_reply_def response_defs Let_def update_conv')

context cast_store
begin

text \<open>A request is answered with a stored cast of the session it names, or with a fixed message.\<close>

lemma handleSessionCast_cases:
  fixes sid :: string
  assumes "ptCastStore (svCfg s) = Some open_cast"
  defines "r \<equiv> finish (handleSessionCast s sid new_response)"
  obtains (served) sessions sess c n where "ptSessionStore (svCfg s) = Some sessions"
      "find (\<lambda>x. psSessionID x = sid) sessions = Some sess" "open_cast (psRecordingPath sess) = Inr (c, n)"
      "stored c" "cast_reply c r"
  | (refused) "rsCode r \<in> {Some 403, Some 404, Some 500, Some 503}" "rsBody r \<in> set cast_messages"
proof (cases "ptSessionStore (svCfg s)")
  case None
  then show ?thesis using refused by (simp add: r_def handleSessionCast_def http_Error_fresh cast_messages_def)
next
  case (Some sessions)
  note st = Some
  show ?thesis
  proof (cases "find (\<lambda>x. psSessionID x = sid) sessions")
    case None
    then show ?thesis using refused st assms(1) by (simp add: r_def handleSessionCast_def http_Error_fresh cast_messages_def)
  next
    case (Some sess)
    note fd = Some
    show ?thesis
    proof (cases "psRecordingPath sess = []")
      case True
      then show ?thesis using refused st fd assms(1) by (simp add: r_def handleSessionCast_def http_Error_fresh cast_messages_def)
    next
      case False
      show ?thesis
      proof (cases "open_cast (psRecordingPath sess)")
        case (Inl e)
        then show ?thesis using refused st fd False assms(1) cast_error_reply[of e] by (auto simp: r_def handleSessionCast_def)
      next
        case (Inr cn)
        obtain c n where cn: "cn = (c, n)" by (cases cn)
        have o: "stored c" "n = int (length c)" using opened[of "psRecordingPath sess" c n] Inr cn by auto
        have "cast_reply c r" unfolding r_def by (rule handleSessionCast_ok[OF st assms(1) fd False]) (simp add: Inr cn o(2))
        then show ?thesis using served st fd Inr cn o(1) by auto
      qed
    qed
  qed
qed

end

lemma cast_Open_outside:
  "p \<noteq> [] \<Longrightarrow> abs_or cwd p = Inr ap \<Longrightarrow> EvalSymlinks f lk ap = Inr r \<Longrightarrow> \<not> inside_root s r \<Longrightarrow>
   cast_Open s cwd lk f p = Inl ErrCastOutsideRoot"
  by (simp add: cast_Open_def inside_root_def)

text \<open>
  C35. The cast endpoint leaks nothing. Whatever the sessions the journal announced and whatever the files
  and links on disk, a request for a session's cast is answered either with 200 and exactly the bytes of
  one regular file inside the cast root, the file the first session with that id names, uncacheable and
  with its length, or with 403, 404, 500 or 503 and a fixed message; and a recording path that resolves
  outside the root is answered with 403.\<close>
theorem cast_endpoint_safe:
  assumes "ptCastStore (svCfg s) = Some (cast_Open st cwd lk f)"
  shows "((\<exists>sessions sess c n es. ptSessionStore (svCfg s) = Some sessions \<and>
             find (\<lambda>x. psSessionID x = sid) sessions = Some sess \<and>
             cast_Open st cwd lk f (psRecordingPath sess) = Inr (c, n) \<and>
             file_path f lk es c \<and> inside_root st (rooted_path es) \<and>
             cast_reply c (finish (handleSessionCast s sid new_response))) \<or>
          rsCode (finish (handleSessionCast s sid new_response)) \<in> {Some 403, Some 404, Some 500, Some 503} \<and>
          rsBody (finish (handleSessionCast s sid new_response)) \<in> set cast_messages) \<and>
    (\<forall>sessions sess ap r. ptSessionStore (svCfg s) = Some sessions \<and>
       find (\<lambda>x. psSessionID x = sid) sessions = Some sess \<and> psRecordingPath sess \<noteq> [] \<and>
       abs_or cwd (psRecordingPath sess) = Inr ap \<and> EvalSymlinks f lk ap = Inr r \<and> \<not> inside_root st r \<longrightarrow>
       rsCode (finish (handleSessionCast s sid new_response)) = Some 403)"
proof (intro conjI allI impI)
  show "(\<exists>sessions sess c n es. ptSessionStore (svCfg s) = Some sessions \<and>
             find (\<lambda>x. psSessionID x = sid) sessions = Some sess \<and>
             cast_Open st cwd lk f (psRecordingPath sess) = Inr (c, n) \<and>
             file_path f lk es c \<and> inside_root st (rooted_path es) \<and>
             cast_reply c (finish (handleSessionCast s sid new_response))) \<or>
          rsCode (finish (handleSessionCast s sid new_response)) \<in> {Some 403, Some 404, Some 500, Some 503} \<and>
          rsBody (finish (handleSessionCast s sid new_response)) \<in> set cast_messages"
    by (rule local_store.handleSessionCast_cases[OF assms, of sid]) blast+
next
  fix sessions sess ap r
  assume h: "ptSessionStore (svCfg s) = Some sessions \<and>
       find (\<lambda>x. psSessionID x = sid) sessions = Some sess \<and> psRecordingPath sess \<noteq> [] \<and>
       abs_or cwd (psRecordingPath sess) = Inr ap \<and> EvalSymlinks f lk ap = Inr r \<and> \<not> inside_root st r"
  then have "cast_Open st cwd lk f (psRecordingPath sess) = Inl ErrCastOutsideRoot" using cast_Open_outside by blast
  then show "rsCode (finish (handleSessionCast s sid new_response)) = Some 403"
    using h assms by (simp add: handleSessionCast_def cast_error_def ErrCastOutsideRoot_def ErrCastNotFound_def http_Error_fresh)
qed

definition demo_portal :: portal_server where
  "demo_portal = \<lparr>svCfg = \<lparr>ptVersion = ''v'',
       ptSessionStore = Some [\<lparr>psSessionID = ''a'', psUser = ''u'', psTarget = ''t'', psRemoteUser = ''r'', psPrincipals = ''p'',
          psClientIP = ''i'', psRecordingPath = ''/c/up/pw'', psCompletedAt = zero_time, psDuration = 0\<rparr>],
       ptCastStore = Some (cast_Open \<lparr>store_root = ''/c''\<rparr> (Inl (Msg [])) link_map link_disk), ptAuditStore = None\<rparr>,
     svPages = \<lambda>_. None\<rparr>"

theorem cast_endpoint_safe_witness:
  "rsCode (finish (handleSessionCast demo_portal ''a'' new_response)) = Some 403"
proof -
  have "abs_or (Inl (Msg [])) ''/c/up/pw'' = Inr ''/c/up/pw''" by code_simp
  moreover have "\<not> inside_root \<lparr>store_root = ''/c''\<rparr> ''/etc/pw''" by code_simp
  moreover have "ptCastStore (svCfg demo_portal) = Some (cast_Open \<lparr>store_root = ''/c''\<rparr> (Inl (Msg [])) link_map link_disk)"
    by (simp add: demo_portal_def)
  from cast_endpoint_safe[OF this, of "''a''"] calculation link_disk_eval(3) show ?thesis
    by (auto simp: demo_portal_def)
qed

end
