(* ===== verification/Host_Cert.thy ===== *)
theory Host_Cert
  imports Go_Time Go_Path
begin

text \<open>
  \<^verbatim>\<open>internal/common/certclient\<close> and \<^verbatim>\<open>internal/tunneld/hostcert/renewer.go\<close>: the client of certd's signing
  endpoints and the renewal of a host certificate, down to the temp-file-and-rename write. The HTTP call,
  the parsing of private keys and the name of a temporary file are parameters.
\<close>

section \<open>The signing client\<close>

record sign_user_request =
  suPublicKey :: string
  suKeyID :: string
  suPrincipals :: "string list"
  suGroups :: "string list"
  suExtensions :: "string \<rightharpoonup> string"
  suCriticalOptions :: "string \<rightharpoonup> string"
  suTTLSeconds :: int

record sign_host_request =
  shPublicKey :: string
  shKeyID :: string
  shPrincipals :: "string list"
  shGroups :: "string list"
  shTTLSeconds :: int

record sign_response =
  srCertificate :: string
  srSerial :: "64 word"
  srKeyID :: string
  srPrincipals :: "string list"
  srValidAfter :: time
  srValidBefore :: time

definition certclient_DefaultTimeout :: duration where "certclient_DefaultTimeout = 5 * second"

fun trim_slashes :: "string \<Rightarrow> string" where
  "trim_slashes s = (if s \<noteq> [] \<and> last s = CHR ''/'' then trim_slashes (butlast s) else s)"

declare trim_slashes.simps [simp del]

record cert_client =
  ccBaseURL :: string
  ccHasTLS :: bool
  ccClientTimeout :: duration

definition NewClient :: "string \<Rightarrow> bool \<Rightarrow> cert_client result" where
  "NewClient baseURL tls =
     (if baseURL = [] then Inl (Msg ''baseURL is required'')
      else Inr \<lparr>ccBaseURL = trim_slashes baseURL, ccHasTLS = tls, ccClientTimeout = certclient_DefaultTimeout\<rparr>)"

text \<open>\<open>post\<close> sends a request body to a path below the base URL.\<close>

definition SignUserCert ::
  "(cert_client \<Rightarrow> string \<Rightarrow> sign_user_request \<Rightarrow> sign_response result) \<Rightarrow> cert_client \<Rightarrow> sign_user_request \<Rightarrow> sign_response result" where
  "SignUserCert post c req =
     (case post c ''/api/v1/ssh/sign-user'' req of Inl e \<Rightarrow> Inl (Wrap ''sign-user'' e) | Inr r \<Rightarrow> Inr r)"

definition SignHostCert ::
  "(cert_client \<Rightarrow> string \<Rightarrow> sign_host_request \<Rightarrow> sign_response result) \<Rightarrow> cert_client \<Rightarrow> sign_host_request \<Rightarrow> sign_response result" where
  "SignHostCert post c req =
     (case post c ''/api/v1/ssh/sign-host'' req of Inl e \<Rightarrow> Inl (Wrap ''sign-host'' e) | Inr r \<Rightarrow> Inr r)"

lemma trim_slashes_last: "trim_slashes s = [] \<or> last (trim_slashes s) \<noteq> CHR ''/''"
  by (induction s rule: trim_slashes.induct) (subst (1 2) trim_slashes.simps, auto)

section \<open>Configuration of the renewer\<close>

record renewer_config =
  rnHasSigner :: bool
  rnHostKeyPath :: string
  rnCertOutputPath :: string
  rnKeyID :: string
  rnPrincipals :: "string list"
  rnRequestedTTL :: duration
  rnRenewFraction :: rat
  rnMinRenewInterval :: duration
  rnRetryBackoff :: duration

definition DefaultRenewFraction :: rat where "DefaultRenewFraction = fl64 (3 / 5)"
definition DefaultMinRenewInterval :: duration where "DefaultMinRenewInterval = 1 * minute"
definition DefaultRetryBackoff :: duration where "DefaultRetryBackoff = 30 * second"

definition renewer_New :: "renewer_config \<Rightarrow> renewer_config result" where
  "renewer_New cfg =
     (if \<not> rnHasSigner cfg then Inl (Msg ''Signer is required'')
      else if rnHostKeyPath cfg = [] then Inl (Msg ''HostKeyPath is required'')
      else if rnCertOutputPath cfg = [] then Inl (Msg ''CertOutputPath is required'')
      else if rnKeyID cfg = [] then Inl (Msg ''KeyID is required'')
      else if rnPrincipals cfg = [] then Inl (Msg ''at least one Principal is required'')
      else
        let c = cfg\<lparr>rnRenewFraction := (if rnRenewFraction cfg = 0 then DefaultRenewFraction else rnRenewFraction cfg)\<rparr> in
        if rnRenewFraction c \<le> 0 \<or> rnRenewFraction c \<ge> 1 then Inl (Msg ''RenewFraction must be in (0,1)'')
        else Inr (c\<lparr>
          rnMinRenewInterval := (if rnMinRenewInterval c = 0 then DefaultMinRenewInterval else rnMinRenewInterval c),
          rnRetryBackoff := (if rnRetryBackoff c = 0 then DefaultRetryBackoff else rnRetryBackoff c)\<rparr>))"

section \<open>The atomic write\<close>

text \<open>
  Every system call is one step; \<open>states\<close> lists the file systems a crash could leave behind, and the call
  that fails is decided by the file system's faults and quota. \<open>tmp\<close> is the name \<^verbatim>\<open>os.CreateTemp\<close> chose.
\<close>

record write_result =
  wrErr :: "go_error option"
  wrFs :: fs
  wrStates :: "fs list"

definition remove_file :: "string \<Rightarrow> fs \<Rightarrow> fs" where
  "remove_file p f = (if faults f ''remove'' p = None then del_node p f else f)"

definition give_up :: "go_error \<Rightarrow> string \<Rightarrow> fs list \<Rightarrow> fs \<Rightarrow> write_result" where
  "give_up e tmp states f = \<lparr>wrErr = Some e, wrFs = remove_file tmp f, wrStates = states @ [f, remove_file tmp f]\<rparr>"

definition writeAtomic :: "string \<Rightarrow> string \<Rightarrow> string \<Rightarrow> fs \<Rightarrow> write_result" where
  "writeAtomic tmp path b f =
     (case faults f ''create'' tmp of
        Some e \<Rightarrow> \<lparr>wrErr = Some e, wrFs = f, wrStates = [f]\<rparr>
      | None \<Rightarrow>
          let f1 = set_node tmp (FFile []) f in
          case append_file tmp b f1 of
            (Some e, f2) \<Rightarrow> give_up e tmp [f, f1] f2
          | (None, f2) \<Rightarrow>
              (case faults f2 ''chmod'' tmp of Some e \<Rightarrow> give_up e tmp [f, f1] f2
               | None \<Rightarrow>
                 (case faults f2 ''sync'' tmp of Some e \<Rightarrow> give_up e tmp [f, f1] f2
                  | None \<Rightarrow>
                    (case faults f2 ''close'' tmp of Some e \<Rightarrow> give_up e tmp [f, f1] f2
                     | None \<Rightarrow>
                       (case faults f2 ''rename'' path of
                          Some e \<Rightarrow> give_up e tmp [f, f1] f2
                        | None \<Rightarrow>
                            let f3 = set_node path (FFile (file_bytes f2 tmp)) (del_node tmp f2)
                            in \<lparr>wrErr = None, wrFs = f3, wrStates = [f, f1, f2, f3]\<rparr>)))))"

section \<open>Signing and scheduling\<close>

text \<open>\<open>parse_key\<close> is \<^verbatim>\<open>gossh.ParsePrivateKey\<close> followed by the marshalling of its public key.\<close>

definition readHostPublicKey :: "(string \<Rightarrow> string result) \<Rightarrow> string \<Rightarrow> fs \<Rightarrow> string result" where
  "readHostPublicKey parse_key path f =
     (case faults f ''read'' path of
        Some e \<Rightarrow> Inl e
      | None \<Rightarrow> (case node_at f path of
          Some (FFile k) \<Rightarrow> (case parse_key k of Inl e \<Rightarrow> Inl (Wrap (''parse private key at '' @ path) e) | Inr pub \<Rightarrow> Inr pub)
        | _ \<Rightarrow> Inl ErrNotExist))"

text \<open>The result, the file system, and the call of \<^verbatim>\<open>OnRenewed\<close> if there was one.\<close>

definition SignOnce ::
  "(string \<Rightarrow> string result) \<Rightarrow> (sign_host_request \<Rightarrow> sign_response result) \<Rightarrow> string \<Rightarrow> renewer_config \<Rightarrow> fs
    \<Rightarrow> (time \<times> time) result \<times> fs \<times> (time \<times> time) list" where
  "SignOnce parse_key sign tmp cfg f =
     (case readHostPublicKey parse_key (rnHostKeyPath cfg) f of
        Inl e \<Rightarrow> (Inl (Wrap ''read host pub key'' e), f, [])
      | Inr pub \<Rightarrow>
          let req = \<lparr>shPublicKey = pub, shKeyID = rnKeyID cfg, shPrincipals = rnPrincipals cfg, shGroups = [],
                     shTTLSeconds = (if rnRequestedTTL cfg > 0 then trunc_rat (Seconds (rnRequestedTTL cfg)) else 0)\<rparr> in
          case sign req of
            Inl e \<Rightarrow> (Inl (Wrap ''sign host cert'' e), f, [])
          | Inr resp \<Rightarrow>
              if srCertificate resp = [] then (Inl (Msg ''certd returned empty certificate''), f, [])
              else
                let r = writeAtomic tmp (rnCertOutputPath cfg) (srCertificate resp) f in
                (case wrErr r of
                   Some e \<Rightarrow> (Inl (Wrap ''write cert'' e), wrFs r, [])
                 | None \<Rightarrow> (Inr (srValidAfter resp, srValidBefore resp), wrFs r, [(srValidAfter resp, srValidBefore resp)])))"

definition nextRenewalDelay :: "renewer_config \<Rightarrow> time \<Rightarrow> time \<Rightarrow> time \<Rightarrow> duration" where
  "nextRenewalDelay cfg now validAfter validBefore =
     (let lifetime = time_sub validBefore validAfter;
          renewAfter = trunc_rat (fl64 (fl64 (of_int lifetime) * rnRenewFraction cfg));
          deadline = validAfter + renewAfter;
          wait = time_sub deadline now
      in if wait < rnMinRenewInterval cfg then rnMinRenewInterval cfg else wait)"

text \<open>
  The waits of \<^verbatim>\<open>Run\<close>: each iteration is the result of \<^verbatim>\<open>SignOnce\<close>, the clock read after it, and the context's
  error if it fires during the wait.
\<close>

fun renewer_Run ::
  "renewer_config \<Rightarrow> ((time \<times> time) result \<times> time \<times> go_error option) list \<Rightarrow> duration list \<times> go_error option" where
  "renewer_Run cfg [] = ([], None)"
| "renewer_Run cfg ((res, now, ctx) # rest) =
     (let wait = (case res of Inl _ \<Rightarrow> rnRetryBackoff cfg | Inr (va, vb) \<Rightarrow> nextRenewalDelay cfg now va vb)
      in case ctx of
           Some e \<Rightarrow> ([wait], Some e)
         | None \<Rightarrow> (case renewer_Run cfg rest of (ws, r) \<Rightarrow> (wait # ws, r)))"

section \<open>Lemmas\<close>

lemma give_up_fields [simp]:
  "wrErr (give_up e tmp sts f) = Some e" "wrFs (give_up e tmp sts f) = remove_file tmp f"
  "wrStates (give_up e tmp sts f) = sts @ [f, remove_file tmp f]"
  by (simp_all add: give_up_def)

lemma node_at_remove: "q \<noteq> tmp \<Longrightarrow> node_at (remove_file tmp f) q = node_at f q"
  by (simp add: remove_file_def)

lemma append_file_None: "append_file p b f = (None, f') \<Longrightarrow> f' = set_node p (FFile (file_bytes f p @ b)) f"
  by (auto simp: append_file_def Let_def split: option.splits if_splits)

text \<open>Everything but the output and the temporary file is as it was, at every moment.\<close>

lemma writeAtomic_other:
  assumes "q \<noteq> tmp" "q \<noteq> path" "g \<in> set (wrStates (writeAtomic tmp path b f)) \<or> g = wrFs (writeAtomic tmp path b f)"
  shows "node_at g q = node_at f q"
proof -
  obtain e f2 where a: "append_file tmp b (set_node tmp (FFile []) f) = (e, f2)" by (cases "append_file tmp b (set_node tmp (FFile []) f)")
  have f2: "node_at f2 q = node_at f q" using append_file_other[OF a assms(1)] assms(1) by simp
  show ?thesis
    using assms f2 by (auto simp: writeAtomic_def Let_def a node_at_remove split: option.splits)
qed

lemma writeAtomic_states:
  assumes "tmp \<noteq> path" "g \<in> set (wrStates (writeAtomic tmp path b f))"
  shows "node_at g path = node_at f path \<or> node_at g path = Some (FFile b)"
proof -
  obtain e f2 where a: "append_file tmp b (set_node tmp (FFile []) f) = (e, f2)" by (cases "append_file tmp b (set_node tmp (FFile []) f)")
  have f2: "node_at f2 path = node_at f path" using append_file_other[OF a assms(1)[symmetric]] assms(1) by simp
  have b2: "e = None \<Longrightarrow> file_bytes f2 tmp = b" using append_file_None[of tmp b "set_node tmp (FFile []) f" f2] a by simp
  show ?thesis
    using assms f2 b2 by (cases e) (auto simp: writeAtomic_def Let_def a node_at_remove split: option.splits)
qed

lemma writeAtomic_result:
  assumes "tmp \<noteq> path"
  shows "wrErr (writeAtomic tmp path b f) = None \<Longrightarrow>
      node_at (wrFs (writeAtomic tmp path b f)) path = Some (FFile b) \<and> node_at (wrFs (writeAtomic tmp path b f)) tmp = None"
    "wrErr (writeAtomic tmp path b f) \<noteq> None \<Longrightarrow> node_at (wrFs (writeAtomic tmp path b f)) path = node_at f path"
proof -
  obtain e f2 where a: "append_file tmp b (set_node tmp (FFile []) f) = (e, f2)" by (cases "append_file tmp b (set_node tmp (FFile []) f)")
  have f2: "node_at f2 path = node_at f path" using append_file_other[OF a assms(1)[symmetric]] assms(1) by simp
  have b2: "e = None \<Longrightarrow> file_bytes f2 tmp = b" using append_file_None[of tmp b "set_node tmp (FFile []) f" f2] a by simp
  show "wrErr (writeAtomic tmp path b f) = None \<Longrightarrow>
      node_at (wrFs (writeAtomic tmp path b f)) path = Some (FFile b) \<and> node_at (wrFs (writeAtomic tmp path b f)) tmp = None"
    using assms b2 by (cases e) (auto simp: writeAtomic_def Let_def a split: option.splits)
  show "wrErr (writeAtomic tmp path b f) \<noteq> None \<Longrightarrow> node_at (wrFs (writeAtomic tmp path b f)) path = node_at f path"
    using assms f2 by (cases e) (auto simp: writeAtomic_def Let_def a node_at_remove split: option.splits)
qed

text \<open>The renewal point lies inside the certificate's lifetime.\<close>

lemma renewal_point:
  assumes "0 \<le> l" "l < 2 ^ 53" "0 < fr" "fr < 1"
  shows "0 \<le> trunc_rat (fl64 (fl64 (of_int l) * fr))" "trunc_rat (fl64 (fl64 (of_int l) * fr)) \<le> l"
proof -
  have l: "fl64 (of_int l) = of_int l" using assms(1,2) by (rule fl64_of_int)
  have p: "0 \<le> (of_int l :: rat) * fr" using assms by simp
  have "(of_int l :: rat) * fr \<le> of_int l" using assms by (intro mult_left_le) auto
  then have "fl64 (of_int l * fr) \<le> fl64 (of_int l)" using p by (intro fl64_mono)
  then have "fl64 (of_int l * fr) \<le> of_int l" unfolding l .
  moreover have "0 \<le> fl64 (of_int l * fr)" using p by simp
  ultimately show "0 \<le> trunc_rat (fl64 (fl64 (of_int l) * fr))" "trunc_rat (fl64 (fl64 (of_int l) * fr)) \<le> l"
    unfolding l by (simp_all add: trunc_rat_def floor_le_iff)
qed

section \<open>Properties\<close>

definition demo_host_fs :: fs where
  "demo_host_fs = \<lparr>nodes = [(''/k'', FFile ''private''), (''/k-cert.pub'', FFile ''old'')], faults = \<lambda>_ _. None, quota = \<lambda>_. None\<rparr>"

definition demo_renewer :: renewer_config where
  "demo_renewer = \<lparr>rnHasSigner = True, rnHostKeyPath = ''/k'', rnCertOutputPath = ''/k-cert.pub'', rnKeyID = ''host:a'',
     rnPrincipals = [''a''], rnRequestedTTL = 0, rnRenewFraction = 3 / 5, rnMinRenewInterval = minute, rnRetryBackoff = 30 * second\<rparr>"

definition demo_sign :: "sign_host_request \<Rightarrow> sign_response result" where
  "demo_sign req = Inr \<lparr>srCertificate = ''cert of '' @ shPublicKey req, srSerial = 1, srKeyID = shKeyID req,
     srPrincipals = shPrincipals req, srValidAfter = 0, srValidBefore = hour\<rparr>"

text \<open>
  C30. Renewal is atomic. A signing attempt that succeeds leaves exactly the certificate certd returned at
  the output path and notifies once; one that fails at any point, the system calls included, leaves the
  old certificate in place and notifies nobody; and a crash at any moment of the write leaves the old
  certificate or the complete new one, with all other files but the temporary one untouched.\<close>
theorem host_cert_renewal_atomic:
  assumes "SignOnce parse_key sign tmp cfg f = (res, f', calls)" and "tmp \<noteq> rnCertOutputPath cfg"
  shows "(case res of
            Inr v \<Rightarrow> calls = [v] \<and>
              (\<exists>req resp. sign req = Inr resp \<and> srCertificate resp \<noteq> [] \<and> v = (srValidAfter resp, srValidBefore resp) \<and>
                 shPrincipals req = rnPrincipals cfg \<and> shKeyID req = rnKeyID cfg \<and>
                 node_at f' (rnCertOutputPath cfg) = Some (FFile (srCertificate resp)))
          | Inl _ \<Rightarrow> calls = [] \<and> node_at f' (rnCertOutputPath cfg) = node_at f (rnCertOutputPath cfg)) \<and>
    list_all (\<lambda>g. (node_at g (rnCertOutputPath cfg) = node_at f (rnCertOutputPath cfg) \<or>
                   node_at g (rnCertOutputPath cfg) = Some (FFile b)) \<and>
                  (\<forall>q. q \<noteq> tmp \<and> q \<noteq> rnCertOutputPath cfg \<longrightarrow> node_at g q = node_at f q))
      (wrStates (writeAtomic tmp (rnCertOutputPath cfg) b f))"
proof
  show "list_all (\<lambda>g. (node_at g (rnCertOutputPath cfg) = node_at f (rnCertOutputPath cfg) \<or>
                   node_at g (rnCertOutputPath cfg) = Some (FFile b)) \<and>
                  (\<forall>q. q \<noteq> tmp \<and> q \<noteq> rnCertOutputPath cfg \<longrightarrow> node_at g q = node_at f q))
      (wrStates (writeAtomic tmp (rnCertOutputPath cfg) b f))"
    unfolding list_all_iff using writeAtomic_states[OF assms(2)] writeAtomic_other by blast
  show "case res of
            Inr v \<Rightarrow> calls = [v] \<and>
              (\<exists>req resp. sign req = Inr resp \<and> srCertificate resp \<noteq> [] \<and> v = (srValidAfter resp, srValidBefore resp) \<and>
                 shPrincipals req = rnPrincipals cfg \<and> shKeyID req = rnKeyID cfg \<and>
                 node_at f' (rnCertOutputPath cfg) = Some (FFile (srCertificate resp)))
          | Inl _ \<Rightarrow> calls = [] \<and> node_at f' (rnCertOutputPath cfg) = node_at f (rnCertOutputPath cfg)"
  proof (cases "readHostPublicKey parse_key (rnHostKeyPath cfg) f")
    case (Inl e)
    then show ?thesis using assms(1) by (auto simp: SignOnce_def)
  next
    case (Inr pub)
    define req where "req = \<lparr>shPublicKey = pub, shKeyID = rnKeyID cfg, shPrincipals = rnPrincipals cfg, shGroups = [],
      shTTLSeconds = (if rnRequestedTTL cfg > 0 then trunc_rat (Seconds (rnRequestedTTL cfg)) else 0)\<rparr>"
    have req: "shPrincipals req = rnPrincipals cfg" "shKeyID req = rnKeyID cfg" by (simp_all add: req_def)
    have so: "SignOnce parse_key sign tmp cfg f =
      (case sign req of
            Inl e \<Rightarrow> (Inl (Wrap ''sign host cert'' e), f, [])
          | Inr resp \<Rightarrow>
              if srCertificate resp = [] then (Inl (Msg ''certd returned empty certificate''), f, [])
              else
                (case wrErr (writeAtomic tmp (rnCertOutputPath cfg) (srCertificate resp) f) of
                   Some e \<Rightarrow> (Inl (Wrap ''write cert'' e), wrFs (writeAtomic tmp (rnCertOutputPath cfg) (srCertificate resp) f), [])
                 | None \<Rightarrow> (Inr (srValidAfter resp, srValidBefore resp), wrFs (writeAtomic tmp (rnCertOutputPath cfg) (srCertificate resp) f),
                            [(srValidAfter resp, srValidBefore resp)])))"
      unfolding SignOnce_def Inr sum.case Let_def req_def ..
    show ?thesis
    proof (cases "sign req")
      case (Inl e)
      then show ?thesis using assms(1) so by auto
    next
      case (Inr resp)
      note W = writeAtomic_result[OF assms(2), of "srCertificate resp" f]
      show ?thesis
        using assms(1) W Inr req unfolding so
        by (cases "wrErr (writeAtomic tmp (rnCertOutputPath cfg) (srCertificate resp) f)")
          (auto split: if_splits intro!: exI[of _ req] exI[of _ resp])
    qed
  qed
qed

theorem host_cert_renewal_atomic_witness:
  "\<exists>res f' calls. SignOnce (\<lambda>k. Inr ''pub'') demo_sign ''/.hostcert-1.tmp'' demo_renewer demo_host_fs = (res, f', calls) \<and>
     (case res of Inr v \<Rightarrow> calls = [v] | Inl _ \<Rightarrow> calls = [] \<and> node_at f' ''/k-cert.pub'' = node_at demo_host_fs ''/k-cert.pub'')"
proof -
  obtain res f' calls where s: "SignOnce (\<lambda>k. Inr ''pub'') demo_sign ''/.hostcert-1.tmp'' demo_renewer demo_host_fs = (res, f', calls)"
    by (cases "SignOnce (\<lambda>k. Inr ''pub'') demo_sign ''/.hostcert-1.tmp'' demo_renewer demo_host_fs")
  have t: "''/.hostcert-1.tmp'' \<noteq> rnCertOutputPath demo_renewer" "rnCertOutputPath demo_renewer = ''/k-cert.pub''"
    by (simp_all add: demo_renewer_def)
  from conjunct1[OF host_cert_renewal_atomic[OF s t(1)]] s t(2) show ?thesis by (auto split: sum.splits)
qed



text \<open>
  A certificate that is past its renewal point, or expired, is not signed again at once: the loop first
  waits the full minimum interval.
\<close>

lemma expired_cert_waits:
  "0 \<le> vb - va \<Longrightarrow> vb - va < 2 ^ 53 \<Longrightarrow> 0 < rnRenewFraction cfg \<Longrightarrow> rnRenewFraction cfg < 1 \<Longrightarrow> vb \<le> now \<Longrightarrow>
   0 < rnMinRenewInterval cfg \<Longrightarrow> nextRenewalDelay cfg now va vb = rnMinRenewInterval cfg"
proof -
  assume a: "0 \<le> vb - va" "vb - va < 2 ^ 53" "0 < rnRenewFraction cfg" "rnRenewFraction cfg < 1" "vb \<le> now" "0 < rnMinRenewInterval cfg"
  let ?r = "trunc_rat (fl64 (fl64 (of_int (vb - va)) * rnRenewFraction cfg))"
  have l: "time_sub vb va = vb - va" using a(1,2) unfolding time_sub_def by (intro sat64_id) (simp add: int64_defs)
  have "time_sub (va + ?r) now \<le> 0" using renewal_point(2)[OF a(1-4)] a(5) by (simp add: time_sub_def sat64_def int64_defs)
  then show ?thesis using a(6) by (simp add: nextRenewalDelay_def Let_def l)
qed

end
