(* ===== verification/Proxyd_Main.thy ===== *)
theory Proxyd_Main
  imports Ssh_Serve Listener_Serve Portal Host_Cert
begin

text \<open>
  \<^verbatim>\<open>cmd/ssh-proxyd/main.go\<close>: how the gateway is put together from its environment variables. Code of other
  modules (the \<^verbatim>\<open>tokyo3-base\<close> helpers, key parsing and generation, \<^verbatim>\<open>knownhosts\<close>) enters through the record
  \<open>ext\<close>. Logging is left out. An environment maps a name to its value, the empty string when unset.
\<close>

section \<open>Externals\<close>

type_synonym environ = "string \<Rightarrow> string"

record ext =
  xOr :: "environ \<Rightarrow> string \<Rightarrow> string \<Rightarrow> string"
  xFirst :: "environ \<Rightarrow> string list \<Rightarrow> string"
  xParsePrivateKey :: "string \<Rightarrow> signer result"
  xGenerateKey :: "string result"
  xNewSignerFromKey :: "string \<Rightarrow> signer result"
  xParseAuthorizedKey :: "string \<Rightarrow> string result"
  xKnownHosts :: "string \<Rightarrow> host_key_callback result"
  xInsecureIgnoreHostKey :: host_key_callback
  xAuditSink :: "audit_sink result"
  xNatsURL :: string
  xReloader :: "string \<Rightarrow> string \<Rightarrow> string \<Rightarrow> unit result"
  xServerTLS :: "string \<Rightarrow> string \<Rightarrow> string \<Rightarrow> unit result"
  xSessionSource :: "nat option result"
  xAuditSource :: "nat option result"
  xSessionTracker :: "(nat, portal_session) tracker_config \<Rightarrow> nat result"
  xAuditTracker :: "(nat, audit_event) tracker_config \<Rightarrow> nat result"
  xFloatOutOfRange :: "rat \<Rightarrow> int"
  xVersion :: string

definition ReadFile :: "fs \<Rightarrow> string \<Rightarrow> string result" where
  "ReadFile f p =
     (case faults f ''read'' p of
        Some e \<Rightarrow> Inl e
      | None \<Rightarrow> (case node_at f p of Some (FFile c) \<Rightarrow> Inr c | Some FDir \<Rightarrow> Inl (Msg ''is a directory'') | None \<Rightarrow> Inl ErrNotExist))"

section \<open>Keys\<close>

definition loadSSHPrivateKey :: "ext \<Rightarrow> fs \<Rightarrow> string \<Rightarrow> signer result" where
  "loadSSHPrivateKey x f path =
     and_then (wrap_err (''read '' @ path) (ReadFile f path))
       (\<lambda>b. wrap_err (''parse '' @ path) (xParsePrivateKey x b))"

definition loadHostKey :: "ext \<Rightarrow> environ \<Rightarrow> fs \<Rightarrow> signer result" where
  "loadHostKey x env f =
     (if env ''SSH_PROXYD_HOST_KEY'' \<noteq> [] then loadSSHPrivateKey x f (env ''SSH_PROXYD_HOST_KEY'')
      else and_then (wrap_err ''generate ephemeral host key'' (xGenerateKey x)) (xNewSignerFromKey x))"

definition loadUserCA :: "ext \<Rightarrow> environ \<Rightarrow> fs \<Rightarrow> string result" where
  "loadUserCA x env f =
     (let path = env ''SSH_PROXYD_USER_CA'' in
      if path = []
      then Inl (Msg ''SSH_PROXYD_USER_CA is required (path to the user CA public key in authorized_keys format)'')
      else and_then (wrap_err (''read '' @ path) (ReadFile f path))
             (\<lambda>b. wrap_err (''parse '' @ path) (xParseAuthorizedKey x b)))"

definition loadTargetHostKeyCallback :: "ext \<Rightarrow> environ \<Rightarrow> host_key_callback result" where
  "loadTargetHostKeyCallback x env =
     (let path = env ''SSH_PROXYD_TARGET_KNOWN_HOSTS'' in
      if path \<noteq> [] then wrap_err (''load '' @ path) (xKnownHosts x path)
      else Inr (xInsecureIgnoreHostKey x))"

section \<open>Minting session certificates\<close>

text \<open>
  What one call of the minter meets: the fresh key pair, its public line, a new UUID, certd's answer, and
  the wrapping of the returned certificate.
\<close>

record mint_env =
  meGenerateKey :: "string result"
  meAuthorizedLine :: "string \<Rightarrow> string result"
  meUUID :: string
  mePost :: "cert_client \<Rightarrow> string \<Rightarrow> sign_user_request \<Rightarrow> sign_response result"
  meParseAuthorizedKey :: "string \<Rightarrow> pubkey result"
  meNewSigner :: "string \<Rightarrow> signer result"
  meNewCertSigner :: "certificate \<Rightarrow> signer \<Rightarrow> signer result"

fun trim_newlines :: "string \<Rightarrow> string" where
  "trim_newlines s = (if s \<noteq> [] \<and> last s = CHR 0x0A then trim_newlines (butlast s) else s)"

declare trim_newlines.simps [simp del]

definition session_request :: "int \<Rightarrow> string \<Rightarrow> string \<Rightarrow> string \<Rightarrow> sign_user_request" where
  "session_request ttl pubAuth uid prin =
     \<lparr>suPublicKey = pubAuth, suKeyID = ''session:'' @ uid @ '':principal:'' @ prin, suPrincipals = [prin],
      suGroups = [], suExtensions = Map.empty, suCriticalOptions = Map.empty, suTTLSeconds = ttl\<rparr>"

definition mint :: "cert_client \<Rightarrow> int \<Rightarrow> mint_env \<Rightarrow> string \<Rightarrow> signer result" where
  "mint client ttl m prin =
     and_then (wrap_err ''generate session key'' (meGenerateKey m)) (\<lambda>priv.
     and_then (wrap_err ''wrap session pubkey'' (meAuthorizedLine m priv)) (\<lambda>line.
     and_then (wrap_err ''certd sign-user''
         (SignUserCert (mePost m) client (session_request ttl (trim_newlines line) (meUUID m) prin))) (\<lambda>resp.
     and_then (wrap_err ''parse minted cert'' (meParseAuthorizedKey m (srCertificate resp))) (\<lambda>parsed.
       (case parsed of
          PlainKey _ \<Rightarrow> Inl (Msg ''certd response is not a Certificate'')
        | CertKey cert \<Rightarrow>
            and_then (wrap_err ''wrap session private key'' (meNewSigner m priv)) (\<lambda>base.
            wrap_err ''build cert signer'' (meNewCertSigner m cert base)))))))"

text \<open>A setting that must be a positive \<^verbatim>\<open>int64\<close>; the error text leaves the quoted value out.\<close>

definition positive_env :: "environ \<Rightarrow> string \<Rightarrow> int \<Rightarrow> int result" where
  "positive_env env name dflt =
     (let v = env name in
      if v = [] then Inr dflt
      else case ParseInt v of
        None \<Rightarrow> Inl (Msg (name @ '': must be positive integer''))
      | Some n \<Rightarrow> if n \<le> 0 then Inl (Msg (name @ '': must be positive integer'')) else Inr n)"

definition newCertdMinter :: "environ \<Rightarrow> string \<Rightarrow> (mint_env \<Rightarrow> string \<Rightarrow> signer result) result" where
  "newCertdMinter env certdURL =
     and_then (NewClient certdURL True) (\<lambda>client.
     and_then (positive_env env ''CERTD_SESSION_TTL_SECONDS'' 300) (\<lambda>ttl. Inr (mint client ttl)))"

definition loadClientSignerFunc ::
  "ext \<Rightarrow> environ \<Rightarrow> fs \<Rightarrow> bool \<Rightarrow> (mint_env \<Rightarrow> string \<Rightarrow> signer result) result" where
  "loadClientSignerFunc x env f hasReloader =
     (if env ''CERTD_URL'' \<noteq> [] then
        (if \<not> hasReloader then Inl (Msg ''certd-client reloader is required when CERTD_URL is set'')
         else newCertdMinter env (env ''CERTD_URL''))
      else if env ''SSH_PROXYD_CLIENT_KEY'' = []
      then Inl (Msg ''either CERTD_URL or SSH_PROXYD_CLIENT_KEY is required for target-side authentication'')
      else and_then (loadSSHPrivateKey x f (env ''SSH_PROXYD_CLIENT_KEY'')) (\<lambda>s. Inr (\<lambda>_. StaticSigner s)))"

section \<open>Revocations\<close>

definition DefaultRevocationPollInterval :: duration where
  "DefaultRevocationPollInterval = 30 * second"

text \<open>A nil \<^verbatim>\<open>*PollingChecker\<close> is \<^const>\<open>None\<close>.\<close>

definition buildRevocationChecker :: "environ \<Rightarrow> bool \<Rightarrow> polling_checker option result" where
  "buildRevocationChecker env hasReloader =
     (let url = env ''CERTD_REVOCATIONS_URL'' in
      if url = [] then Inr None
      else if \<not> hasReloader then Inl (Msg ''certd-client reloader is required when CERTD_REVOCATIONS_URL is set'')
      else
        and_then
          (if env ''CERTD_REVOCATIONS_POLL_SECONDS'' = [] then Inr DefaultRevocationPollInterval
           else and_then (positive_env env ''CERTD_REVOCATIONS_POLL_SECONDS'' 0) (\<lambda>n. Inr (wrap64 (n * second))))
          (\<lambda>period. and_then (NewPollingChecker \<lparr>rc_url = url, rc_poll_interval = period, rc_http_timeout = 0\<rparr>)
            (\<lambda>(p, _). Inr (Some p))))"

text \<open>
  The field \<^verbatim>\<open>Revocations\<close> is an interface: nil, or a pointer with its type. Storing a pointer in it gives the
  second form even when the pointer is nil. The callback of \<^verbatim>\<open>publicKeyCallback\<close> compares the interface with nil
  and then calls \<^verbatim>\<open>IsRevoked\<close>, which locks a mutex behind the pointer; \<^const>\<open>None\<close> is the panic when there is none.
\<close>

datatype checker = NilChecker | PollingPtr "polling_checker option"

definition callback_IsRevoked :: "checker \<Rightarrow> certificate \<Rightarrow> bool option" where
  "callback_IsRevoked c cert =
     (case c of
        NilChecker \<Rightarrow> Some False
      | PollingPtr None \<Rightarrow> None
      | PollingPtr (Some p) \<Rightarrow> Some (IsRevoked p (Some cert)))"

section \<open>Tunnels, recording and the portal\<close>

definition buildTunnelServerTLS :: "ext \<Rightarrow> environ \<Rightarrow> unit option result" where
  "buildTunnelServerTLS x env =
     (if env ''SSH_PROXYD_TUNNEL_ADDR'' = [] then Inr None
      else
        let certFile = env ''SSH_PROXYD_TUNNEL_TLS_CERT''; keyFile = env ''SSH_PROXYD_TUNNEL_TLS_KEY'';
            caFile = xFirst x env [''SSH_PROXYD_TUNNEL_CLIENT_CA'', ''SSH_PROXYD_WORKLOAD_CA''] in
        if certFile = [] \<or> keyFile = [] \<or> caFile = []
        then Inl (Msg ''SSH_PROXYD_TUNNEL_TLS_CERT/_KEY and a tunnel client CA are required when SSH_PROXYD_TUNNEL_ADDR is set'')
        else and_then (xServerTLS x certFile keyFile caFile) (\<lambda>u. Inr (Some u)))"

definition buildTunnelListener :: "environ \<Rightarrow> bool \<Rightarrow> listener_config option result" where
  "buildTunnelListener env hasTLS =
     (if env ''SSH_PROXYD_TUNNEL_ADDR'' = [] then Inr None
      else if \<not> hasTLS then Inl (Msg ''tunnel server TLS config is required when SSH_PROXYD_TUNNEL_ADDR is set'')
      else and_then (NewListener \<lparr>lc_addr = env ''SSH_PROXYD_TUNNEL_ADDR'', lc_tls = True, lc_registry = True, lc_extractor = None\<rparr>)
             (\<lambda>l. Inr (Some l)))"

definition loadRecordingSink :: "environ \<Rightarrow> string result \<Rightarrow> fs \<Rightarrow> local_dir_sink option result \<times> fs" where
  "loadRecordingSink env cwd f =
     (if env ''SSH_PROXYD_CAST_DIR'' = [] then (Inr None, f)
      else case NewLocalDirSink (env ''SSH_PROXYD_CAST_DIR'') cwd f of
        (r, f') \<Rightarrow> (and_then (wrap_err ''local cast dir'' r) (\<lambda>s. Inr (Some s)), f'))"

definition newSessionTracker :: "ext \<Rightarrow> nat option \<Rightarrow> nat option result" where
  "newSessionTracker x source =
     (if source = None then Inr None
      else and_then (NewSessionTracker (xSessionTracker x) (xFloatOutOfRange x) source 0) (\<lambda>t. Inr (Some t)))"

definition newAuditTracker :: "ext \<Rightarrow> nat option \<Rightarrow> nat option result" where
  "newAuditTracker x source =
     (if source = None then Inr None
      else and_then (NewAuditTracker (xAuditTracker x) source 0) (\<lambda>t. Inr (Some t)))"

definition loadPortalCastStore :: "environ \<Rightarrow> string result \<Rightarrow> links \<Rightarrow> fs \<Rightarrow> local_cast_store option result" where
  "loadPortalCastStore env cwd lk f =
     (if env ''SSH_PROXYD_CAST_DIR'' = [] then Inr None
      else and_then (wrap_err ''portal cast store'' (NewLocalCastStore (env ''SSH_PROXYD_CAST_DIR'') cwd lk f)) (\<lambda>s. Inr (Some s)))"


section \<open>Start-up\<close>

text \<open>The certd client's TLS holder, when either certd surface is configured.\<close>

definition certdReloader :: "ext \<Rightarrow> environ \<Rightarrow> bool result" where
  "certdReloader x env =
     (if env ''CERTD_URL'' \<noteq> [] \<or> env ''CERTD_REVOCATIONS_URL'' \<noteq> [] then
        (if env ''CERTD_MTLS_CERT'' = [] \<or> env ''CERTD_MTLS_KEY'' = []
         then Inl (Msg ''CERTD_MTLS_CERT and CERTD_MTLS_KEY are required when CERTD_URL is set'')
         else and_then (wrap_err ''certd-client tls'' (xReloader x (env ''CERTD_MTLS_CERT'') (env ''CERTD_MTLS_KEY'') (env ''CERTD_CA_BUNDLE'')))
                (\<lambda>_. Inr True))
      else Inr False)"

record portal_wiring =
  pwAddr :: string
  pwSessions :: "nat option"
  pwAudit :: "nat option"
  pwCasts :: "local_cast_store option"
  pwService :: portal_server
  pwUsername :: string
  pwPassword :: string

text \<open>The portal's service is built over trackers that hold no rows yet and over the disk of the start.\<close>

definition setup_portal :: "ext \<Rightarrow> environ \<Rightarrow> string result \<Rightarrow> links \<Rightarrow> fs \<Rightarrow> portal_wiring option result" where
  "setup_portal x env cwd lk f =
     (if env ''SSH_PROXYD_PORTAL_ADDR'' = [] then Inr None
      else
        and_then
          (if xNatsURL x = [] then Inr (None, None)
           else
             and_then (wrap_err ''portal session source'' (xSessionSource x)) (\<lambda>src.
             and_then (wrap_err ''portal session tracker'' (newSessionTracker x src)) (\<lambda>st.
             and_then (wrap_err ''portal audit source'' (xAuditSource x)) (\<lambda>asrc.
             and_then (wrap_err ''portal audit tracker'' (newAuditTracker x asrc)) (\<lambda>at'. Inr (st, at'))))))
          (\<lambda>(st, at').
             and_then (wrap_err ''portal cast store'' (loadPortalCastStore env cwd lk f)) (\<lambda>casts.
             and_then (wrap_err ''portal'' (portal_New
               \<lparr>ptVersion = xVersion x, ptSessionStore = map_option (\<lambda>_. []) st,
                ptCastStore = map_option (\<lambda>c. cast_Open c cwd lk f) casts, ptAuditStore = map_option (\<lambda>_. []) at'\<rparr>)) (\<lambda>svc.
             Inr (Some \<lparr>pwAddr = env ''SSH_PROXYD_PORTAL_ADDR'', pwSessions = st, pwAudit = at', pwCasts = casts, pwService = svc,
                        pwUsername = env ''SSH_PROXYD_PORTAL_USERNAME'', pwPassword = env ''SSH_PROXYD_PORTAL_PASSWORD''\<rparr>)))))"

text \<open>
  The background loops of a start and what is handed to \<^verbatim>\<open>run.Group\<close>: the server's configuration (with the interface value of its revocation
  checker kept beside it), the tunnel listener and the portal. The minter's environment \<open>m\<close> is that of one
  call.
\<close>

record wiring =
  wiServer :: ssh_config
  wiSigner :: "mint_env \<Rightarrow> string \<Rightarrow> signer result"
  wiChecker :: checker
  wiListener :: "listener_config option"
  wiPortal :: "portal_wiring option"
  wiPollers :: "string list"
  wiComponents :: "string list"

definition pollers :: "polling_checker option \<Rightarrow> portal_wiring option \<Rightarrow> bool \<Rightarrow> string list" where
  "pollers revocations portal reloader =
     (if revocations \<noteq> None then [''revocation-poller''] else []) @
     (case portal of None \<Rightarrow> []
      | Some pw \<Rightarrow> (if pwSessions pw \<noteq> None then [''session-tracker''] else []) @ (if pwAudit pw \<noteq> None then [''audit-tracker''] else [])) @
     (if reloader then [''certd-ca-poller''] else [])"

definition runServe :: "ext \<Rightarrow> environ \<Rightarrow> string result \<Rightarrow> links \<Rightarrow> mint_env \<Rightarrow> fs \<Rightarrow> wiring result \<times> fs" where
  "runServe x env cwd lk m f =
     (case loadRecordingSink env cwd f of (sinkRes, f1) \<Rightarrow>
        let early = and_then (wrap_err ''host key'' (loadHostKey x env f)) (\<lambda>hostSigner.
              and_then (wrap_err ''user ca'' (loadUserCA x env f)) (\<lambda>userCA.
              and_then (wrap_err ''target host key callback'' (loadTargetHostKeyCallback x env)) (\<lambda>cb.
              Inr (hostSigner, userCA, cb)))) in
        case early of
          Inl e \<Rightarrow> (Inl e, f)
        | Inr (hostSigner, userCA, cb) \<Rightarrow>
            (and_then (wrap_err ''recording sink'' sinkRes) (\<lambda>sink.
             and_then (wrap_err ''audit sink'' (xAuditSink x)) (\<lambda>auditSink.
             and_then (certdReloader x env) (\<lambda>reloader.
             and_then (wrap_err ''tunnel-server tls'' (buildTunnelServerTLS x env)) (\<lambda>tls.
             and_then (wrap_err ''client signer'' (loadClientSignerFunc x env f1 reloader)) (\<lambda>signerFunc.
             and_then (wrap_err ''tunnel listener'' (buildTunnelListener env (tls \<noteq> None))) (\<lambda>listener.
             and_then (wrap_err ''revocation checker'' (buildRevocationChecker env reloader)) (\<lambda>revocations.
             and_then (wrap_err ''ssh server'' (ssh_New
               \<lparr>scAddr = xOr x env ''SSH_PROXYD_ADDR'' '':2222'', scHostSigner = Some hostSigner, scTrustedUserCA = Some userCA,
                scClientSigner = Some (signerFunc m), scTargetHostKey = Some cb,
                scRecordingSink = map_option LocalDirSink sink, scAudit = Some auditSink, scTunnels = (listener \<noteq> None),
                scRevocations = (case revocations of None \<Rightarrow> None | Some p \<Rightarrow> Some (IsRevoked p)), scHandshakeTimeout = 0\<rparr>)) (\<lambda>srv.
             and_then (setup_portal x env cwd lk f1) (\<lambda>portal.
             Inr \<lparr>wiServer = srv, wiSigner = signerFunc, wiChecker = PollingPtr revocations, wiListener = listener, wiPortal = portal,
                  wiPollers = pollers revocations portal reloader, wiComponents = [''ssh''] @ (if listener = None then [] else [''tunnel'']) @ (if portal = None then [] else [''portal''])\<rparr>))))))))), f1))"

text \<open>\<^verbatim>\<open>run.Group\<close> runs the components until the first exits; its result is the parameter \<open>run_group\<close>.\<close>

definition run_serve :: "(wiring \<Rightarrow> unit result) \<Rightarrow> wiring result \<Rightarrow> unit result" where
  "run_serve run_group started = and_then started (\<lambda>w. wrap_err ''serve'' (run_group w))"

section \<open>What a started gateway is made of\<close>

lemma runServe_started:
  assumes "runServe x env cwd lk m f = (Inr w, f1)"
  obtains hostSigner userCA cb sink auditSink reloader tls signerFunc listener revocations portal where
    "loadHostKey x env f = Inr hostSigner" "loadUserCA x env f = Inr userCA" "loadTargetHostKeyCallback x env = Inr cb"
    "loadRecordingSink env cwd f = (Inr sink, f1)" "xAuditSink x = Inr auditSink" "certdReloader x env = Inr reloader"
    "buildTunnelServerTLS x env = Inr tls" "loadClientSignerFunc x env f1 reloader = Inr signerFunc"
    "buildTunnelListener env (tls \<noteq> None) = Inr listener" "buildRevocationChecker env reloader = Inr revocations"
    "setup_portal x env cwd lk f1 = Inr portal"
    "ssh_New \<lparr>scAddr = xOr x env ''SSH_PROXYD_ADDR'' '':2222'', scHostSigner = Some hostSigner, scTrustedUserCA = Some userCA,
                scClientSigner = Some (signerFunc m), scTargetHostKey = Some cb,
                scRecordingSink = map_option LocalDirSink sink, scAudit = Some auditSink, scTunnels = (listener \<noteq> None),
                scRevocations = (case revocations of None \<Rightarrow> None | Some p \<Rightarrow> Some (IsRevoked p)), scHandshakeTimeout = 0\<rparr> = Inr (wiServer w)"
    "wiSigner w = signerFunc" "wiChecker w = PollingPtr revocations" "wiListener w = listener" "wiPortal w = portal"
    "wiPollers w = pollers revocations portal reloader"
proof -
  obtain sinkRes f' where s: "loadRecordingSink env cwd f = (sinkRes, f')" by (cases "loadRecordingSink env cwd f")
  obtain hostSigner userCA cb where e: "loadHostKey x env f = Inr hostSigner" "loadUserCA x env f = Inr userCA"
    "loadTargetHostKeyCallback x env = Inr cb"
    using assms by (cases "loadHostKey x env f"; cases "loadUserCA x env f"; cases "loadTargetHostKeyCallback x env")
      (auto simp: runServe_def s Let_def)
  show ?thesis
    using assms by (clarsimp simp: runServe_def s Let_def e and_then_Inr) (rule that[OF e], (assumption | simp add: s)+)
qed

lemma ssh_New_Inr:
  "ssh_New cfg = Inr srv \<Longrightarrow> srv = cfg\<lparr>scHandshakeTimeout := (if scHandshakeTimeout cfg = 0 then 30 * second else scHandshakeTimeout cfg)\<rparr>"
  by (auto simp: ssh_New_def split: if_splits)

lemma positive_env_Inr:
  assumes "positive_env env name d = Inr n" "0 < d" "in_int64 d"
  shows "0 < n \<and> in_int64 n"
  using assms by (auto simp: positive_env_def ParseInt_def Let_def split: if_splits option.splits)

lemma loadUserCA_Inr:
  "loadUserCA x env f = Inr ca \<longleftrightarrow> env ''SSH_PROXYD_USER_CA'' \<noteq> [] \<and>
     (\<exists>b. ReadFile f (env ''SSH_PROXYD_USER_CA'') = Inr b \<and> xParseAuthorizedKey x b = Inr ca)"
  by (auto simp: loadUserCA_def Let_def and_then_Inr)

lemma buildTunnel_Inr:
  assumes "buildTunnelServerTLS x env = Inr tls" "buildTunnelListener env (tls \<noteq> None) = Inr listener"
  shows "if env ''SSH_PROXYD_TUNNEL_ADDR'' = [] then listener = None
         else env ''SSH_PROXYD_TUNNEL_TLS_CERT'' \<noteq> [] \<and> env ''SSH_PROXYD_TUNNEL_TLS_KEY'' \<noteq> [] \<and>
           xFirst x env [''SSH_PROXYD_TUNNEL_CLIENT_CA'', ''SSH_PROXYD_WORKLOAD_CA''] \<noteq> [] \<and>
           (\<exists>l. listener = Some l \<and> lc_addr l = env ''SSH_PROXYD_TUNNEL_ADDR'' \<and> lc_tls l \<and> lc_extractor l = Some defaultHostExtractor)"
proof (cases "env ''SSH_PROXYD_TUNNEL_ADDR'' = []")
  case False
  then have "tls \<noteq> None" using assms(2) by (auto simp: buildTunnelListener_def split: if_split_asm)
  with False assms show ?thesis
    by (clarsimp simp: buildTunnelServerTLS_def buildTunnelListener_def NewListener_def Let_def and_then_Inr
        simp del: not_None_eq split: if_split_asm)
qed (use assms in \<open>simp add: buildTunnelListener_def\<close>)

lemma certdReloader_Inr:
  "certdReloader x env = Inr r \<Longrightarrow>
   r = (env ''CERTD_URL'' \<noteq> [] \<or> env ''CERTD_REVOCATIONS_URL'' \<noteq> []) \<and>
   (r \<longrightarrow> env ''CERTD_MTLS_CERT'' \<noteq> [] \<and> env ''CERTD_MTLS_KEY'' \<noteq> [])"
  by (auto simp: certdReloader_def and_then_Inr split: if_splits)

lemma loadRecordingSink_Inr:
  assumes "loadRecordingSink env cwd f = (Inr sink, f1)"
  shows "if env ''SSH_PROXYD_CAST_DIR'' = [] then sink = None
         else \<exists>ap. abs_or cwd (env ''SSH_PROXYD_CAST_DIR'') = Inr ap \<and> sink = Some \<lparr>sink_root = ap\<rparr>"
  using assms
  by (auto simp: loadRecordingSink_def NewLocalDirSink_def and_then_Inr split: if_splits sum.splits prod.splits option.splits)

lemma setup_portal_casts:
  assumes "setup_portal x env cwd lk f = Inr (Some pw)" "pwCasts pw = Some st"
  shows "NewLocalCastStore (env ''SSH_PROXYD_CAST_DIR'') cwd lk f = Inr st \<and> env ''SSH_PROXYD_CAST_DIR'' \<noteq> []"
  using assms by (auto simp: setup_portal_def loadPortalCastStore_def and_then_Inr split: if_splits)

lemma buildRevocationChecker_Inr:
  "buildRevocationChecker env r = Inr c \<Longrightarrow> c = None \<longleftrightarrow> env ''CERTD_REVOCATIONS_URL'' = []"
  by (auto simp: buildRevocationChecker_def Let_def and_then_Inr split: if_split_asm)

lemma setup_portal_stores:
  "setup_portal x env cwd lk f = Inr (Some pw) \<Longrightarrow>
   (ptSessionStore (svCfg (pwService pw)) = None \<longleftrightarrow> pwSessions pw = None) \<and> (ptAuditStore (svCfg (pwService pw)) = None \<longleftrightarrow> pwAudit pw = None)"
  by (auto simp: setup_portal_def and_then_Inr split: if_split_asm dest: portal_New_pages(1))

lemma started_pollers:
  "buildRevocationChecker env reloader = Inr revocations \<Longrightarrow>
     ''revocation-poller'' \<in> set (pollers revocations portal reloader) \<longleftrightarrow> env ''CERTD_REVOCATIONS_URL'' \<noteq> []"
  "''certd-ca-poller'' \<in> set (pollers revocations portal reloader) \<longleftrightarrow> reloader"
  by (auto simp: pollers_def dest: buildRevocationChecker_Inr split: option.splits)

lemma NewLocalCastStore_resolves:
  "NewLocalCastStore rt cwd lk f = Inr st \<Longrightarrow> abs_or cwd rt = Inr ap \<Longrightarrow> EvalSymlinks f lk ap = Inr (store_root st)"
  by (auto simp: NewLocalCastStore_def split: if_splits sum.splits fs_node.splits)

lemma loadClientSignerFunc_Inr:
  assumes "loadClientSignerFunc x env f r = Inr s"
  shows "(env ''CERTD_URL'' \<noteq> [] \<and> newCertdMinter env (env ''CERTD_URL'') = Inr s) \<or>
         (env ''CERTD_URL'' = [] \<and> env ''SSH_PROXYD_CLIENT_KEY'' \<noteq> [] \<and>
          (\<exists>k. loadSSHPrivateKey x f (env ''SSH_PROXYD_CLIENT_KEY'') = Inr k \<and> s = (\<lambda>_. StaticSigner k)))"
  using assms by (auto simp: loadClientSignerFunc_def and_then_Inr split: if_splits)

text \<open>
  C37. The gateway starts closed or not at all. A process that comes up trusts exactly the certificate
  authority parsed from the file SSH_PROXYD_USER_CA names, and always has a signer for targets: the certd
  minter when CERTD_URL is set (static keys are then ignored), else the static key. With any certd URL it
  holds the client certificate and key for it. Tunnels are served iff SSH_PROXYD_TUNNEL_ADDR is set, and
  then only over TLS with a client CA and the SPIFFE extractor. The recorder writes below the absolute form
  of SSH_PROXYD_CAST_DIR and the portal's cast store is rooted at what that very path resolves to. Every
  handshake has a deadline of 30 seconds. The revocation poller runs exactly when a revocations URL is set,
  the certd CA poller when any certd URL is, and a portal whose session list or audit viewer is wired has
  its tracker running.\<close>
theorem startup_fail_closed:
  assumes "runServe x env cwd lk m f = (Inr w, f1)"
  shows "(\<exists>b ca. env ''SSH_PROXYD_USER_CA'' \<noteq> [] \<and> ReadFile f (env ''SSH_PROXYD_USER_CA'') = Inr b \<and>
           xParseAuthorizedKey x b = Inr ca \<and> scTrustedUserCA (wiServer w) = Some ca) \<and>
    scClientSigner (wiServer w) = Some (wiSigner w m) \<and>
    (if env ''CERTD_URL'' \<noteq> [] then newCertdMinter env (env ''CERTD_URL'') = Inr (wiSigner w)
     else \<exists>k. loadSSHPrivateKey x f1 (env ''SSH_PROXYD_CLIENT_KEY'') = Inr k \<and> wiSigner w = (\<lambda>_. StaticSigner k)) \<and>
    (env ''CERTD_URL'' \<noteq> [] \<or> env ''CERTD_REVOCATIONS_URL'' \<noteq> [] \<longrightarrow> env ''CERTD_MTLS_CERT'' \<noteq> [] \<and> env ''CERTD_MTLS_KEY'' \<noteq> []) \<and>
    (if env ''SSH_PROXYD_TUNNEL_ADDR'' = [] then wiListener w = None \<and> \<not> scTunnels (wiServer w)
     else scTunnels (wiServer w) \<and> env ''SSH_PROXYD_TUNNEL_TLS_CERT'' \<noteq> [] \<and> env ''SSH_PROXYD_TUNNEL_TLS_KEY'' \<noteq> [] \<and>
       xFirst x env [''SSH_PROXYD_TUNNEL_CLIENT_CA'', ''SSH_PROXYD_WORKLOAD_CA''] \<noteq> [] \<and>
       (\<exists>l. wiListener w = Some l \<and> lc_tls l \<and> lc_extractor l = Some defaultHostExtractor)) \<and>
    (if env ''SSH_PROXYD_CAST_DIR'' = [] then scRecordingSink (wiServer w) = None
     else \<exists>ap. abs_or cwd (env ''SSH_PROXYD_CAST_DIR'') = Inr ap \<and> scRecordingSink (wiServer w) = Some (LocalDirSink \<lparr>sink_root = ap\<rparr>) \<and>
       (\<forall>pw st. wiPortal w = Some pw \<and> pwCasts pw = Some st \<longrightarrow> EvalSymlinks f1 lk ap = Inr (store_root st))) \<and>
    scHandshakeTimeout (wiServer w) = 30 * second \<and>
    (''revocation-poller'' \<in> set (wiPollers w) \<longleftrightarrow> env ''CERTD_REVOCATIONS_URL'' \<noteq> []) \<and>
    (''certd-ca-poller'' \<in> set (wiPollers w) \<longleftrightarrow> env ''CERTD_URL'' \<noteq> [] \<or> env ''CERTD_REVOCATIONS_URL'' \<noteq> []) \<and>
    (\<forall>pw. wiPortal w = Some pw \<longrightarrow>
      (''session-tracker'' \<in> set (wiPollers w) \<longleftrightarrow> ptSessionStore (svCfg (pwService pw)) \<noteq> None) \<and>
      (''audit-tracker'' \<in> set (wiPollers w) \<longleftrightarrow> ptAuditStore (svCfg (pwService pw)) \<noteq> None))"
proof -
  from assms obtain hostSigner userCA cb sink auditSink reloader tls signerFunc listener revocations portal where
    p: "loadUserCA x env f = Inr userCA" "loadRecordingSink env cwd f = (Inr sink, f1)" "certdReloader x env = Inr reloader"
    "buildTunnelServerTLS x env = Inr tls" "loadClientSignerFunc x env f1 reloader = Inr signerFunc"
    "buildTunnelListener env (tls \<noteq> None) = Inr listener" "setup_portal x env cwd lk f1 = Inr portal"
    "buildRevocationChecker env reloader = Inr revocations"
    and srv: "wiServer w = \<lparr>scAddr = xOr x env ''SSH_PROXYD_ADDR'' '':2222'', scHostSigner = Some hostSigner, scTrustedUserCA = Some userCA,
                scClientSigner = Some (signerFunc m), scTargetHostKey = Some cb,
                scRecordingSink = map_option LocalDirSink sink, scAudit = Some auditSink, scTunnels = (listener \<noteq> None),
                scRevocations = (case revocations of None \<Rightarrow> None | Some p \<Rightarrow> Some (IsRevoked p)), scHandshakeTimeout = 30 * second\<rparr>"
    and w: "wiSigner w = signerFunc" "wiListener w = listener" "wiPortal w = portal" "wiPollers w = pollers revocations portal reloader"
    by (rule runServe_started) (auto dest: ssh_New_Inr)
  have casts: "EvalSymlinks f1 lk ap = Inr (store_root st)"
    if "abs_or cwd (env ''SSH_PROXYD_CAST_DIR'') = Inr ap" "wiPortal w = Some pw" "pwCasts pw = Some st" for ap pw st
    using setup_portal_casts[of x env cwd lk f1 pw st] NewLocalCastStore_resolves that w(3) p(7) by auto
  have "\<exists>b ca. env ''SSH_PROXYD_USER_CA'' \<noteq> [] \<and> ReadFile f (env ''SSH_PROXYD_USER_CA'') = Inr b \<and>
           xParseAuthorizedKey x b = Inr ca \<and> scTrustedUserCA (wiServer w) = Some ca"
    using p(1) srv by (auto simp: loadUserCA_Inr)
  moreover have "scClientSigner (wiServer w) = Some (wiSigner w m)" "scHandshakeTimeout (wiServer w) = 30 * second"
    using srv w by simp_all
  moreover have "if env ''CERTD_URL'' \<noteq> [] then newCertdMinter env (env ''CERTD_URL'') = Inr (wiSigner w)
     else \<exists>k. loadSSHPrivateKey x f1 (env ''SSH_PROXYD_CLIENT_KEY'') = Inr k \<and> wiSigner w = (\<lambda>_. StaticSigner k)"
    using loadClientSignerFunc_Inr[OF p(5)] w(1) by auto
  moreover have "env ''CERTD_URL'' \<noteq> [] \<or> env ''CERTD_REVOCATIONS_URL'' \<noteq> [] \<longrightarrow> env ''CERTD_MTLS_CERT'' \<noteq> [] \<and> env ''CERTD_MTLS_KEY'' \<noteq> []"
    using certdReloader_Inr[OF p(3)] by blast
  moreover have "if env ''SSH_PROXYD_TUNNEL_ADDR'' = [] then wiListener w = None \<and> \<not> scTunnels (wiServer w)
     else scTunnels (wiServer w) \<and> env ''SSH_PROXYD_TUNNEL_TLS_CERT'' \<noteq> [] \<and> env ''SSH_PROXYD_TUNNEL_TLS_KEY'' \<noteq> [] \<and>
       xFirst x env [''SSH_PROXYD_TUNNEL_CLIENT_CA'', ''SSH_PROXYD_WORKLOAD_CA''] \<noteq> [] \<and>
       (\<exists>l. wiListener w = Some l \<and> lc_tls l \<and> lc_extractor l = Some defaultHostExtractor)"
    using buildTunnel_Inr[OF p(4,6)] srv w(2) by (simp split: if_split_asm) blast
  moreover have "if env ''SSH_PROXYD_CAST_DIR'' = [] then scRecordingSink (wiServer w) = None
     else \<exists>ap. abs_or cwd (env ''SSH_PROXYD_CAST_DIR'') = Inr ap \<and> scRecordingSink (wiServer w) = Some (LocalDirSink \<lparr>sink_root = ap\<rparr>) \<and>
       (\<forall>pw st. wiPortal w = Some pw \<and> pwCasts pw = Some st \<longrightarrow> EvalSymlinks f1 lk ap = Inr (store_root st))"
    using loadRecordingSink_Inr[OF p(2)] srv casts by (auto split: if_split_asm)
  moreover have "''revocation-poller'' \<in> set (wiPollers w) \<longleftrightarrow> env ''CERTD_REVOCATIONS_URL'' \<noteq> []"
    using started_pollers(1)[OF p(8)] w(4) by simp
  moreover have "''certd-ca-poller'' \<in> set (wiPollers w) \<longleftrightarrow> env ''CERTD_URL'' \<noteq> [] \<or> env ''CERTD_REVOCATIONS_URL'' \<noteq> []"
    using started_pollers(2) certdReloader_Inr[OF p(3)] w(4) by simp
  moreover have "\<forall>pw. wiPortal w = Some pw \<longrightarrow>
      (''session-tracker'' \<in> set (wiPollers w) \<longleftrightarrow> ptSessionStore (svCfg (pwService pw)) \<noteq> None) \<and>
      (''audit-tracker'' \<in> set (wiPollers w) \<longleftrightarrow> ptAuditStore (svCfg (pwService pw)) \<noteq> None)"
    using setup_portal_stores[of x env cwd lk f1] p(7) w(3,4) by (simp add: pollers_def)
  ultimately show ?thesis by blast
qed

definition demo_ext :: ext where
  "demo_ext = \<lparr>xOr = \<lambda>env k d. if env k = [] then d else env k, xFirst = \<lambda>env ks. concat (map env ks),
     xParsePrivateKey = \<lambda>_. Inr 1, xGenerateKey = Inr ''priv'', xNewSignerFromKey = \<lambda>_. Inr 2, xParseAuthorizedKey = \<lambda>b. Inr b,
     xKnownHosts = \<lambda>_. Inr 3, xInsecureIgnoreHostKey = 4, xAuditSink = Inr NoopSink, xNatsURL = [],
     xReloader = \<lambda>_ _ _. Inr (), xServerTLS = \<lambda>_ _ _. Inr (), xSessionSource = Inr None, xAuditSource = Inr None,
     xSessionTracker = \<lambda>_. Inr 5, xAuditTracker = \<lambda>_. Inr 6, xFloatOutOfRange = \<lambda>_. min_int64,
     xVersion = ''v1''\<rparr>"

definition demo_env :: environ where
  "demo_env k = (if k = ''SSH_PROXYD_USER_CA'' then ''/ca'' else if k = ''SSH_PROXYD_CLIENT_KEY'' then ''/ck'' else [])"

definition demo_disk :: fs where
  "demo_disk = demo_fs\<lparr>nodes := [(''/ca'', FFile ''authority''), (''/ck'', FFile ''key'')]\<rparr>"

definition demo_mint :: mint_env where
  "demo_mint = \<lparr>meGenerateKey = Inr ''k'', meAuthorizedLine = \<lambda>k. Inr (''ssh-ed25519 '' @ k @ [CHR 0x0A]), meUUID = ''u-1'',
     mePost = \<lambda>_ _ r. Inr \<lparr>srCertificate = suPublicKey r, srSerial = 7, srKeyID = suKeyID r, srPrincipals = suPrincipals r,
                            srValidAfter = 0, srValidBefore = 300\<rparr>,
     meParseAuthorizedKey = \<lambda>_. Inr (CertKey \<lparr>Serial = 7, KeyId = ''kid'', ValidPrincipals = [''root''], SignatureKey = ''ca'',
                                              CertPermissions = \<lparr>CriticalOptions = Map.empty, Extensions = Map.empty\<rparr>\<rparr>),
     meNewSigner = \<lambda>_. Inr 8, meNewCertSigner = \<lambda>_ _. Inr 9\<rparr>"

lemma demo_ReadFile: "ReadFile demo_disk ''/ca'' = Inr ''authority''" "ReadFile demo_disk ''/ck'' = Inr ''key''"
  by code_simp+

lemma demo_runServe: "\<exists>w. runServe demo_ext demo_env (Inr ''/'') (\<lambda>_. None) demo_mint demo_disk = (Inr w, demo_disk)"
  by (simp add: runServe_def loadRecordingSink_def loadHostKey_def loadUserCA_def loadTargetHostKeyCallback_def demo_env_def
      demo_ReadFile certdReloader_def buildTunnelServerTLS_def loadClientSignerFunc_def loadSSHPrivateKey_def
      buildTunnelListener_def buildRevocationChecker_def setup_portal_def ssh_New_def demo_ext_def)

theorem startup_fail_closed_witness:
  "\<exists>w. runServe demo_ext demo_env (Inr ''/'') (\<lambda>_. None) demo_mint demo_disk = (Inr w, demo_disk) \<and>
     scTrustedUserCA (wiServer w) = Some ''authority'' \<and> scHandshakeTimeout (wiServer w) = 30 * second"
proof -
  obtain w where r: "runServe demo_ext demo_env (Inr ''/'') (\<lambda>_. None) demo_mint demo_disk = (Inr w, demo_disk)"
    using demo_runServe by blast
  have "demo_env ''SSH_PROXYD_USER_CA'' = ''/ca''" by (simp add: demo_env_def)
  with startup_fail_closed[OF r] r show ?thesis by (auto simp: demo_ReadFile demo_ext_def)
qed

text \<open>
  A poll interval above 9223372036 seconds wraps to a negative duration, with which the poller panics after
  its first fetch.
\<close>

lemma poll_seconds_overflow:
  assumes "env ''CERTD_REVOCATIONS_URL'' \<noteq> []" "env ''CERTD_REVOCATIONS_POLL_SECONDS'' = ''9223372037''"
  shows "\<exists>p. buildRevocationChecker env True = Inr (Some p) \<and> pc_period p < 0 \<and> (\<forall>first polls. snd (Run first polls p))"
proof -
  have "fmt_int 9223372037 = ''9223372037''" by code_simp
  moreover have "in_int64 9223372037" by (simp add: int64_defs)
  ultimately have "ParseInt ''9223372037'' = Some 9223372037" using ParseInt_fmt_int by metis
  moreover have w: "wrap64 (9223372037 * second) = - 9223372036709551616" by (simp add: wrap64_def second_def)
  moreover have "pc_period (refresh fe now p) = pc_period p" for fe now p by (cases fe) (simp_all add: refresh_def)
  ultimately show ?thesis
    using assms by (simp add: buildRevocationChecker_def positive_env_def NewPollingChecker_def Run_def)
qed

section \<open>Minted certificates\<close>

lemma cert_case_Inr: "(case k of PlainKey _ \<Rightarrow> Inl e | CertKey c \<Rightarrow> g c) = Inr y \<longleftrightarrow> (\<exists>c. k = CertKey c \<and> g c = Inr y)"
  by (cases k) auto

lemma mint_Inr:
  "mint client ttl m p = Inr sg \<longleftrightarrow>
     (\<exists>priv line resp cert base. meGenerateKey m = Inr priv \<and> meAuthorizedLine m priv = Inr line \<and>
        SignUserCert (mePost m) client (session_request ttl (trim_newlines line) (meUUID m) p) = Inr resp \<and>
        meParseAuthorizedKey m (srCertificate resp) = Inr (CertKey cert) \<and> meNewSigner m priv = Inr base \<and>
        meNewCertSigner m cert base = Inr sg)"
  by (auto simp: mint_def and_then_Inr cert_case_Inr)

lemma session_key_id_inj:
  assumes "CHR '':'' \<notin> set u1" "CHR '':'' \<notin> set u2"
  shows "suKeyID (session_request t1 l1 u1 p1) = suKeyID (session_request t2 l2 u2 p2) \<longleftrightarrow> u1 = u2 \<and> p1 = p2"
proof -
  have "u1 = u2 \<and> p1 = p2" if h: "u1 @ '':principal:'' @ p1 = u2 @ '':principal:'' @ p2"
  proof -
    have "split_on (CHR '':'') (u1 @ CHR '':'' # ''principal:'' @ p1) = split_on (CHR '':'') (u2 @ CHR '':'' # ''principal:'' @ p2)"
      using h by simp
    then have "u1 = u2" unfolding split_on_append[OF assms(1)] split_on_append[OF assms(2)] by blast
    then show ?thesis using h by simp
  qed
  then show ?thesis by (auto simp: session_request_def)
qed

text \<open>
  C38. Session certificates are narrow. A minter accepts only a TTL that is a positive 64-bit number of
  seconds (300 unless configured). Each signer it returns wraps the session's fresh private key with the
  certificate certd returned for the request it posted to the sign-user endpoint: the public key of that
  same key pair, that one principal, that TTL, no extensions; a response that is not a certificate is an
  error. Two requests carry the same key id only for the same session and principal.\<close>
theorem minted_session_cert:
  assumes "newCertdMinter env url = Inr mk" and "mk m p = Inr sg"
  shows "\<exists>client ttl priv line req resp cert base.
      ccBaseURL client = trim_slashes url \<and> ccHasTLS client \<and> 0 < ttl \<and> in_int64 ttl \<and>
      (env ''CERTD_SESSION_TTL_SECONDS'' = [] \<longrightarrow> ttl = 300) \<and>
      meGenerateKey m = Inr priv \<and> meAuthorizedLine m priv = Inr line \<and>
      req = session_request ttl (trim_newlines line) (meUUID m) p \<and>
      mePost m client ''/api/v1/ssh/sign-user'' req = Inr resp \<and>
      suPrincipals req = [p] \<and> suTTLSeconds req = ttl \<and> suPublicKey req = trim_newlines line \<and>
      suExtensions req = Map.empty \<and> suCriticalOptions req = Map.empty \<and>
      meParseAuthorizedKey m (srCertificate resp) = Inr (CertKey cert) \<and>
      meNewSigner m priv = Inr base \<and> meNewCertSigner m cert base = Inr sg \<and>
      (\<forall>ttl' line' uid' p'. CHR '':'' \<notin> set uid' \<and> CHR '':'' \<notin> set (meUUID m) \<longrightarrow>
         (suKeyID (session_request ttl' line' uid' p') = suKeyID req \<longleftrightarrow> uid' = meUUID m \<and> p' = p))"
proof -
  obtain client ttl where c: "NewClient url True = Inr client" and t: "positive_env env ''CERTD_SESSION_TTL_SECONDS'' 300 = Inr ttl"
    and mk: "mk = mint client ttl"
    using assms(1) by (auto simp: newCertdMinter_def and_then_Inr)
  obtain priv line resp cert base where
    g: "meGenerateKey m = Inr priv" "meAuthorizedLine m priv = Inr line"
    and s: "SignUserCert (mePost m) client (session_request ttl (trim_newlines line) (meUUID m) p) = Inr resp"
    and r: "meParseAuthorizedKey m (srCertificate resp) = Inr (CertKey cert)" "meNewSigner m priv = Inr base" "meNewCertSigner m cert base = Inr sg"
    using assms(2) mk by (auto simp: mint_Inr)
  have s': "mePost m client ''/api/v1/ssh/sign-user'' (session_request ttl (trim_newlines line) (meUUID m) p) = Inr resp"
    using s by (simp add: SignUserCert_def split: sum.splits)
  have c': "ccBaseURL client = trim_slashes url" "ccHasTLS client" using c by (auto simp: NewClient_def split: if_split_asm)
  have "0 < ttl \<and> in_int64 ttl" by (rule positive_env_Inr[OF t]) (simp_all add: int64_defs)
  moreover have "env ''CERTD_SESSION_TTL_SECONDS'' = [] \<longrightarrow> ttl = 300" using t by (auto simp: positive_env_def Let_def)
  moreover have "suPrincipals (session_request ttl l u p) = [p]" "suTTLSeconds (session_request ttl l u p) = ttl"
    "suPublicKey (session_request ttl l u p) = l" "suExtensions (session_request ttl l u p) = Map.empty"
    "suCriticalOptions (session_request ttl l u p) = Map.empty" for l u
    by (simp_all add: session_request_def)
  ultimately show ?thesis
    using c' g s' r session_key_id_inj by (intro exI[of _ client] exI[of _ ttl] exI[of _ priv] exI[of _ line] exI[of _ resp] exI[of _ cert] exI[of _ base] exI) auto
qed

theorem minted_session_cert_witness:
  "\<exists>mk sg. newCertdMinter (\<lambda>_. []) ''https://certd/'' = Inr mk \<and> mk demo_mint ''root'' = Inr sg \<and>
     (\<exists>req resp. mePost demo_mint \<lparr>ccBaseURL = trim_slashes ''https://certd/'', ccHasTLS = True, ccClientTimeout = certclient_DefaultTimeout\<rparr>
        ''/api/v1/ssh/sign-user'' req = Inr resp \<and> suPrincipals req = [''root''])"
proof -
  let ?c = "\<lparr>ccBaseURL = trim_slashes ''https://certd/'', ccHasTLS = True, ccClientTimeout = certclient_DefaultTimeout\<rparr>"
  have n: "newCertdMinter (\<lambda>_. []) ''https://certd/'' = Inr (mint ?c 300)"
    by (simp add: newCertdMinter_def NewClient_def positive_env_def)
  have m: "mint ?c 300 demo_mint ''root'' = Inr 9" by (simp add: mint_Inr demo_mint_def SignUserCert_def)
  from minted_session_cert[OF n m] n m show ?thesis by (auto simp: demo_mint_def)
qed

end
