(* ===== verification/Tunnel_Dialer.thy ===== *)
theory Tunnel_Dialer
  imports Go_Time
begin

text \<open>
  \<^verbatim>\<open>internal/tunneld/tunnel/dialer.go\<close> and \<^verbatim>\<open>internal/common/tunnel/yamux.go\<close>: the agent's side of the tunnel, its
  reconnect loop with exponential backoff and jitter, and the shared multiplexer settings. The TLS dial,
  the multiplexer and the session handler are parameters.
\<close>

section \<open>Multiplexer settings\<close>

record yamux_config =
  EnableKeepAlive :: bool
  yKeepAliveInterval :: duration
  yConnectionWriteTimeout :: duration
  yMaxStreamWindowSize :: "32 word"
  LogDiscarded :: bool

definition KeepAliveInterval :: duration where "KeepAliveInterval = 15 * second"
definition ConnectionWriteTimeout :: duration where "ConnectionWriteTimeout = 30 * second"
definition MaxStreamWindowSize :: "32 word" where "MaxStreamWindowSize = 4 * 1024 * 1024"

text \<open>\<open>dflt\<close> is \<^verbatim>\<open>yamux.DefaultConfig()\<close>.\<close>

definition baseConfig :: "yamux_config \<Rightarrow> yamux_config" where
  "baseConfig dflt = dflt\<lparr>EnableKeepAlive := True, yKeepAliveInterval := KeepAliveInterval,
     yConnectionWriteTimeout := ConnectionWriteTimeout, yMaxStreamWindowSize := MaxStreamWindowSize, LogDiscarded := True\<rparr>"

definition ClientConfig :: "yamux_config \<Rightarrow> yamux_config" where "ClientConfig dflt = baseConfig dflt"
definition ServerConfig :: "yamux_config \<Rightarrow> yamux_config" where "ServerConfig dflt = baseConfig dflt"

definition ValidateConfig :: "yamux_config option \<Rightarrow> go_error option" where
  "ValidateConfig cfg =
     (case cfg of
        None \<Rightarrow> Some (Msg ''config is nil'')
      | Some c \<Rightarrow>
          if yKeepAliveInterval c \<noteq> KeepAliveInterval then Some (Msg ''KeepAliveInterval drifted'')
          else if yConnectionWriteTimeout c \<noteq> ConnectionWriteTimeout then Some (Msg ''ConnectionWriteTimeout drifted'')
          else if yMaxStreamWindowSize c \<noteq> MaxStreamWindowSize then Some (Msg ''MaxStreamWindowSize drifted'')
          else None)"

lemma configs_valid: "ValidateConfig (Some (ClientConfig d)) = None" "ValidateConfig (Some (ServerConfig d)) = None"
  "yKeepAliveInterval (ClientConfig d) < yConnectionWriteTimeout (ClientConfig d)"
  by (simp_all add: ValidateConfig_def ClientConfig_def ServerConfig_def baseConfig_def KeepAliveInterval_def
      ConnectionWriteTimeout_def second_def)

section \<open>Configuration of the dialer\<close>

text \<open>Nil checks of \<^verbatim>\<open>TLSConfig\<close> and \<^verbatim>\<open>Handler\<close> are flags; a \<^verbatim>\<open>float64\<close> is its exact value.\<close>

record dialer_config =
  dlTarget :: string
  dlHasTLS :: bool
  dlHasHandler :: bool
  dlDialTimeout :: duration
  dlInitialBackoff :: duration
  dlMaxBackoff :: duration
  dlBackoffJitter :: rat

definition dialer_DefaultDialTimeout :: duration where "dialer_DefaultDialTimeout = 10 * second"
definition DefaultInitialBackoff :: duration where "DefaultInitialBackoff = 1 * second"
definition DefaultMaxBackoff :: duration where "DefaultMaxBackoff = 30 * second"
definition DefaultBackoffJitter :: rat where "DefaultBackoffJitter = fl64 (1 / 5)"

definition dialer_defaults :: "dialer_config \<Rightarrow> dialer_config" where
  "dialer_defaults cfg = cfg\<lparr>
     dlDialTimeout := (if dlDialTimeout cfg = 0 then dialer_DefaultDialTimeout else dlDialTimeout cfg),
     dlInitialBackoff := (if dlInitialBackoff cfg = 0 then DefaultInitialBackoff else dlInitialBackoff cfg),
     dlMaxBackoff := (if dlMaxBackoff cfg = 0 then DefaultMaxBackoff else dlMaxBackoff cfg)\<rparr>"

definition dialer_New :: "dialer_config \<Rightarrow> dialer_config result" where
  "dialer_New cfg =
     (if dlTarget cfg = [] then Inl (Msg ''target is required'')
      else if \<not> dlHasTLS cfg then Inl (Msg ''TLSConfig is required'')
      else if \<not> dlHasHandler cfg then Inl (Msg ''handler is required'')
      else
        let c = dialer_defaults cfg in
        if dlInitialBackoff c > dlMaxBackoff c then Inl (Msg ''InitialBackoff > MaxBackoff'')
        else
          let c' = c\<lparr>dlBackoffJitter := (if dlBackoffJitter c = 0 then DefaultBackoffJitter else dlBackoffJitter c)\<rparr> in
          if dlBackoffJitter c' < 0 \<or> dlBackoffJitter c' \<ge> 1 then Inl (Msg ''BackoffJitter must be in [0,1)'')
          else Inr c')"

section \<open>Backoff\<close>

definition nextBackoff :: "dialer_config \<Rightarrow> duration \<Rightarrow> duration" where
  "nextBackoff cfg delay =
     (let next = wrap64 (delay * 2) in if next > dlMaxBackoff cfg then dlMaxBackoff cfg else next)"

text \<open>\<open>r\<close> is the value of \<^verbatim>\<open>Rand()\<close>.\<close>

definition applyJitter :: "dialer_config \<Rightarrow> rat \<Rightarrow> duration \<Rightarrow> duration" where
  "applyJitter cfg r delay =
     (if dlBackoffJitter cfg = 0 then delay
      else
        let span = fl64 (fl64 (of_int delay) * dlBackoffJitter cfg);
            offset = fl64 (fl64 (fl64 (r * 2) - 1) * span);
            out = trunc_rat (fl64 (fl64 (of_int delay) + offset))
        in if out < 0 then 0 else out)"

text \<open>Whether a sleep blocks at all, and what it returns when the context fires first.\<close>

definition dialer_sleep :: "duration \<Rightarrow> go_error option \<Rightarrow> go_error option" where
  "dialer_sleep dur ctx_fires = (if dur \<le> 0 then None else ctx_fires)"

section \<open>Connecting\<close>

text \<open>\<open>dial\<close> is the TCP and TLS connect, \<open>client\<close> is \<^verbatim>\<open>yamux.Client\<close>; the closed connections are returned.\<close>

definition DialOnce ::
  "dialer_config \<Rightarrow> (string \<Rightarrow> nat result) \<Rightarrow> (nat \<Rightarrow> nat result) \<Rightarrow> nat result \<times> nat list" where
  "DialOnce cfg dial client =
     (case dial (dlTarget cfg) of
        Inl e \<Rightarrow> (Inl (Wrap (''dial '' @ dlTarget cfg) e), [])
      | Inr conn \<Rightarrow> (case client conn of
          Inl e \<Rightarrow> (Inl (Wrap ''yamux client'' e), [conn])
        | Inr session \<Rightarrow> (Inr session, [])))"

text \<open>
  One iteration of \<^verbatim>\<open>Run\<close>: the context's error when the iteration starts, the result of \<^verbatim>\<open>DialOnce\<close>, the
  random number and the context's firing during the sleep after a failure, the context's error after a
  session has ended.
\<close>

record dial_iter =
  diCtx :: "go_error option"
  diDial :: "nat result"
  diRand :: rat
  diSleepCtx :: "go_error option"
  diEndCtx :: "go_error option"

record dial_log =
  dgSleeps :: "duration list"
  dgSessions :: "nat list"
  dgReturned :: "go_error option"

text \<open>The sleeps requested, the sessions run and closed, and what \<^verbatim>\<open>Run\<close> returned, if it did.\<close>

fun dialer_Run :: "dialer_config \<Rightarrow> duration \<Rightarrow> dial_iter list \<Rightarrow> dial_log" where
  "dialer_Run cfg delay [] = \<lparr>dgSleeps = [], dgSessions = [], dgReturned = None\<rparr>"
| "dialer_Run cfg delay (i # rest) =
     (case diCtx i of
        Some e \<Rightarrow> \<lparr>dgSleeps = [], dgSessions = [], dgReturned = Some e\<rparr>
      | None \<Rightarrow>
          (case diDial i of
             Inl err \<Rightarrow>
               let d = applyJitter cfg (diRand i) delay in
               (case dialer_sleep d (diSleepCtx i) of
                  Some e \<Rightarrow> \<lparr>dgSleeps = [d], dgSessions = [], dgReturned = Some e\<rparr>
                | None \<Rightarrow>
                    let l = dialer_Run cfg (nextBackoff cfg delay) rest in l\<lparr>dgSleeps := d # dgSleeps l\<rparr>)
           | Inr session \<Rightarrow>
               (case diEndCtx i of
                  Some e \<Rightarrow> \<lparr>dgSleeps = [], dgSessions = [session], dgReturned = Some e\<rparr>
                | None \<Rightarrow>
                    let l = dialer_Run cfg (dlInitialBackoff cfg) rest in l\<lparr>dgSessions := session # dgSessions l\<rparr>)))"

section \<open>One session\<close>

text \<open>
  \<^verbatim>\<open>runSession\<close>: the handler runs under a context of its own, which a watcher cancels when the session closes.
  The handler is given from outside: it returns whenever it does. Its return cancels the context, too.
\<close>

datatype watcher = Watching | Woken | Gone

record run_session =
  rnParent :: bool
  rnCancelled :: bool
  rnClosed :: bool
  rnWatcher :: watcher
  rnResult :: "go_error option option"

definition runSession :: "bool \<Rightarrow> bool \<Rightarrow> run_session" where
  "runSession parent session_closed =
     \<lparr>rnParent = parent, rnCancelled = False, rnClosed = session_closed, rnWatcher = Watching, rnResult = None\<rparr>"

definition subCtx_done :: "run_session \<Rightarrow> bool" where
  "subCtx_done r \<longleftrightarrow> rnParent r \<or> rnCancelled r"

inductive session_event :: "run_session \<Rightarrow> run_session \<Rightarrow> bool" where
  rn_parent: "session_event r (r\<lparr>rnParent := True\<rparr>)"
| rn_closed: "session_event r (r\<lparr>rnClosed := True\<rparr>)"
| rn_return: "rnResult r = None \<Longrightarrow> session_event r (r\<lparr>rnResult := Some e, rnCancelled := True\<rparr>)"

inductive watcher_step :: "run_session \<Rightarrow> run_session \<Rightarrow> bool" where
  rn_wake: "rnWatcher r = Watching \<Longrightarrow> rnClosed r \<or> subCtx_done r \<Longrightarrow> watcher_step r (r\<lparr>rnWatcher := Woken\<rparr>)"
| rn_cancel: "rnWatcher r = Woken \<Longrightarrow> watcher_step r (r\<lparr>rnCancelled := True, rnWatcher := Gone\<rparr>)"

inductive session_reachable :: "run_session \<Rightarrow> run_session \<Rightarrow> bool" for r0 where
  rn_start: "session_reachable r0 r0"
| rn_event: "session_reachable r0 r \<Longrightarrow> session_event r r' \<Longrightarrow> session_reachable r0 r'"
| rn_watch: "session_reachable r0 r \<Longrightarrow> watcher_step r r' \<Longrightarrow> session_reachable r0 r'"

text \<open>
  The handler's context is cancelled for a reason only: the session closed, the agent stops or the handler
  returned. Once there is one, the watcher is on its way: two steps of its own cancel the context and end it.
\<close>

definition stop_reason :: "run_session \<Rightarrow> bool" where
  "stop_reason r \<longleftrightarrow> rnClosed r \<or> rnParent r \<or> rnResult r \<noteq> None"

definition session_inv :: "run_session \<Rightarrow> bool" where
  "session_inv r \<longleftrightarrow> (rnCancelled r \<or> rnWatcher r \<noteq> Watching \<longrightarrow> stop_reason r) \<and>
     (rnResult r \<noteq> None \<or> rnWatcher r = Gone \<longrightarrow> rnCancelled r)"

lemma session_reachable_inv: "session_reachable (runSession p c) r \<Longrightarrow> session_inv r"
proof (induction rule: session_reachable.induct)
  case rn_start
  show ?case by (simp add: session_inv_def runSession_def)
next
  case (rn_event r r')
  then show ?case by (auto simp: session_inv_def stop_reason_def elim!: session_event.cases)
next
  case (rn_watch r r')
  then show ?case by (auto simp: session_inv_def stop_reason_def subCtx_done_def elim!: watcher_step.cases)
qed

fun watcher_left :: "watcher \<Rightarrow> nat" where
  "watcher_left Watching = 2"
| "watcher_left Woken = 1"
| "watcher_left Gone = 0"

lemma watcher_progress:
  assumes "session_inv r" "stop_reason r" "rnWatcher r \<noteq> Gone"
  shows "\<exists>r'. watcher_step r r'"
proof (cases "rnWatcher r")
  case Watching
  have "rnClosed r \<or> subCtx_done r" using assms by (auto simp: session_inv_def stop_reason_def subCtx_done_def)
  from rn_wake[OF Watching this] show ?thesis by blast
next
  case Woken
  from rn_cancel[OF this] show ?thesis by blast
qed (use assms in simp)

lemma watcher_step_less: "watcher_step r r' \<Longrightarrow> watcher_left (rnWatcher r') < watcher_left (rnWatcher r)"
  by (induction rule: watcher_step.induct) simp_all

lemma runSession_ends:
  assumes "session_reachable (runSession p c) r"
  shows "subCtx_done r \<longrightarrow> stop_reason r" "stop_reason r \<and> rnWatcher r \<noteq> Gone \<longrightarrow> (\<exists>r'. watcher_step r r')"
    "rnWatcher r = Gone \<longrightarrow> subCtx_done r"
  using session_reachable_inv[OF assms] watcher_progress by (auto simp: session_inv_def stop_reason_def subCtx_done_def)

section \<open>The schedule\<close>

text \<open>The canonical delay after \<open>k\<close> failures in a row.\<close>

definition backoff_spec :: "dialer_config \<Rightarrow> nat \<Rightarrow> duration" where
  "backoff_spec cfg k = min (dlInitialBackoff cfg * 2 ^ k) (dlMaxBackoff cfg)"

fun sleeps_spec :: "dialer_config \<Rightarrow> nat \<Rightarrow> dial_iter list \<Rightarrow> duration list" where
  "sleeps_spec cfg k [] = []"
| "sleeps_spec cfg k (i # rest) =
     (if diCtx i \<noteq> None then []
      else case diDial i of
        Inl _ \<Rightarrow>
          let d = applyJitter cfg (diRand i) (backoff_spec cfg k) in
          d # (if dialer_sleep d (diSleepCtx i) \<noteq> None then [] else sleeps_spec cfg (Suc k) rest)
      | Inr _ \<Rightarrow> if diEndCtx i \<noteq> None then [] else sleeps_spec cfg 0 rest)"

definition backoff_ok :: "dialer_config \<Rightarrow> bool" where
  "backoff_ok cfg \<longleftrightarrow> 0 < dlInitialBackoff cfg \<and> dlInitialBackoff cfg \<le> dlMaxBackoff cfg \<and> dlMaxBackoff cfg < 2 ^ 62"

lemma nextBackoff_spec: "backoff_ok cfg \<Longrightarrow> nextBackoff cfg (backoff_spec cfg k) = backoff_spec cfg (Suc k)"
proof -
  assume ok: "backoff_ok cfg"
  let ?d = "backoff_spec cfg k"
  have d: "0 < ?d" "?d \<le> dlMaxBackoff cfg" using ok by (auto simp: backoff_spec_def backoff_ok_def)
  then have w: "wrap64 (?d * 2) = ?d * 2" using ok by (intro wrap64_id) (simp add: int64_defs backoff_ok_def)
  show ?thesis using ok unfolding nextBackoff_def Let_def w by (auto simp: backoff_spec_def backoff_ok_def min_def)
qed

lemma dialer_Run_sleeps: "backoff_ok cfg \<Longrightarrow> dgSleeps (dialer_Run cfg (backoff_spec cfg k) its) = sleeps_spec cfg k its"
proof (induction its arbitrary: k)
  case (Cons i its)
  have "backoff_spec cfg 0 = dlInitialBackoff cfg" using Cons.prems by (simp add: backoff_spec_def backoff_ok_def)
  then show ?case
    using Cons.IH[OF Cons.prems, of 0] Cons.IH[OF Cons.prems, of "Suc k"]
    by (auto simp: nextBackoff_spec[OF Cons.prems] Let_def split: option.splits sum.splits)
qed simp

lemma fl64_error_abs: "\<bar>fl64 x - x\<bar> \<le> \<bar>x\<bar> / 2 ^ 53"
proof (cases "0 \<le> x")
  case False
  have "fl64 x = - fl64 (- x)" using False by (simp add: fl64_def)
  then show ?thesis using fl64_error[of "- x"] False by (simp add: abs_minus_commute[of "fl64 x"])
qed (use fl64_error[of x] in simp)

lemma fl64_abs_le: "\<bar>x\<bar> \<le> b \<Longrightarrow> \<bar>fl64 x\<bar> \<le> b * (1 + 1 / 2 ^ 53)"
proof -
  assume b: "\<bar>x\<bar> \<le> b"
  have "\<bar>fl64 x\<bar> \<le> \<bar>x\<bar> + \<bar>fl64 x - x\<bar>" by linarith
  also have "\<dots> \<le> \<bar>x\<bar> + \<bar>x\<bar> / 2 ^ 53" using fl64_error_abs by simp
  also have "\<dots> \<le> b + b / 2 ^ 53" using b by (intro add_mono divide_right_mono) auto
  finally show ?thesis by (simp add: algebra_simps)
qed

text \<open>Jitter stays within the fraction, up to four nanoseconds of rounding.\<close>

lemma applyJitter_bounds:
  assumes j: "0 \<le> dlBackoffJitter cfg" "dlBackoffJitter cfg < 1" and r: "0 \<le> r" "r < 1" and d: "0 \<le> delay" "delay \<le> 2 ^ 50"
  shows "0 \<le> applyJitter cfg r delay"
    "\<bar>of_int (applyJitter cfg r delay) - of_int delay\<bar> \<le> dlBackoffJitter cfg * of_int delay + (4 :: rat)"
proof -
  define D where "D = (of_int delay :: rat)"
  define J where "J = dlBackoffJitter cfg"
  have D: "0 \<le> D" "D \<le> 2 ^ 50" using d by (simp_all add: D_def of_int_le_numeral_power_cancel_iff)
  have fD: "fl64 D = D" unfolding D_def using d by (intro fl64_of_int) auto
  define span where "span = fl64 (D * J)"
  define a where "a = fl64 (fl64 (r * 2) - 1)"
  define offset where "offset = fl64 (a * span)"
  define out where "out = trunc_rat (fl64 (D + offset))"
  let ?e = "1 + 1 / 2 ^ 53 :: rat"
  have DJ: "0 \<le> D * J" "D * J \<le> D" using D j by (simp_all add: J_def mult_left_le)
  have s: "0 \<le> span" "span \<le> D * J * ?e" using fl64_nonneg[OF DJ(1)] fl64_abs_le[of "D * J" "D * J"] DJ by (simp_all add: span_def)
  have "fl64 (r * 2) \<le> fl64 (of_int 2)" using r by (intro fl64_mono) simp_all
  then have r2: "0 \<le> fl64 (r * 2)" "fl64 (r * 2) \<le> 2" using r fl64_of_int[of 2] by simp_all
  have "\<bar>fl64 (r * 2) - 1\<bar> \<le> 1" using r2 by linarith
  then have a: "\<bar>a\<bar> \<le> ?e" using fl64_abs_le[of "fl64 (r * 2) - 1" 1] by (simp add: a_def)
  have "\<bar>a * span\<bar> \<le> ?e * (D * J * ?e)" unfolding abs_mult using a s by (intro mult_mono) auto
  then have o: "\<bar>offset\<bar> \<le> ?e * (D * J * ?e) * ?e" unfolding offset_def by (rule fl64_abs_le)
  have o': "\<bar>offset\<bar> \<le> D * J + 1"
  proof -
    have "?e * (D * J * ?e) * ?e = D * J * (?e * ?e * ?e)" by simp
    also have "\<dots> \<le> D * J * (1 + 1 / 2 ^ 51)" using DJ by (intro mult_left_mono) (simp_all add: power_def)
    also have "\<dots> \<le> D * J + 1" using DJ D by (simp add: field_simps)
    finally show ?thesis using o by linarith
  qed
  have "\<bar>fl64 (D + offset) - (D + offset)\<bar> \<le> \<bar>D + offset\<bar> / 2 ^ 53" by (rule fl64_error_abs)
  also have "\<dots> \<le> (2 * D + 1) / 2 ^ 53" using o' D DJ by (intro divide_right_mono) auto
  also have "\<dots> \<le> 1" using D by simp
  finally have x: "\<bar>fl64 (D + offset) - (D + offset)\<bar> \<le> 1" .
  have t: "\<bar>of_int out - fl64 (D + offset)\<bar> < 1" unfolding out_def trunc_rat_def abs_less_iff by (auto split: if_splits) linarith+
  have eq: "applyJitter cfg r delay = (if J = 0 then delay else if out < 0 then 0 else out)"
    by (simp add: applyJitter_def Let_def out_def offset_def a_def span_def fD J_def flip: D_def)
  show "0 \<le> applyJitter cfg r delay" using d by (simp add: eq)
  have "\<bar>of_int out - D\<bar> \<le> J * D + 3" using x t o' by (simp add: mult.commute)
  moreover have "\<bar>0 - D\<bar> \<le> J * D + 3" if "out < 0"
  proof -
    have "(of_int out :: rat) < 0" using that by simp
    then show ?thesis using calculation D by linarith
  qed
  ultimately show "\<bar>of_int (applyJitter cfg r delay) - of_int delay\<bar> \<le> dlBackoffJitter cfg * of_int delay + (4 :: rat)"
    using D unfolding eq D_def[symmetric] J_def[symmetric]
    by (cases "J = 0"; cases "out < 0") (simp_all add: D_def)
qed

definition iter_alive :: "dial_iter \<Rightarrow> bool" where
  "iter_alive i \<longleftrightarrow> diCtx i = None \<and> diSleepCtx i = None \<and> diEndCtx i = None"

lemma dialer_Run_alive: "list_all iter_alive its \<Longrightarrow> dgReturned (dialer_Run cfg d its) = None"
  by (induction cfg d its rule: dialer_Run.induct)
    (auto simp: iter_alive_def dialer_sleep_def Let_def split: sum.splits)

lemma sleeps_spec_from:
  "d \<in> set (sleeps_spec cfg k its) \<Longrightarrow> \<exists>i \<in> set its. \<exists>k'. d = applyJitter cfg (diRand i) (backoff_spec cfg k')"
proof (induction its arbitrary: k)
  case (Cons i its)
  from Cons.prems have "d = applyJitter cfg (diRand i) (backoff_spec cfg k) \<or> (\<exists>k'. d \<in> set (sleeps_spec cfg k' its))"
    by (auto simp: Let_def split: if_splits sum.splits)
  then show ?case using Cons.IH by auto
qed simp

lemma sleeps_spec_bounds:
  assumes "backoff_ok cfg" "0 \<le> dlBackoffJitter cfg" "dlBackoffJitter cfg < 1" "dlMaxBackoff cfg \<le> 2 ^ 50"
    and "list_all (\<lambda>i. 0 \<le> diRand i \<and> diRand i < 1) its" "d \<in> set (sleeps_spec cfg k its)"
  shows "0 \<le> d \<and> of_int d \<le> (1 + dlBackoffJitter cfg) * of_int (dlMaxBackoff cfg) + (4 :: rat)"
proof -
  obtain i k' where i: "i \<in> set its" and d: "d = applyJitter cfg (diRand i) (backoff_spec cfg k')"
    using sleeps_spec_from[OF assms(6)] by blast
  let ?b = "backoff_spec cfg k'"
  have b: "0 \<le> ?b" "?b \<le> dlMaxBackoff cfg" using assms(1) by (auto simp: backoff_spec_def backoff_ok_def)
  have r: "0 \<le> diRand i" "diRand i < 1" using assms(5) i by (auto simp: list_all_iff)
  have b50: "?b \<le> 2 ^ 50" using b(2) assms(4) by linarith
  note A = applyJitter_bounds[OF assms(2,3) r b(1) b50, folded d]
  have m: "(of_int ?b :: rat) \<le> of_int (dlMaxBackoff cfg)" using b(2) by (simp only: of_int_le_iff)
  then have "dlBackoffJitter cfg * of_int ?b \<le> dlBackoffJitter cfg * of_int (dlMaxBackoff cfg)"
    using assms(2) by (rule mult_left_mono)
  then show ?thesis using A m by (auto simp: abs_le_iff algebra_simps)
qed

text \<open>Sessions that end at once are redialled at once: no delay separates successful connects.\<close>

lemma reconnect_without_delay:
  "list_all (\<lambda>i. iter_alive i \<and> is_ok (diDial i)) its \<Longrightarrow>
     dgSleeps (dialer_Run cfg d its) = [] \<and> length (dgSessions (dialer_Run cfg d its)) = length its"
  by (induction its arbitrary: d) (auto simp: iter_alive_def Let_def split: sum.splits)

section \<open>Properties\<close>

definition demo_dialer :: dialer_config where
  "demo_dialer = \<lparr>dlTarget = ''proxy:443'', dlHasTLS = True, dlHasHandler = True, dlDialTimeout = 10 * second,
     dlInitialBackoff = 1 * second, dlMaxBackoff = 30 * second, dlBackoffJitter = 1 / 4\<rparr>"

definition demo_fail :: dial_iter where
  "demo_fail = \<lparr>diCtx = None, diDial = Inl (Msg ''refused''), diRand = 1 / 2, diSleepCtx = None, diEndCtx = None\<rparr>"



end
