(* ===== verification/Forwarder.thy ===== *)
theory Forwarder
  imports Prelude
begin

text \<open>
  \<^verbatim>\<open>internal/tunneld/forward/forwarder.go\<close>: streams of a tunnel session forwarded to the local sshd. Streams and
  local connections are identities; the dial, the copied bytes and the multiplexer are parameters.
\<close>

section \<open>Configuration\<close>

record forwarder_config =
  fwLocalAddr :: string
  fwDialTimeout :: duration

definition DefaultLocalAddr :: string where "DefaultLocalAddr = ''127.0.0.1:22''"
definition forward_DefaultDialTimeout :: duration where "forward_DefaultDialTimeout = 5 * second"

definition forwarder_New :: "forwarder_config \<Rightarrow> forwarder_config" where
  "forwarder_New cfg =
     \<lparr>fwLocalAddr = (if fwLocalAddr cfg = [] then DefaultLocalAddr else fwLocalAddr cfg),
      fwDialTimeout = (if fwDialTimeout cfg = 0 then forward_DefaultDialTimeout else fwDialTimeout cfg)\<rparr>"

section \<open>Errors\<close>

definition ErrSessionShutdown :: go_error where "ErrSessionShutdown = Sentinel ''session shutdown''"
definition ErrStreamClosed :: go_error where "ErrStreamClosed = Sentinel ''stream closed''"
definition io_EOF :: go_error where "io_EOF = Sentinel ''EOF''"
definition ErrClosedPipe :: go_error where "ErrClosedPipe = Sentinel ''io: read/write on closed pipe''"
definition net_ErrClosed :: go_error where "net_ErrClosed = Sentinel ''use of closed network connection''"

definition isExpectedCopyErr :: "go_error option \<Rightarrow> bool" where
  "isExpectedCopyErr err =
     (case err of None \<Rightarrow> True
      | Some e \<Rightarrow> errors_is e io_EOF \<or> errors_is e ErrClosedPipe \<or> errors_is e ErrStreamClosed \<or>
                  errors_is e ErrSessionShutdown \<or> errors_is e net_ErrClosed)"

section \<open>The two copies of a stream\<close>

text \<open>
  The two copy loops and the watcher of \<^verbatim>\<open>pipe\<close>. Each loop ends when its source is exhausted or closed; then it
  calls \<open>closeBoth\<close>, which acts once. The watcher calls it when the context is cancelled. \<^verbatim>\<open>pipe\<close> returns when both loops are done.
  \<open>up\<close> and \<open>down\<close> are the bytes read but not yet written in each direction, \<open>toLocal\<close> and \<open>toStream\<close> the bytes delivered.
\<close>

record fw_pipe =
  fromStream :: string
  toLocal :: string
  fromLocal :: string
  toStream :: string
  upDone :: bool
  downDone :: bool
  bothClosed :: bool

definition fw_init :: fw_pipe where
  "fw_init = \<lparr>fromStream = [], toLocal = [], fromLocal = [], toStream = [], upDone = False, downDone = False, bothClosed = False\<rparr>"

inductive fw_move :: "fw_pipe \<Rightarrow> fw_pipe \<Rightarrow> bool" where
  up: "\<not> upDone s \<Longrightarrow> \<not> bothClosed s \<Longrightarrow> fw_move s (s\<lparr>fromStream := fromStream s @ b, toLocal := toLocal s @ b\<rparr>)"
| up_partial: "\<not> upDone s \<Longrightarrow> fw_move s (s\<lparr>fromStream := fromStream s @ b, toLocal := toLocal s @ take n b, upDone := True, bothClosed := True\<rparr>)"
| up_end: "\<not> upDone s \<Longrightarrow> fw_move s (s\<lparr>upDone := True, bothClosed := True\<rparr>)"
| down: "\<not> downDone s \<Longrightarrow> \<not> bothClosed s \<Longrightarrow> fw_move s (s\<lparr>fromLocal := fromLocal s @ b, toStream := toStream s @ b\<rparr>)"
| down_partial: "\<not> downDone s \<Longrightarrow> fw_move s (s\<lparr>fromLocal := fromLocal s @ b, toStream := toStream s @ take n b, downDone := True, bothClosed := True\<rparr>)"
| down_end: "\<not> downDone s \<Longrightarrow> fw_move s (s\<lparr>downDone := True, bothClosed := True\<rparr>)"
| cancelled: "\<not> bothClosed s \<Longrightarrow> fw_move s (s\<lparr>bothClosed := True\<rparr>)"

inductive fw_reachable :: "fw_pipe \<Rightarrow> bool" where
  fw_start: "fw_reachable fw_init"
| fw_next: "fw_reachable s \<Longrightarrow> fw_move s s' \<Longrightarrow> fw_reachable s'"

inductive_cases fw_moveE: "fw_move s s'"

definition fw_inv :: "fw_pipe \<Rightarrow> bool" where
  "fw_inv s \<longleftrightarrow> (\<exists>x. fromStream s = toLocal s @ x) \<and> (\<exists>x. fromLocal s = toStream s @ x) \<and>
     (\<not> upDone s \<longrightarrow> fromStream s = toLocal s) \<and> (\<not> downDone s \<longrightarrow> fromLocal s = toStream s) \<and>
     (upDone s \<or> downDone s \<longrightarrow> bothClosed s)"

lemma take_extends: "\<exists>x. b = take n b @ x"
  by (rule exI[of _ "drop n b"]) simp

lemma fw_move_inv: "fw_move s s' \<Longrightarrow> fw_inv s \<Longrightarrow> fw_inv s'"
  by (induction rule: fw_move.induct) (auto simp: fw_inv_def take_extends)

lemma fw_reachable_inv: "fw_reachable s \<Longrightarrow> fw_inv s"
proof (induction rule: fw_reachable.induct)
  case fw_start
  then show ?case by (simp add: fw_inv_def fw_init_def)
next
  case (fw_next s s')
  then show ?case using fw_move_inv by blast
qed

text \<open>Once both ends are closed each loop has at most its last step left, and it can take it.\<close>

definition loops_left :: "fw_pipe \<Rightarrow> nat" where
  "loops_left s = (if upDone s then 0 else 1) + (if downDone s then 0 else 1)"

lemma fw_move_closed: "fw_move s s' \<Longrightarrow> bothClosed s \<Longrightarrow> bothClosed s' \<and> loops_left s = Suc (loops_left s')"
  by (induction rule: fw_move.induct) (auto simp: loops_left_def)

lemma fw_moves_closed: "(fw_move ^^ n) s s' \<Longrightarrow> bothClosed s \<Longrightarrow> loops_left s = n + loops_left s' \<and> bothClosed s'"
proof (induction n arbitrary: s')
  case (Suc n)
  then obtain t where "(fw_move ^^ n) s t" "fw_move t s'" by auto
  then show ?case using Suc fw_move_closed by fastforce
qed simp

lemma fw_not_stuck: "\<not> (upDone s \<and> downDone s) \<Longrightarrow> \<exists>s'. fw_move s s'"
  by (auto intro: fw_move.intros)

section \<open>Serving a session\<close>

text \<open>
  The goroutine of one accepted stream: it dials, pipes when the dial succeeds, and closes what it holds on
  its way out. \<open>Finished\<close> carries the local connection it had, if any; stream and connection are closed then.
\<close>

datatype stream_phase = Dialling | Piping nat | Finished "nat option"

definition serveStream :: "forwarder_config \<Rightarrow> (string \<Rightarrow> nat \<Rightarrow> nat result) \<Rightarrow> nat \<Rightarrow> stream_phase" where
  "serveStream cfg dial stream =
     (case dial (fwLocalAddr cfg) stream of Inl e \<Rightarrow> Finished None | Inr local \<Rightarrow> Piping local)"

text \<open>
  \<^verbatim>\<open>Handle\<close>: the accept loop, one goroutine per stream, the context and the watcher that closes the session
  when it is cancelled; the peer may close it, too. \<open>hsResult\<close> is set when the loop leaves, \<open>hsReturned\<close> when the wait for the goroutines is over.
\<close>

record fw_session =
  hsStreams :: "(nat \<times> stream_phase) list"
  hsCtx :: "go_error option"
  hsClosed :: bool
  hsResult :: "go_error option option"
  hsReturned :: bool

definition handle_result :: "go_error \<Rightarrow> go_error option \<Rightarrow> go_error option" where
  "handle_result err ctx =
     (case ctx of
        Some e \<Rightarrow> Some e
      | None \<Rightarrow> if errors_is err ErrSessionShutdown \<or> errors_is err io_EOF then None
                else Some (Wrap ''accept stream'' err))"

definition hs_init :: fw_session where
  "hs_init = \<lparr>hsStreams = [], hsCtx = None, hsClosed = False, hsResult = None, hsReturned = False\<rparr>"

definition set_phase :: "nat \<Rightarrow> stream_phase \<Rightarrow> fw_session \<Rightarrow> fw_session" where
  "set_phase s ph h = h\<lparr>hsStreams := AList.update s ph (hsStreams h)\<rparr>"

abbreviation phase_of :: "fw_session \<Rightarrow> nat \<Rightarrow> stream_phase option" where
  "phase_of h s \<equiv> map_of (hsStreams h) s"

definition all_finished :: "fw_session \<Rightarrow> bool" where
  "all_finished h \<longleftrightarrow> (\<forall>s ph. phase_of h s = Some ph \<longrightarrow> (\<exists>l. ph = Finished l))"

inductive forwarder_Handle :: "forwarder_config \<Rightarrow> (string \<Rightarrow> nat \<Rightarrow> nat result) \<Rightarrow> fw_session \<Rightarrow> fw_session \<Rightarrow> bool"
  for cfg dial where
  accept: "hsResult h = None \<Longrightarrow> \<not> hsClosed h \<Longrightarrow> phase_of h s = None \<Longrightarrow> forwarder_Handle cfg dial h (set_phase s Dialling h)"
| accept_error: "hsResult h = None \<Longrightarrow> forwarder_Handle cfg dial h (h\<lparr>hsResult := Some (handle_result err (hsCtx h))\<rparr>)"
| dialled: "phase_of h s = Some Dialling \<Longrightarrow> forwarder_Handle cfg dial h (set_phase s (serveStream cfg dial s) h)"
| piped: "phase_of h s = Some (Piping l) \<Longrightarrow> forwarder_Handle cfg dial h (set_phase s (Finished (Some l)) h)"
| cancel: "hsCtx h = None \<Longrightarrow> forwarder_Handle cfg dial h (h\<lparr>hsCtx := Some e\<rparr>)"
| watcher: "hsCtx h \<noteq> None \<Longrightarrow> hsResult h = None \<Longrightarrow> \<not> hsClosed h \<Longrightarrow> forwarder_Handle cfg dial h (h\<lparr>hsClosed := True\<rparr>)"
| dropped: "\<not> hsClosed h \<Longrightarrow> forwarder_Handle cfg dial h (h\<lparr>hsClosed := True\<rparr>)"
| return: "hsResult h \<noteq> None \<Longrightarrow> \<not> hsReturned h \<Longrightarrow> all_finished h \<Longrightarrow> forwarder_Handle cfg dial h (h\<lparr>hsReturned := True\<rparr>)"

lemma phase_of_set [simp]: "phase_of (set_phase s ph h) t = (if t = s then Some ph else phase_of h t)"
  by (simp add: set_phase_def update_conv')

lemma set_phase_simps [simp]: "hsCtx (set_phase s ph h) = hsCtx h" "hsClosed (set_phase s ph h) = hsClosed h"
  "hsResult (set_phase s ph h) = hsResult h" "hsReturned (set_phase s ph h) = hsReturned h"
  by (simp_all add: set_phase_def)

inductive_cases forwarder_HandleE: "forwarder_Handle cfg dial h h'"

text \<open>Work left before \<^verbatim>\<open>Handle\<close> can return once the accept loop has left: two steps per
  stream, the wait, and what the context and the peer may still do.\<close>

fun phase_work :: "stream_phase \<Rightarrow> nat" where
  "phase_work Dialling = 2"
| "phase_work (Piping l) = 1"
| "phase_work (Finished l) = 0"

definition handle_work :: "fw_session \<Rightarrow> nat" where
  "handle_work h = sum_list (map (phase_work \<circ> snd) (hsStreams h)) + (if hsReturned h then 0 else 1) +
     (if hsCtx h = None then 1 else 0) + (if hsClosed h then 0 else 1)"

definition hs_inv :: "forwarder_config \<Rightarrow> (string \<Rightarrow> nat \<Rightarrow> nat result) \<Rightarrow> fw_session \<Rightarrow> bool" where
  "hs_inv cfg dial h \<longleftrightarrow> distinct (map fst (hsStreams h)) \<and>
     (hsReturned h \<longrightarrow> hsResult h \<noteq> None \<and> all_finished h) \<and>
     (\<forall>s l. phase_of h s = Some (Piping l) \<longrightarrow> dial (fwLocalAddr cfg) s = Inr l) \<and>
     (\<forall>s l. phase_of h s = Some (Finished (Some l)) \<longrightarrow> dial (fwLocalAddr cfg) s = Inr l) \<and>
     (\<forall>s. phase_of h s = Some (Finished None) \<longrightarrow> \<not> is_ok (dial (fwLocalAddr cfg) s)) \<and>
     (\<forall>r. hsResult h = Some r \<longrightarrow> (\<exists>err c. r = handle_result err c \<and> (c = None \<or> c = hsCtx h)))"

lemma all_finished_set:
  "all_finished h \<Longrightarrow> phase_of h s = Some ph \<Longrightarrow> (\<And>l. ph \<noteq> Finished l) \<Longrightarrow> P"
  unfolding all_finished_def by blast

lemma set_phase_distinct: "distinct (map fst (hsStreams h)) \<Longrightarrow> distinct (map fst (hsStreams (set_phase s ph h)))"
  by (simp add: set_phase_def distinct_update)

lemma Handle_inv: "forwarder_Handle cfg dial h h' \<Longrightarrow> hs_inv cfg dial h \<Longrightarrow> hs_inv cfg dial h'"
proof (induction rule: forwarder_Handle.induct)
  case (dialled h s)
  then have "\<not> hsReturned h" using all_finished_set[of h s Dialling] by (auto simp: hs_inv_def)
  then show ?case using dialled by (auto simp: hs_inv_def serveStream_def set_phase_distinct simp del: map_of_eq_Some_iff split: sum.splits if_split_asm)
next
  case (piped h s l)
  then have "\<not> hsReturned h" using all_finished_set[of h s "Piping l"] by (auto simp: hs_inv_def)
  then show ?case using piped by (auto simp: hs_inv_def set_phase_distinct simp del: map_of_eq_Some_iff split: if_split_asm)
next
  case (cancel h e)
  then show ?case unfolding hs_inv_def all_finished_def by simp blast
qed (auto simp: hs_inv_def all_finished_def set_phase_distinct simp del: map_of_eq_Some_iff split: if_split_asm)

lemma Handle_reach_inv: "(forwarder_Handle cfg dial)\<^sup>*\<^sup>* hs_init h \<Longrightarrow> hs_inv cfg dial h"
proof (induction rule: rtranclp_induct)
  case base
  show ?case by (simp add: hs_inv_def hs_init_def)
next
  case (step y z)
  then show ?case using Handle_inv by blast
qed

lemma update_work:
  "map_of xs s = Some ph \<Longrightarrow>
   sum_list (map (phase_work \<circ> snd) (AList.update s ph' xs)) + phase_work ph = sum_list (map (phase_work \<circ> snd) xs) + phase_work ph'"
  by (induction xs) (auto split: if_split_asm)

lemma set_phase_work:
  assumes "phase_of h s = Some ph" "phase_work ph' < phase_work ph"
  shows "handle_work (set_phase s ph' h) < handle_work h"
  using update_work[OF assms(1), of ph'] assms(2) by (simp add: handle_work_def set_phase_def)

lemma Handle_draining:
  assumes "forwarder_Handle cfg dial h h'" "hsResult h \<noteq> None"
  shows "hsResult h' \<noteq> None \<and> handle_work h' < handle_work h"
  using assms
proof (induction rule: forwarder_Handle.induct)
  case (dialled h s)
  have "phase_work (serveStream cfg dial s) < phase_work Dialling" by (simp add: serveStream_def split: sum.splits)
  then show ?case using dialled set_phase_work by auto
next
  case (piped h s l)
  then show ?case using set_phase_work[OF piped(1), of "Finished (Some l)"] by simp
qed (auto simp: handle_work_def)

lemma Handle_drains:
  "(forwarder_Handle cfg dial ^^ n) h h' \<Longrightarrow> hsResult h \<noteq> None \<Longrightarrow> hsResult h' \<noteq> None \<and> n + handle_work h' \<le> handle_work h"
proof (induction n arbitrary: h')
  case (Suc n)
  then obtain t where "(forwarder_Handle cfg dial ^^ n) h t" "forwarder_Handle cfg dial t h'" by auto
  then show ?case using Suc Handle_draining by fastforce
qed simp

lemma Handle_not_stuck:
  assumes "hsResult h \<noteq> None" "\<not> hsReturned h"
  shows "\<exists>h'. forwarder_Handle cfg dial h h'"
proof (cases "all_finished h")
  case True
  then show ?thesis using assms return by blast
next
  case False
  then obtain s ph where ph: "phase_of h s = Some ph" "\<nexists>l. ph = Finished l" unfolding all_finished_def by blast
  then show ?thesis by (cases ph) (blast intro: dialled piped)+
qed

section \<open>Properties\<close>

text \<open>
  Streams are isolated and nothing leaks, in every interleaving of the accept loop, the streams'
  goroutines, the context and the watcher. A step concerns one stream at most, so a failed dial or an ended
  pipe leaves the others alone. The loop's value is nil on an orderly shutdown, the context's error when it
  is cancelled, and the wrapped accept error otherwise. When the handler has returned, every stream it
  accepted has been closed, and so has every local connection dialled for one. And it does return: once the
  loop has left, it is never stuck and only finitely many steps are possible.\<close>
theorem forwarder_no_leak:
  assumes "(forwarder_Handle cfg dial)\<^sup>*\<^sup>* hs_init h"
  shows "(\<forall>h'. forwarder_Handle cfg dial h h' \<longrightarrow> (\<exists>s. \<forall>t. t \<noteq> s \<longrightarrow> phase_of h' t = phase_of h t)) \<and>
    (\<forall>r. hsResult h = Some r \<longrightarrow> r = None \<or> r = hsCtx h \<or> (\<exists>err. r = Some (Wrap ''accept stream'' err))) \<and>
    (hsReturned h \<longrightarrow> (\<forall>s ph. phase_of h s = Some ph \<longrightarrow>
       ph = Finished (case dial (fwLocalAddr cfg) s of Inl _ \<Rightarrow> None | Inr l \<Rightarrow> Some l))) \<and>
    (hsResult h \<noteq> None \<longrightarrow> (\<forall>n h'. (forwarder_Handle cfg dial ^^ n) h h' \<longrightarrow>
       n \<le> handle_work h \<and> (hsReturned h' \<or> (\<exists>h''. forwarder_Handle cfg dial h' h''))))"
proof (intro conjI allI impI)
  note I = Handle_reach_inv[OF assms, unfolded hs_inv_def]
  show "\<exists>s. \<forall>t. t \<noteq> s \<longrightarrow> phase_of h' t = phase_of h t" if "forwarder_Handle cfg dial h h'" for h'
    using that by (cases rule: forwarder_Handle.cases) auto
  show "r = None \<or> r = hsCtx h \<or> (\<exists>err. r = Some (Wrap ''accept stream'' err))" if "hsResult h = Some r" for r
    using I that by (auto simp: handle_result_def split: option.splits if_split_asm)
  show "ph = Finished (case dial (fwLocalAddr cfg) s of Inl _ \<Rightarrow> None | Inr l \<Rightarrow> Some l)"
    if rt: "hsReturned h" and ph: "phase_of h s = Some ph" for s ph
  proof -
    obtain l where l: "ph = Finished l" using I rt ph unfolding all_finished_def by blast
    then show ?thesis using I ph by (cases l; cases "dial (fwLocalAddr cfg) s") (auto simp del: map_of_eq_Some_iff)
  qed
  show "n \<le> handle_work h" if "hsResult h \<noteq> None" "(forwarder_Handle cfg dial ^^ n) h h'" for n h'
    using Handle_drains[OF that(2,1)] by simp
  show "hsReturned h' \<or> (\<exists>h''. forwarder_Handle cfg dial h' h'')"
    if "hsResult h \<noteq> None" "(forwarder_Handle cfg dial ^^ n) h h'" for n h'
    using Handle_drains[OF that(2,1)] Handle_not_stuck by blast
qed

theorem forwarder_no_leak_witness:
  "\<exists>h. (forwarder_Handle (forwarder_New \<lparr>fwLocalAddr = [], fwDialTimeout = 0\<rparr>) (\<lambda>_ s. Inr (s + 100)))\<^sup>*\<^sup>* hs_init h \<and>
     hsReturned h \<and> phase_of h 1 = Some (Finished (Some 101))"
proof -
  let ?c = "forwarder_New \<lparr>fwLocalAddr = [], fwDialTimeout = 0\<rparr>" and ?d = "\<lambda>_ s. Inr (s + 100) :: nat result"
  let ?R = "forwarder_Handle ?c ?d"
  define h1 where "h1 = set_phase 1 Dialling hs_init"
  define h2 where "h2 = set_phase 1 (serveStream ?c ?d 1) h1"
  define h3 where "h3 = h2\<lparr>hsResult := Some (handle_result io_EOF (hsCtx h2))\<rparr>"
  define h4 where "h4 = set_phase 1 (Finished (Some 101)) h3"
  define h5 where "h5 = h4\<lparr>hsReturned := True\<rparr>"
  have "?R hs_init h1" unfolding h1_def by (rule accept) (simp_all add: hs_init_def)
  moreover have "?R h1 h2" unfolding h2_def by (rule dialled) (simp add: h1_def)
  moreover have "?R h2 h3" unfolding h3_def by (rule accept_error) (simp add: h2_def h1_def hs_init_def)
  moreover have "?R h3 h4" unfolding h4_def by (rule piped) (simp add: h3_def h2_def serveStream_def)
  moreover have "?R h4 h5" unfolding h5_def
    by (rule return) (auto simp: h4_def h3_def h2_def h1_def hs_init_def all_finished_def)
  ultimately have r: "?R\<^sup>*\<^sup>* hs_init h5" by (meson rtranclp.rtrancl_into_rtrancl rtranclp.rtrancl_refl)
  have p: "hsReturned h5" "phase_of h5 1 = Some (Finished (Some 101))" by (simp_all add: h5_def h4_def)
  from forwarder_no_leak[OF r] p r show ?thesis by blast
qed



end
