(* ===== verification/Agent_Session.thy ===== *)
theory Agent_Session
  imports Wind_Down Tunnel_Dialer Forwarder
begin

text \<open>
  One tunnel session of the agent: the dialer's \<^verbatim>\<open>runSession\<close> (\<^verbatim>\<open>tunneld/tunnel/dialer.go\<close>) with the forwarder's
  \<^verbatim>\<open>Handle\<close> (\<^verbatim>\<open>tunneld/forward/forwarder.go\<close>) as its handler, as \<^verbatim>\<open>cmd/ssh-tunneld/main.go\<close> puts them together. The
  lemmas show that the composition behaves as each part does alone and that it ends once the session has
  closed or the agent stops.
\<close>

section \<open>The composition\<close>

record agent_sys =
  asRun :: run_session
  asFw :: fw_session

definition agent_start :: "bool \<Rightarrow> agent_sys" where
  "agent_start stopped = \<lparr>asRun = runSession stopped False, asFw = hs_init\<rparr>"

definition context_Canceled :: go_error where
  "context_Canceled = Sentinel ''context canceled''"

text \<open>
  What comes from outside: the agent is told to stop, the session drops, the gateway opens streams, the
  multiplexer breaks, the ends of a stream hang up.
\<close>

inductive agent_env :: "agent_sys \<Rightarrow> agent_sys \<Rightarrow> bool" where
  ae_stop: "agent_env z (z\<lparr>asRun := (asRun z)\<lparr>rnParent := True\<rparr>\<rparr>)"
| ae_drop: "\<not> hsClosed (asFw z) \<Longrightarrow> agent_env z (z\<lparr>asRun := (asRun z)\<lparr>rnClosed := True\<rparr>, asFw := (asFw z)\<lparr>hsClosed := True\<rparr>\<rparr>)"
| ae_accept: "hsResult (asFw z) = None \<Longrightarrow> \<not> hsClosed (asFw z) \<Longrightarrow> phase_of (asFw z) s = None \<Longrightarrow>
     agent_env z (z\<lparr>asFw := set_phase s Dialling (asFw z)\<rparr>)"
| ae_broken: "hsResult (asFw z) = None \<Longrightarrow>
     agent_env z (z\<lparr>asFw := (asFw z)\<lparr>hsResult := Some (handle_result err (hsCtx (asFw z)))\<rparr>\<rparr>)"
| ae_hangup: "phase_of (asFw z) s = Some (Piping l) \<Longrightarrow> agent_env z (z\<lparr>asFw := set_phase s (Finished (Some l)) (asFw z)\<rparr>)"

text \<open>
  The agent's own goroutines. The handler sees the cancelled context, its watcher closes the session, the
  closed session ends \<^verbatim>\<open>AcceptStream\<close>, dials come back, pipes end when the session or the context has, and
  the handler's return is that of \<^verbatim>\<open>runSession\<close>, whose deferred \<^verbatim>\<open>cancel\<close> runs.
\<close>

inductive agent_work :: "forwarder_config \<Rightarrow> (string \<Rightarrow> nat \<Rightarrow> nat result) \<Rightarrow> agent_sys \<Rightarrow> agent_sys \<Rightarrow> bool"
  for cfg dial where
  aw_watch: "watcher_step (asRun z) r' \<Longrightarrow> agent_work cfg dial z (z\<lparr>asRun := r'\<rparr>)"
| aw_cancel: "subCtx_done (asRun z) \<Longrightarrow> hsCtx (asFw z) = None \<Longrightarrow>
     agent_work cfg dial z (z\<lparr>asFw := (asFw z)\<lparr>hsCtx := Some context_Canceled\<rparr>\<rparr>)"
| aw_close: "hsCtx (asFw z) \<noteq> None \<Longrightarrow> hsResult (asFw z) = None \<Longrightarrow> \<not> hsClosed (asFw z) \<Longrightarrow>
     agent_work cfg dial z (z\<lparr>asRun := (asRun z)\<lparr>rnClosed := True\<rparr>, asFw := (asFw z)\<lparr>hsClosed := True\<rparr>\<rparr>)"
| aw_unblocked: "hsClosed (asFw z) \<Longrightarrow> hsResult (asFw z) = None \<Longrightarrow>
     agent_work cfg dial z (z\<lparr>asFw := (asFw z)\<lparr>hsResult := Some (handle_result ErrSessionShutdown (hsCtx (asFw z)))\<rparr>\<rparr>)"
| aw_dialled: "phase_of (asFw z) s = Some Dialling \<Longrightarrow>
     agent_work cfg dial z (z\<lparr>asFw := set_phase s (serveStream cfg dial s) (asFw z)\<rparr>)"
| aw_piped: "phase_of (asFw z) s = Some (Piping l) \<Longrightarrow> hsClosed (asFw z) \<or> hsCtx (asFw z) \<noteq> None \<Longrightarrow>
     agent_work cfg dial z (z\<lparr>asFw := set_phase s (Finished (Some l)) (asFw z)\<rparr>)"
| aw_return: "hsResult (asFw z) = Some r \<Longrightarrow> \<not> hsReturned (asFw z) \<Longrightarrow> all_finished (asFw z) \<Longrightarrow>
     agent_work cfg dial z (z\<lparr>asRun := (asRun z)\<lparr>rnResult := Some r, rnCancelled := True\<rparr>, asFw := (asFw z)\<lparr>hsReturned := True\<rparr>\<rparr>)"

inductive agent_reachable :: "forwarder_config \<Rightarrow> (string \<Rightarrow> nat \<Rightarrow> nat result) \<Rightarrow> bool \<Rightarrow> agent_sys \<Rightarrow> bool"
  for cfg dial p where
  ar_start: "agent_reachable cfg dial p (agent_start p)"
| ar_env: "agent_reachable cfg dial p z \<Longrightarrow> agent_env z z' \<Longrightarrow> agent_reachable cfg dial p z'"
| ar_work: "agent_reachable cfg dial p z \<Longrightarrow> agent_work cfg dial z z' \<Longrightarrow> agent_reachable cfg dial p z'"

section \<open>Each part as it is alone\<close>

text \<open>The two parts agree on the session and on the return.\<close>

definition agent_glue :: "agent_sys \<Rightarrow> bool" where
  "agent_glue z \<longleftrightarrow> rnClosed (asRun z) = hsClosed (asFw z) \<and>
     rnResult (asRun z) = (if hsReturned (asFw z) then hsResult (asFw z) else None) \<and>
     (hsCtx (asFw z) \<noteq> None \<longrightarrow> subCtx_done (asRun z)) \<and> (hsReturned (asFw z) \<longrightarrow> hsResult (asFw z) \<noteq> None)"

definition agent_inv :: "forwarder_config \<Rightarrow> (string \<Rightarrow> nat \<Rightarrow> nat result) \<Rightarrow> agent_sys \<Rightarrow> bool" where
  "agent_inv cfg dial z \<longleftrightarrow> agent_glue z \<and> session_inv (asRun z) \<and> hs_inv cfg dial (asFw z)"

lemma env_glue: "agent_env z z' \<Longrightarrow> agent_glue z \<Longrightarrow> agent_glue z'"
  by (induction rule: agent_env.induct) (auto simp: agent_glue_def subCtx_done_def)

lemma work_glue: "agent_work cfg dial z z' \<Longrightarrow> agent_glue z \<Longrightarrow> agent_glue z'"
  by (induction rule: agent_work.induct) (auto simp: agent_glue_def subCtx_done_def elim!: watcher_step.cases)

lemma env_fw: "agent_env z z' \<Longrightarrow> asFw z' = asFw z \<or> forwarder_Handle cfg dial (asFw z) (asFw z')"
  by (induction rule: agent_env.induct) (auto intro: forwarder_Handle.intros)

lemma work_fw: "agent_work cfg dial z z' \<Longrightarrow> asFw z' = asFw z \<or> forwarder_Handle cfg dial (asFw z) (asFw z')"
  by (induction rule: agent_work.induct) (auto intro: forwarder_Handle.intros)

lemma env_run: "agent_env z z' \<Longrightarrow> asRun z' = asRun z \<or> session_event (asRun z) (asRun z')"
  by (induction rule: agent_env.induct) (auto intro: session_event.intros)

lemma work_run:
  "agent_work cfg dial z z' \<Longrightarrow> agent_glue z \<Longrightarrow>
   asRun z' = asRun z \<or> session_event (asRun z) (asRun z') \<or> watcher_step (asRun z) (asRun z')"
  by (induction rule: agent_work.induct) (auto simp: agent_glue_def intro: session_event.intros)

lemma session_event_inv: "session_event r r' \<Longrightarrow> session_inv r \<Longrightarrow> session_inv r'"
  by (induction rule: session_event.induct) (auto simp: session_inv_def stop_reason_def)

lemma watcher_step_inv: "watcher_step r r' \<Longrightarrow> session_inv r \<Longrightarrow> session_inv r'"
  by (induction rule: watcher_step.induct) (auto simp: session_inv_def stop_reason_def subCtx_done_def)

lemma agent_start_inv: "agent_inv cfg dial (agent_start p)"
  by (simp add: agent_inv_def agent_start_def agent_glue_def session_inv_def hs_inv_def runSession_def hs_init_def)

lemma env_inv: "agent_env z z' \<Longrightarrow> agent_inv cfg dial z \<Longrightarrow> agent_inv cfg dial z'"
  unfolding agent_inv_def using env_glue[of z z'] env_fw[of z z' cfg dial] env_run[of z z'] Handle_inv[of cfg dial "asFw z" "asFw z'"]
    session_event_inv[of "asRun z" "asRun z'"] by auto

lemma work_inv: "agent_work cfg dial z z' \<Longrightarrow> agent_inv cfg dial z \<Longrightarrow> agent_inv cfg dial z'"
  unfolding agent_inv_def using work_glue[of cfg dial z z'] work_fw[of cfg dial z z'] work_run[of cfg dial z z'] Handle_inv[of cfg dial "asFw z" "asFw z'"]
    session_event_inv[of "asRun z" "asRun z'"] watcher_step_inv[of "asRun z" "asRun z'"] by auto

lemma agent_refines:
  assumes "agent_reachable cfg dial p z"
  shows "agent_inv cfg dial z \<and> (forwarder_Handle cfg dial)\<^sup>*\<^sup>* hs_init (asFw z) \<and> session_reachable (runSession p False) (asRun z)"
  using assms
proof (induction rule: agent_reachable.induct)
  case ar_start
  show ?case using agent_start_inv by (simp add: agent_start_def rn_start)
next
  case (ar_env z z')
  then show ?case using env_inv env_fw[OF ar_env(2), of cfg dial] env_run[OF ar_env(2)]
    by (metis rn_event rtranclp.rtrancl_into_rtrancl)
next
  case (ar_work z z')
  then have "agent_glue z" by (simp add: agent_inv_def)
  with ar_work show ?case using work_inv work_fw[OF ar_work(2)] work_run[OF ar_work(2)]
    by (metis rn_event rn_watch rtranclp.rtrancl_into_rtrancl)
qed

section \<open>The end of a session\<close>

definition agent_left :: "agent_sys \<Rightarrow> nat" where
  "agent_left z = watcher_left (rnWatcher (asRun z)) + handle_work (asFw z) + (if hsResult (asFw z) = None then 1 else 0)"

definition agent_stopping :: "agent_sys \<Rightarrow> bool" where
  "agent_stopping z \<longleftrightarrow> rnClosed (asRun z) \<or> rnParent (asRun z)"

definition agent_ended :: "agent_sys \<Rightarrow> bool" where
  "agent_ended z \<longleftrightarrow> hsReturned (asFw z) \<and> rnWatcher (asRun z) = Gone"

lemma phase_step_work:
  "phase_of h s = Some Dialling \<Longrightarrow> handle_work (set_phase s (serveStream cfg dial s) h) < handle_work h"
  "phase_of h s = Some (Piping l) \<Longrightarrow> handle_work (set_phase s (Finished (Some l)) h) < handle_work h"
  by (rule set_phase_work, assumption, simp add: serveStream_def split: sum.splits)+

lemma agent_less: "agent_work cfg dial z z' \<Longrightarrow> agent_left z' < agent_left z"
proof (induction rule: agent_work.induct)
  case (aw_watch z r')
  then show ?case using watcher_step_less by (simp add: agent_left_def)
next
  case (aw_dialled z s)
  then show ?case using phase_step_work(1)[OF aw_dialled, of cfg dial] by (simp add: agent_left_def)
next
  case (aw_piped z s l)
  then show ?case using phase_step_work(2)[OF aw_piped(1)] by (simp add: agent_left_def)
qed (auto simp: agent_left_def handle_work_def)

lemma env_not_more: "agent_env z z' \<Longrightarrow> hsClosed (asFw z) \<Longrightarrow> agent_left z' \<le> agent_left z"
proof (induction rule: agent_env.induct)
  case (ae_hangup z s l)
  then show ?case using phase_step_work(2)[OF ae_hangup(1)] by (simp add: agent_left_def)
qed (auto simp: agent_left_def handle_work_def)

lemma agent_enabled:
  assumes "agent_inv cfg dial z" "agent_stopping z" "\<not> agent_ended z"
  shows "\<exists>z'. agent_work cfg dial z z'"
proof (cases "rnWatcher (asRun z) = Gone")
  case False
  have "stop_reason (asRun z)" using assms(2) by (auto simp: agent_stopping_def stop_reason_def)
  then obtain r' where "watcher_step (asRun z) r'" using watcher_progress assms(1) False by (auto simp: agent_inv_def)
  from aw_watch[OF this] show ?thesis by blast
next
  case True
  have sub: "subCtx_done (asRun z)" using assms(1) True by (simp add: agent_inv_def session_inv_def subCtx_done_def)
  have nr: "\<not> hsReturned (asFw z)" using assms(3) True by (simp add: agent_ended_def)
  consider "hsCtx (asFw z) = None" | "hsCtx (asFw z) \<noteq> None" "hsResult (asFw z) = None" "\<not> hsClosed (asFw z)"
    | "hsResult (asFw z) = None" "hsClosed (asFw z)"
    | (drain) r where "hsCtx (asFw z) \<noteq> None" "hsResult (asFw z) = Some r" by fastforce
  then show ?thesis
  proof cases
    case drain
    show ?thesis
    proof (cases "all_finished (asFw z)")
      case True
      from aw_return[OF drain(2) nr True] show ?thesis by blast
    next
      case False
      then obtain s ph where ph: "phase_of (asFw z) s = Some ph" "\<nexists>l. ph = Finished l" unfolding all_finished_def by blast
      then show ?thesis using aw_dialled[of z s] aw_piped[of z s] drain(1) by (cases ph) blast+
    qed
  qed (use aw_cancel[OF sub] aw_close aw_unblocked in blast)+
qed

interpretation agent_down: winding_down "agent_work cfg dial" agent_left "agent_inv cfg dial" agent_stopping agent_ended for cfg dial
proof
  fix z z' :: agent_sys
  show "agent_work cfg dial z z' \<Longrightarrow> agent_inv cfg dial z \<Longrightarrow> agent_inv cfg dial z'" by (rule work_inv)
  show "agent_work cfg dial z z' \<Longrightarrow> agent_left z' < agent_left z" by (rule agent_less)
  show "agent_work cfg dial z z' \<Longrightarrow> agent_stopping z \<Longrightarrow> agent_stopping z'"
    by (induction rule: agent_work.induct) (auto simp: agent_stopping_def elim!: watcher_step.cases)
  show "agent_inv cfg dial z \<Longrightarrow> agent_stopping z \<Longrightarrow> \<not> agent_ended z \<Longrightarrow> \<exists>z'. agent_work cfg dial z z'" by (rule agent_enabled)
qed

text \<open>
  C32. A tunnel session of the agent ends, and ends cleanly. In every interleaving of the dialer's watcher, the
  forwarder's accept loop, its watcher and its streams with a gateway that opens streams, a session that
  drops and an agent that is told to stop: a step concerns one stream at most; the handler's context is
  cancelled only when the session closed, the agent stops or the handler returned; when the handler has
  returned, every stream it accepted and every local connection dialled for one are closed, and the session
  reports the handler's result, which is nil, the context's error or a wrapped accept error. Once the
  session has closed or the agent stops, the agent's own steps lead to the handler's return and the
  watcher's end, each leaves less to do, and after the session has closed nothing from outside adds to it.\<close>
theorem agent_session_ends:
  assumes "agent_reachable cfg dial p z"
  shows "(\<forall>z'. agent_env z z' \<or> agent_work cfg dial z z' \<longrightarrow> (\<exists>s. \<forall>t. t \<noteq> s \<longrightarrow> phase_of (asFw z') t = phase_of (asFw z) t)) \<and>
    (subCtx_done (asRun z) \<longrightarrow> stop_reason (asRun z)) \<and>
    (hsReturned (asFw z) \<longrightarrow> rnResult (asRun z) = hsResult (asFw z) \<and>
       (\<exists>r. hsResult (asFw z) = Some r \<and> (r = None \<or> r = hsCtx (asFw z) \<or> (\<exists>err. r = Some (Wrap ''accept stream'' err)))) \<and>
       (\<forall>s ph. phase_of (asFw z) s = Some ph \<longrightarrow>
          ph = Finished (case dial (fwLocalAddr cfg) s of Inl _ \<Rightarrow> None | Inr l \<Rightarrow> Some l))) \<and>
    (rnClosed (asRun z) \<or> rnParent (asRun z) \<longrightarrow>
       (\<exists>z'. (agent_work cfg dial)\<^sup>*\<^sup>* z z' \<and> hsReturned (asFw z') \<and> rnWatcher (asRun z') = Gone)) \<and>
    (\<forall>z'. agent_work cfg dial z z' \<longrightarrow> agent_left z' < agent_left z) \<and>
    (\<forall>z'. agent_env z z' \<and> rnClosed (asRun z) \<longrightarrow> agent_left z' \<le> agent_left z)"
proof -
  note R = agent_refines[OF assms]
  then have inv: "agent_inv cfg dial z" and fw: "(forwarder_Handle cfg dial)\<^sup>*\<^sup>* hs_init (asFw z)"
    and run: "session_reachable (runSession p False) (asRun z)" by blast+
  note glue = inv[unfolded agent_inv_def agent_glue_def]
  note leak = forwarder_no_leak[OF fw]
  show ?thesis
  proof (intro conjI allI impI; (elim conjE)?)
    fix z' assume "agent_env z z' \<or> agent_work cfg dial z z'"
    then have "asFw z' = asFw z \<or> forwarder_Handle cfg dial (asFw z) (asFw z')" using env_fw work_fw by blast
    then show "\<exists>s. \<forall>t. t \<noteq> s \<longrightarrow> phase_of (asFw z') t = phase_of (asFw z) t" using conjunct1[OF leak] by auto
  next
    assume "subCtx_done (asRun z)"
    then show "stop_reason (asRun z)" using runSession_ends(1)[OF run] by blast
  next
    assume ret: "hsReturned (asFw z)"
    then show "rnResult (asRun z) = hsResult (asFw z)" using glue by simp
    show "\<exists>r. hsResult (asFw z) = Some r \<and> (r = None \<or> r = hsCtx (asFw z) \<or> (\<exists>err. r = Some (Wrap ''accept stream'' err)))"
      using ret glue conjunct1[OF conjunct2[OF leak]] by auto
    show "ph = Finished (case dial (fwLocalAddr cfg) s of Inl _ \<Rightarrow> None | Inr l \<Rightarrow> Some l)" if "phase_of (asFw z) s = Some ph" for s ph
      using ret that conjunct1[OF conjunct2[OF conjunct2[OF leak]]] by blast
  next
    assume "rnClosed (asRun z) \<or> rnParent (asRun z)"
    then have "agent_stopping z" by (simp add: agent_stopping_def)
    from agent_down.gets_to_end[OF inv this]
    show "\<exists>z'. (agent_work cfg dial)\<^sup>*\<^sup>* z z' \<and> hsReturned (asFw z') \<and> rnWatcher (asRun z') = Gone" by (simp add: agent_ended_def)
  next
    show "agent_work cfg dial z z' \<Longrightarrow> agent_left z' < agent_left z" for z' by (rule agent_less)
    show "agent_env z z' \<Longrightarrow> rnClosed (asRun z) \<Longrightarrow> agent_left z' \<le> agent_left z" for z' using glue by (intro env_not_more) simp_all
  qed
qed

definition demo_agent_sys :: agent_sys where
  "demo_agent_sys = (agent_start False)\<lparr>asFw := set_phase 1 Dialling hs_init, asRun := (runSession False False)\<lparr>rnParent := True\<rparr>\<rparr>"

theorem agent_session_ends_witness:
  "\<exists>z'. (agent_work (forwarder_New \<lparr>fwLocalAddr = [], fwDialTimeout = 0\<rparr>) (\<lambda>_ s. Inr (s + 100)))\<^sup>*\<^sup>* demo_agent_sys z' \<and> hsReturned (asFw z')"
proof -
  let ?c = "forwarder_New \<lparr>fwLocalAddr = [], fwDialTimeout = 0\<rparr>" and ?d = "\<lambda>_ s. Inr (s + 100) :: nat result"
  have "agent_env (agent_start False) ((agent_start False)\<lparr>asFw := set_phase 1 Dialling (asFw (agent_start False))\<rparr>)"
    by (rule ae_accept) (simp_all add: agent_start_def hs_init_def)
  from ar_env[OF ar_env[OF ar_start this] ae_stop] have "agent_reachable ?c ?d False demo_agent_sys"
    by (simp add: demo_agent_sys_def agent_start_def)
  from agent_session_ends[OF this] show ?thesis by (auto simp: demo_agent_sys_def)
qed

end
