(* ===== verification/Tunneld_Main.thy ===== *)
theory Tunneld_Main
  imports Go_Net Agent_Session Host_Cert
begin

text \<open>
  \<^verbatim>\<open>cmd/ssh-tunneld/main.go\<close>: how the reverse-tunnel agent is put together from its environment. The
  \<^verbatim>\<open>tokyo3-base\<close> helpers (environment look-up, the TLS reloader) and the host name are parameters; logging
  is left out. An environment maps a name to its value, the empty string when unset.
\<close>

type_synonym agent_environ = "string \<Rightarrow> string"

text \<open>\<open>yMustEnv\<close> answers \<^const>\<open>None\<close> when the process is ended for a missing variable.\<close>

record agent_ext =
  yOr :: "agent_environ \<Rightarrow> string \<Rightarrow> string \<Rightarrow> string"
  yFirst :: "agent_environ \<Rightarrow> string list \<Rightarrow> string"
  yMustEnv :: "agent_environ \<Rightarrow> string \<Rightarrow> string option"
  yReloader :: "string \<Rightarrow> string \<Rightarrow> string \<Rightarrow> string \<Rightarrow> unit result"
  yHostname :: "string result"

definition resolveProxyServerName :: "agent_environ \<Rightarrow> string \<Rightarrow> string" where
  "resolveProxyServerName env proxyAddr =
     (let serverName = env ''SSH_TUNNELD_PROXY_SERVER_NAME'' in
      if serverName \<noteq> [] then serverName
      else case SplitHostPort proxyAddr of Inl _ \<Rightarrow> proxyAddr | Inr (host, _) \<Rightarrow> host)"

definition split_principals :: "string \<Rightarrow> string list" where
  "split_principals raw = filter (\<lambda>p. p \<noteq> []) (map TrimSpace (split_on (CHR '','') raw))"

definition buildHostCertRenewer :: "agent_ext \<Rightarrow> agent_environ \<Rightarrow> renewer_config option result" where
  "buildHostCertRenewer x env =
     (let hostKeyPath = env ''SSH_TUNNELD_HOST_KEY'' in
      if hostKeyPath = [] then Inr None
      else if env ''SSH_TUNNELD_CERTD_URL'' = []
      then Inl (Msg ''SSH_TUNNELD_CERTD_URL is required when SSH_TUNNELD_HOST_KEY is set'')
      else
        and_then (wrap_err ''certd client'' (NewClient (env ''SSH_TUNNELD_CERTD_URL'') True)) (\<lambda>_.
          let hostname = (case yHostname x of Inl _ \<Rightarrow> ''localhost'' | Inr h \<Rightarrow> h);
              raw = env ''SSH_TUNNELD_HOST_PRINCIPALS'';
              principals = (if raw \<noteq> [] then split_principals raw else [hostname]) in
          and_then (renewer_New
            \<lparr>rnHasSigner = True, rnHostKeyPath = hostKeyPath,
             rnCertOutputPath = yOr x env ''SSH_TUNNELD_HOST_CERT'' (hostKeyPath @ ''-cert.pub''),
             rnKeyID = yOr x env ''SSH_TUNNELD_HOST_KEY_ID'' (''host:'' @ hostname),
             rnPrincipals = principals, rnRequestedTTL = 0, rnRenewFraction = 0, rnMinRenewInterval = 0, rnRetryBackoff = 0\<rparr>)
            (\<lambda>r. Inr (Some r))))"

text \<open>What is handed to \<^verbatim>\<open>run.Group\<close>. The value \<^const>\<open>None\<close> is a process ended by a missing variable.\<close>

record tunnel_agent =
  agDialer :: dialer_config
  agServerName :: string
  agForwarder :: forwarder_config
  agRenewer :: "renewer_config option"
  agComponents :: "string list"

definition runAgent :: "agent_ext \<Rightarrow> agent_environ \<Rightarrow> tunnel_agent result option" where
  "runAgent x env =
     (case (yMustEnv x env ''SSH_TUNNELD_PROXY_ADDR'', yMustEnv x env ''SSH_TUNNELD_TLS_CERT'',
            yMustEnv x env ''SSH_TUNNELD_TLS_KEY'', yMustEnv x env ''SSH_TUNNELD_TLS_CA'') of
        (Some proxyAddr, Some certPath, Some keyPath, Some proxyCA) \<Rightarrow>
          let certdCA = yFirst x env [''SSH_TUNNELD_CERTD_CA'', ''SSH_TUNNELD_TLS_CA''] in
          Some (if certdCA = [] then Inl (Msg ''SSH_TUNNELD_CERTD_CA or SSH_TUNNELD_TLS_CA is required for certd verification'')
            else
              and_then (wrap_err ''tls reloader'' (yReloader x certPath keyPath proxyCA certdCA)) (\<lambda>_.
              let fwd = forwarder_New \<lparr>fwLocalAddr = yOr x env ''SSH_TUNNELD_LOCAL_SSHD'' DefaultLocalAddr, fwDialTimeout = 0\<rparr> in
              and_then (wrap_err ''dialer'' (dialer_New
                \<lparr>dlTarget = proxyAddr, dlHasTLS = True, dlHasHandler = True, dlDialTimeout = 0,
                 dlInitialBackoff = 0, dlMaxBackoff = 0, dlBackoffJitter = 0\<rparr>)) (\<lambda>d.
              and_then (wrap_err ''host cert renewer'' (buildHostCertRenewer x env)) (\<lambda>r.
              Inr \<lparr>agDialer = d, agServerName = resolveProxyServerName env proxyAddr, agForwarder = fwd, agRenewer = r,
                   agComponents = [''dialer'', ''reloader''] @ (if r = None then [] else [''renewer''])\<rparr>))))
      | _ \<Rightarrow> None)"

text \<open>The context's own error ends the agent quietly.\<close>

definition agent_exit :: "go_error \<Rightarrow> go_error option \<Rightarrow> go_error option" where
  "agent_exit Canceled err =
     (case err of None \<Rightarrow> None | Some e \<Rightarrow> if errors_is e Canceled then None else Some (Wrap ''agent'' e))"

section \<open>What the agent is made of\<close>

lemma split_principals_clean:
  "p \<in> set (split_principals raw) \<Longrightarrow> p \<noteq> [] \<and> CHR '','' \<notin> set p \<and> TrimSpace p = p"
  using split_on_no_sep set_TrimSpace by (fastforce simp: split_principals_def)

lemma renewer_New_Inr:
  "renewer_New cfg = Inr r \<Longrightarrow> rnHostKeyPath r = rnHostKeyPath cfg \<and> rnPrincipals r = rnPrincipals cfg \<and> rnPrincipals r \<noteq> [] \<and>
     (rnRenewFraction cfg = 0 \<longrightarrow> rnRenewFraction r = DefaultRenewFraction) \<and>
     (rnMinRenewInterval cfg = 0 \<longrightarrow> rnMinRenewInterval r = DefaultMinRenewInterval)"
  by (auto simp: renewer_New_def Let_def split: if_split_asm)

text \<open>A renewer is built with clean principals only, never none, and renews strictly inside a certificate's life.\<close>

lemma built_renewer:
  assumes "buildHostCertRenewer x env = Inr (Some r)"
  shows "rnHostKeyPath r = env ''SSH_TUNNELD_HOST_KEY'' \<and> rnPrincipals r \<noteq> [] \<and>
    (env ''SSH_TUNNELD_HOST_PRINCIPALS'' \<noteq> [] \<longrightarrow>
       (\<forall>p \<in> set (rnPrincipals r). p \<noteq> [] \<and> CHR '','' \<notin> set p \<and> TrimSpace p = p)) \<and>
    rnRenewFraction r = DefaultRenewFraction \<and> rnMinRenewInterval r = 1 * minute"
proof -
  have e: "env ''SSH_TUNNELD_HOST_KEY'' \<noteq> []" "env ''SSH_TUNNELD_CERTD_URL'' \<noteq> []"
    using assms by (auto simp: buildHostCertRenewer_def Let_def split: if_split_asm)
  obtain cfg h where "renewer_New cfg = Inr r" and c: "rnHostKeyPath cfg = env ''SSH_TUNNELD_HOST_KEY''" "rnRenewFraction cfg = 0"
    "rnMinRenewInterval cfg = 0"
    "rnPrincipals cfg = (if env ''SSH_TUNNELD_HOST_PRINCIPALS'' \<noteq> [] then split_principals (env ''SSH_TUNNELD_HOST_PRINCIPALS'') else [h])"
    using assms e by (auto simp: buildHostCertRenewer_def Let_def and_then_Inr)
  with renewer_New_Inr[OF this(1)] show ?thesis using split_principals_clean by (auto simp: DefaultMinRenewInterval_def)
qed

text \<open>A list of separators names nobody, and the agent does not start.\<close>

lemma blank_principals_refused:
  assumes "env ''SSH_TUNNELD_HOST_KEY'' \<noteq> []" "env ''SSH_TUNNELD_CERTD_URL'' \<noteq> []"
    "env ''SSH_TUNNELD_HOST_PRINCIPALS'' \<noteq> []" "split_principals (env ''SSH_TUNNELD_HOST_PRINCIPALS'') = []"
  shows "\<not> is_ok (buildHostCertRenewer x env)"
proof
  assume "is_ok (buildHostCertRenewer x env)"
  then obtain cfg r where c: "renewer_New cfg = Inr r" "rnPrincipals cfg = []"
    using assms by (auto simp: buildHostCertRenewer_def Let_def and_then_Inr is_ok_def split: sum.splits)
  then show False using renewer_New_Inr[OF c(1)] by auto
qed

text \<open>A started agent reconnects on the default schedule and dials the local sshd.\<close>

lemma started_agent:
  assumes "runAgent x env = Some (Inr a)"
  shows "dlInitialBackoff (agDialer a) = DefaultInitialBackoff \<and> dlMaxBackoff (agDialer a) = DefaultMaxBackoff \<and>
    fwDialTimeout (agForwarder a) = forward_DefaultDialTimeout \<and> fwLocalAddr (agForwarder a) \<noteq> [] \<and>
    (agRenewer a = None \<longleftrightarrow> env ''SSH_TUNNELD_HOST_KEY'' = [])"
proof -
  obtain d r t l where d: "dialer_New \<lparr>dlTarget = t, dlHasTLS = True, dlHasHandler = True, dlDialTimeout = 0,
                 dlInitialBackoff = 0, dlMaxBackoff = 0, dlBackoffJitter = 0\<rparr> = Inr d" and r: "buildHostCertRenewer x env = Inr r"
    and a: "agDialer a = d" "agRenewer a = r" "agForwarder a = forwarder_New \<lparr>fwLocalAddr = l, fwDialTimeout = 0\<rparr>"
    using assms by (auto simp: runAgent_def Let_def and_then_Inr split: option.splits if_split_asm)
  have "dlInitialBackoff d = DefaultInitialBackoff \<and> dlMaxBackoff d = DefaultMaxBackoff"
    using d by (auto simp: dialer_New_def dialer_defaults_def Let_def split: if_split_asm)
  moreover have "r = None \<longleftrightarrow> env ''SSH_TUNNELD_HOST_KEY'' = []"
    using r by (auto simp: buildHostCertRenewer_def Let_def and_then_Inr split: if_split_asm)
  ultimately show ?thesis using a by (simp add: forwarder_New_def DefaultLocalAddr_def)
qed

end
