(* ===== verification/Command_Line.thy ===== *)
theory Command_Line
  imports Proxyd_Main Tunneld_Main
begin

text \<open>
  The commands of the two programs: \<^verbatim>\<open>main\<close>, \<^verbatim>\<open>rootCmd\<close>, \<^verbatim>\<open>serveCmd\<close>, \<^verbatim>\<open>runCmd\<close> and \<^verbatim>\<open>versionCmd\<close> of \<^verbatim>\<open>cmd/ssh-proxyd/main.go\<close> and
  \<^verbatim>\<open>cmd/ssh-tunneld/main.go\<close>. The cobra library's \<^verbatim>\<open>Execute\<close> is a parameter, with what its documentation says of a
  known and of an unknown subcommand as \<open>execute_spec\<close>. The lemmas give the exit status and the effects of each
  command.
\<close>

section \<open>Commands\<close>

text \<open>
  An action changes the process, its standard output and its files, and answers its error; the answer \<^const>\<open>None\<close>
  is an action in which the process was ended.
\<close>

record process =
  stdout :: string
  disk :: fs

type_synonym action = "process \<Rightarrow> go_error option option \<times> process"

datatype cobra_command =
  Command (cmdUse: string) (cmdShort: string) (cmdRun: "action option") (cmdSubs: "cobra_command list")

definition AddCommand :: "cobra_command \<Rightarrow> cobra_command list \<Rightarrow> cobra_command" where
  "AddCommand c subs = Command (cmdUse c) (cmdShort c) (cmdRun c) (cmdSubs c @ subs)"

definition print_version :: "string \<Rightarrow> string \<Rightarrow> action" where
  "print_version app resolved p = (Some None, p\<lparr>stdout := stdout p @ app @ '' '' @ resolved @ [CHR 0x0A]\<rparr>)"

definition versionCmd :: "string \<Rightarrow> string \<Rightarrow> cobra_command" where
  "versionCmd app resolved = Command ''version'' ''Print version and exit'' (Some (print_version app resolved)) []"

subsection \<open>The gateway\<close>

definition proxyd_appName :: string where "proxyd_appName = ''ssh-proxyd''"

text \<open>\<open>run_group\<close> is the run of the started components: its error and the files it leaves.\<close>

definition serve_action :: "(fs \<Rightarrow> wiring result \<times> fs) \<Rightarrow> (wiring \<Rightarrow> fs \<Rightarrow> unit result \<times> fs) \<Rightarrow> action" where
  "serve_action start run_group p =
     (case start (disk p) of (started, f) \<Rightarrow>
        (Some (case run_serve (\<lambda>w. fst (run_group w f)) started of Inl e \<Rightarrow> Some e | Inr _ \<Rightarrow> None),
         p\<lparr>disk := (case started of Inl _ \<Rightarrow> f | Inr w \<Rightarrow> snd (run_group w f))\<rparr>))"

definition serveCmd :: "action \<Rightarrow> cobra_command" where
  "serveCmd serve = Command ''serve'' ''Start the SSH gateway'' (Some serve) []"

definition proxyd_rootCmd :: "action \<Rightarrow> string \<Rightarrow> cobra_command" where
  "proxyd_rootCmd serve resolved =
     AddCommand (Command proxyd_appName ''tokyo3-ssh-proxy SSH gateway and session recorder'' None [])
       [serveCmd serve, versionCmd proxyd_appName resolved]"

subsection \<open>The agent\<close>

definition tunneld_appName :: string where "tunneld_appName = ''ssh-tunneld''"

text \<open>\<open>started\<close> is the set-up of \<^verbatim>\<open>runAgent\<close>, which a missing variable can end; \<open>run_group\<close> as above.\<close>

definition run_action :: "(fs \<Rightarrow> tunnel_agent result option) \<Rightarrow> (tunnel_agent \<Rightarrow> fs \<Rightarrow> go_error option \<times> fs) \<Rightarrow> action" where
  "run_action start run_group p =
     (case start (disk p) of
        None \<Rightarrow> (None, p)
      | Some (Inl e) \<Rightarrow> (Some (Some e), p)
      | Some (Inr a) \<Rightarrow> (case run_group a (disk p) of (err, f) \<Rightarrow> (Some (agent_exit context_Canceled err), p\<lparr>disk := f\<rparr>)))"

definition tunneld_versionCmd :: "string \<Rightarrow> cobra_command" where
  "tunneld_versionCmd = versionCmd tunneld_appName"

definition runCmd :: "action \<Rightarrow> cobra_command" where
  "runCmd agent = Command ''run'' ''Run the tunnel agent in the foreground'' (Some agent) []"

definition tunneld_rootCmd :: "action \<Rightarrow> string \<Rightarrow> cobra_command" where
  "tunneld_rootCmd agent resolved =
     AddCommand (Command tunneld_appName ''tokyo3-ssh-proxy reverse-tunnel agent'' None [])
       [runCmd agent, tunneld_versionCmd resolved]"

subsection \<open>Execution\<close>

type_synonym executor = "cobra_command \<Rightarrow> string list \<Rightarrow> action"

text \<open>\<^verbatim>\<open>main\<close>: status 1 when \<^verbatim>\<open>Execute\<close> answers an error. \<^const>\<open>None\<close> is a process that ended inside its action.\<close>

definition main :: "executor \<Rightarrow> cobra_command \<Rightarrow> string list \<Rightarrow> process \<Rightarrow> nat option \<times> process" where
  "main Execute cmd args p = (case Execute cmd args p of (r, p') \<Rightarrow> (map_option (\<lambda>e. if e = None then 0 else 1) r, p'))"

definition proxyd_main ::
  "executor \<Rightarrow> ext \<Rightarrow> environ \<Rightarrow> string result \<Rightarrow> links \<Rightarrow> mint_env \<Rightarrow> (wiring \<Rightarrow> fs \<Rightarrow> unit result \<times> fs) \<Rightarrow>
   string list \<Rightarrow> process \<Rightarrow> nat option \<times> process" where
  "proxyd_main Execute x env cwd lk m run_group =
     main Execute (proxyd_rootCmd (serve_action (runServe x env cwd lk m) run_group) (xVersion x))"

definition tunneld_main ::
  "executor \<Rightarrow> agent_ext \<Rightarrow> agent_environ \<Rightarrow> string \<Rightarrow> (tunnel_agent \<Rightarrow> fs \<Rightarrow> go_error option \<times> fs) \<Rightarrow>
   string list \<Rightarrow> process \<Rightarrow> nat option \<times> process" where
  "tunneld_main Execute x env resolved run_group = main Execute (tunneld_rootCmd (run_action (\<lambda>_. runAgent x env) run_group) resolved)"

definition find_sub :: "cobra_command \<Rightarrow> string \<Rightarrow> cobra_command option" where
  "find_sub c name = find (\<lambda>s. cmdUse s = name) (cmdSubs c)"

text \<open>A subcommand given by its name is run and its error returned; an unknown one is an error.\<close>

definition execute_spec :: "executor \<Rightarrow> bool" where
  "execute_spec Execute \<longleftrightarrow>
     (\<forall>c name s act p. find_sub c name = Some s \<and> cmdRun s = Some act \<longrightarrow> Execute c [name] p = act p) \<and>
     (\<forall>c name p. cmdSubs c \<noteq> [] \<and> cmdRun c = None \<and> name \<notin> {''help'', ''completion''} \<and> hd (name @ ''-'') \<noteq> CHR ''-'' \<and> find_sub c name = None \<longrightarrow>
        (\<exists>e. Execute c [name] p = (Some (Some e), p)))"

section \<open>What each command does\<close>

lemma proxyd_subs:
  "find_sub (proxyd_rootCmd serve v) name =
     (if name = ''serve'' then Some (serveCmd serve) else if name = ''version'' then Some (versionCmd proxyd_appName v) else None)"
  by (auto simp: find_sub_def proxyd_rootCmd_def AddCommand_def serveCmd_def versionCmd_def)

lemma tunneld_subs:
  "find_sub (tunneld_rootCmd agent v) name =
     (if name = ''run'' then Some (runCmd agent) else if name = ''version'' then Some (versionCmd tunneld_appName v) else None)"
  by (auto simp: find_sub_def tunneld_rootCmd_def tunneld_versionCmd_def AddCommand_def runCmd_def versionCmd_def)

lemma known_command:
  "execute_spec Execute \<Longrightarrow> find_sub c name = Some s \<Longrightarrow> cmdRun s = Some act \<Longrightarrow> Execute c [name] p = act p"
  by (simp add: execute_spec_def)

lemma unknown_command:
  assumes "execute_spec Execute" "cmdSubs c \<noteq> [] \<and> cmdRun c = None \<and> name \<notin> {''help'', ''completion''} \<and> hd (name @ ''-'') \<noteq> CHR ''-'' \<and> find_sub c name = None"
  shows "main Execute c [name] p = (Some 1, p)"
proof -
  obtain e where "Execute c [name] p = (Some (Some e), p)" using conjunct2[OF assms(1)[unfolded execute_spec_def]] assms(2) by metis
  then show ?thesis by (simp add: main_def)
qed

text \<open>The gateway exits with status 0 only when it started and its components ended without error.\<close>

lemma serve_status:
  assumes "execute_spec Execute" "main Execute (proxyd_rootCmd (serve_action start run_group) v) [''serve''] p = (st, p')"
  shows "stdout p' = stdout p \<and>
    (case start (disk p) of
       (Inl e, f) \<Rightarrow> st = Some 1 \<and> disk p' = f
     | (Inr w, f) \<Rightarrow> st = Some (if is_ok (fst (run_group w f)) then 0 else 1) \<and> disk p' = snd (run_group w f))"
proof -
  have "Execute (proxyd_rootCmd (serve_action start run_group) v) [''serve''] p = serve_action start run_group p"
    by (rule known_command[OF assms(1)]) (auto simp: proxyd_subs serveCmd_def)
  with assms(2) show ?thesis
    by (auto simp: main_def serve_action_def run_serve_def is_ok_def and_then_def wrap_err_def split: prod.splits sum.splits)
qed

text \<open>The agent exits quietly when it is told to stop, and with status 1 when it cannot start or a component fails.\<close>

lemma run_status:
  assumes "execute_spec Execute" "main Execute (tunneld_rootCmd (run_action start run_group) v) [''run''] p = (st, p')"
  shows "stdout p' = stdout p \<and>
    (case start (disk p) of
       None \<Rightarrow> st = None \<and> p' = p
     | Some (Inl e) \<Rightarrow> st = Some 1 \<and> p' = p
     | Some (Inr a) \<Rightarrow> disk p' = snd (run_group a (disk p)) \<and>
         (st = Some 0 \<longleftrightarrow> (\<forall>e. fst (run_group a (disk p)) = Some e \<longrightarrow> errors_is e context_Canceled)))"
proof -
  have "Execute (tunneld_rootCmd (run_action start run_group) v) [''run''] p = run_action start run_group p"
    by (rule known_command[OF assms(1)]) (auto simp: tunneld_subs runCmd_def)
  with assms(2) show ?thesis
    by (auto simp: main_def run_action_def agent_exit_def split: prod.splits sum.splits option.splits if_splits)
qed

text \<open>Asking for the version prints one line and starts nothing.\<close>

lemma version_prints:
  assumes "execute_spec Execute"
  shows "main Execute (proxyd_rootCmd a v) [''version''] p = (Some 0, p\<lparr>stdout := stdout p @ ''ssh-proxyd '' @ v @ [CHR 0x0A]\<rparr>)"
    and "main Execute (tunneld_rootCmd a v) [''version''] p = (Some 0, p\<lparr>stdout := stdout p @ ''ssh-tunneld '' @ v @ [CHR 0x0A]\<rparr>)"
proof -
  have "Execute (proxyd_rootCmd a v) [''version''] p = print_version proxyd_appName v p"
    by (rule known_command[OF assms]) (auto simp: proxyd_subs versionCmd_def)
  then show "main Execute (proxyd_rootCmd a v) [''version''] p = (Some 0, p\<lparr>stdout := stdout p @ ''ssh-proxyd '' @ v @ [CHR 0x0A]\<rparr>)"
    by (simp add: main_def print_version_def proxyd_appName_def)
  have "Execute (tunneld_rootCmd a v) [''version''] p = print_version tunneld_appName v p"
    by (rule known_command[OF assms]) (auto simp: tunneld_subs versionCmd_def)
  then show "main Execute (tunneld_rootCmd a v) [''version''] p = (Some 0, p\<lparr>stdout := stdout p @ ''ssh-tunneld '' @ v @ [CHR 0x0A]\<rparr>)"
    by (simp add: main_def print_version_def tunneld_appName_def)
qed

text \<open>A command neither program has is refused before anything is read or started.\<close>

lemma unknown_refused:
  assumes "execute_spec Execute" "name \<notin> {''help'', ''completion'', ''version'', ''serve'', ''run''}" "hd (name @ ''-'') \<noteq> CHR ''-''"
  shows "main Execute (proxyd_rootCmd a v) [name] p = (Some 1, p) \<and> main Execute (tunneld_rootCmd a v) [name] p = (Some 1, p)"
proof
  show "main Execute (proxyd_rootCmd a v) [name] p = (Some 1, p)" using assms(2,3)
    by (intro unknown_command[OF assms(1)]) (simp only: proxyd_subs, simp add: proxyd_rootCmd_def AddCommand_def)
  show "main Execute (tunneld_rootCmd a v) [name] p = (Some 1, p)" using assms(2,3)
    by (intro unknown_command[OF assms(1)]) (simp only: tunneld_subs, simp add: tunneld_rootCmd_def AddCommand_def)
qed

text \<open>
  A gateway that exits with status 0 after \<^verbatim>\<open>serve\<close> has started with the configured user authority, whatever its
  components did; one without a user CA exits with status 1.
\<close>

lemma proxyd_main_needs_ca:
  assumes "execute_spec Execute" "proxyd_main Execute x env cwd lk m run_group [''serve''] p = (Some 0, p')"
  shows "env ''SSH_PROXYD_USER_CA'' \<noteq> [] \<and> stdout p' = stdout p"
proof -
  note S = serve_status[OF assms(1) assms(2)[unfolded proxyd_main_def]]
  then obtain w f where w: "runServe x env cwd lk m (disk p) = (Inr w, f)" by (auto split: prod.splits sum.splits)
  then obtain userCA where "loadUserCA x env (disk p) = Inr userCA" by (rule runServe_started)
  with S show ?thesis by (simp add: loadUserCA_Inr)
qed

text \<open>The laws can hold: an executor that looks the first argument up.\<close>

definition lookup_Execute :: executor where
  "lookup_Execute c args p =
     (case args of
        [name] \<Rightarrow> (case Option.bind (find_sub c name) cmdRun of Some act \<Rightarrow> act p | None \<Rightarrow> (Some (Some (Msg (''unknown command '' @ name))), p))
      | _ \<Rightarrow> (Some None, p))"

lemma lookup_Execute_spec: "execute_spec lookup_Execute"
  by (simp add: execute_spec_def lookup_Execute_def)

end
