(* ===== verification/Replay.thy ===== *)
theory Replay
  imports Portal
begin

text \<open>
  The recorder and the portal on one file system: a cast that \<^verbatim>\<open>LocalDirSink\<close> created is a physical file
  below the store's root, so \<^verbatim>\<open>LocalCastStore\<close> opens it. The lemmas follow the directories the sink makes,
  the frame of the recorder's writes, and the store's walk where no symbolic links exist.
\<close>

abbreviation no_links :: links where "no_links \<equiv> \<lambda>_. None"

section \<open>Directories the sink makes\<close>

lemma parent_dirs_member: "rooted_path (acc @ d @ [e]) \<in> set (parent_dirs acc (d @ e # d'))"
proof (induction d arbitrary: acc)
  case (Cons x d)
  then show ?case using Cons[of "acc @ [x]"] by simp
qed simp

lemma MkdirAll_dir_path:
  assumes "list_all proper_elem es" "MkdirAll (rooted_path es) f = (None, f')"
  shows "dir_path f' no_links es"
proof (cases "es = []")
  case False
  have "mkdir_each (parent_dirs [] es) f = (None, f')"
    using assms False by (simp add: MkdirAll_def split_rooted)
  then have "node_at f' (rooted_path (d @ [e])) = Some FDir" if "es = d @ e # d'" for d e d'
    using mkdir_each_new[of _ f f'] parent_dirs_member[of "[]" d e d'] that by fastforce
  then show ?thesis using assms(1) by (simp add: dir_path_def)
qed simp

lemma dir_path_frame:
  assumes "dir_path f no_links es" "\<And>q. node_at f q = Some FDir \<Longrightarrow> node_at f' q = Some FDir"
  shows "dir_path f' no_links es"
  using assms by (auto simp: dir_path_def)

section \<open>The recorder's frame\<close>

text \<open>Writing to a cast changes no other node and keeps the cast a file.\<close>

definition is_file :: "fs \<Rightarrow> string \<Rightarrow> bool" where
  "is_file f p \<longleftrightarrow> node_at f p = Some (FFile (file_bytes f p))"

definition cast_frame :: "string \<Rightarrow> world \<Rightarrow> world \<Rightarrow> bool" where
  "cast_frame p w w' \<longleftrightarrow> (\<forall>q. q \<noteq> p \<longrightarrow> node_at (files w') q = node_at (files w) q) \<and>
     (is_file (files w) p \<longrightarrow> is_file (files w') p) \<and> faults (files w') = faults (files w)"

lemma cast_frame_refl [simp]: "cast_frame p w w"
  by (simp add: cast_frame_def)

lemma cast_frame_trans: "cast_frame p w w1 \<Longrightarrow> cast_frame p w1 w2 \<Longrightarrow> cast_frame p w w2"
  by (auto simp: cast_frame_def)

lemma append_file_is_file: "append_file p b f = (e, f') \<Longrightarrow> is_file f' p"
  by (auto simp: append_file_def is_file_def Let_def split: option.splits if_split_asm)

lemma write_line_frame: "write_line (CastFile p) b w = (e, w') \<Longrightarrow> cast_frame p w w'"
  by (auto simp: write_line_def cast_frame_def append_file_other append_file_is_file append_file_quota split: prod.splits option.splits)

lemma writeEvent_frame: "rec_encoded r = CastFile p \<Longrightarrow> cast_frame p w (snd (writeEvent r k b w))"
  using write_line_frame[of p "event_line (elapsed_micros (rec_started r) (clock w (ticks w))) k b" "w\<lparr>ticks := Suc (ticks w)\<rparr>"]
  by (cases "write_line (CastFile p) (event_line (elapsed_micros (rec_started r) (clock w (ticks w))) k b) (w\<lparr>ticks := Suc (ticks w)\<rparr>)")
    (auto simp: writeEvent_def Now_def cast_frame_def)

lemma rec_run_frame: "rec_encoded r = CastFile p \<Longrightarrow> cast_frame p w (snd (rec_run r ops w))"
  by (induction r ops w rule: rec_run.induct)
    (auto simp: Output_def recorder_Resize_def recorder_Close_def intro: cast_frame_trans writeEvent_frame)

lemma recording_New_frame:
  assumes "recording_New (Some (CastFile p)) x y t st w = (Inr r, w')"
  shows "cast_frame p w w' \<and> rec_encoded r = CastFile p \<and> \<not> rec_closed r"
  using assms
  by (auto simp: recording_New_def writeHeader_def Let_def split: if_split_asm prod.splits option.splits dest: write_line_frame)

section \<open>A recorded cast is a physical file of the root\<close>

text \<open>Where a cast created below \<open>rooted_path rs\<close> lies, and that its directories are real ones.\<close>

lemma LocalDirSink_made:
  assumes "LocalDirSink_OpenCast s m w = (Inr (CastFile p, p), w')" "sink_root s = rooted_path rs" "list_all proper_elem rs"
  obtains day name where "p = rooted_path (rs @ [day, name])" "proper_elem day" "proper_elem name"
    "dir_path (files w') no_links (rs @ [day])" "faults (files w') = faults (files w)"
proof -
  obtain t f where mk: "MkdirAll (path_join [sink_root s, fmt_day t]) (files w) = (None, f)"
    and cr: "create_excl p f = Inr (files w')" and p: "p = cast_path (sink_root s) (castSessionID m) t"
    using assms(1) by (auto simp: LocalDirSink_OpenCast_def Now_def Let_def simp del: path_join.simps
        split: if_split_asm option.splits prod.splits sum.splits)
  have c: "clean_abs (sink_root s)" using assms(2,3) by (auto simp: clean_abs_def)
  let ?day = "fmt_day t" and ?name = "sanitizeFilename (castSessionID m) @ ''.cast''"
  have pr: "proper_elem ?day" "proper_elem ?name" by (rule proper_day, rule proper_cast_name)
  have rd: "list_all proper_elem (rs @ [?day])" using assms(3) pr by simp
  have loc: "p = rooted_path (rs @ [?day, ?name])"
    using p cast_path_below[OF c, of "castSessionID m" t] below_rooted[OF assms(3), of ?day] below_rooted[OF rd, of ?name]
    by (simp add: assms(2))
  have "path_join [sink_root s, ?day] = rooted_path (rs @ [?day])"
    using path_join_below[OF c pr(1)] below_rooted[OF assms(3), of ?day] by (simp add: assms(2) del: path_join.simps)
  then have "dir_path f no_links (rs @ [?day])" using MkdirAll_dir_path[OF rd, of "files w" f] mk by simp
  then have "dir_path (files w') no_links (rs @ [?day])"
    by (rule dir_path_frame) (use create_excl_fresh[OF cr] in auto)
  moreover have "faults (files w') = faults (files w)" using MkdirAll_faults[OF mk] create_excl_fresh[OF cr] by simp
  ultimately show ?thesis using that[of ?day ?name] loc pr by blast
qed

section \<open>The store's walk without links\<close>

lemma walk_no_links:
  "walk_links n f no_links dest es = Inr r \<Longrightarrow> list_all proper_elem es \<Longrightarrow> r = dest @ es"
proof (induction n f no_links dest es rule: walk_links.induct)
  case (2 n f dest e es)
  then show ?case by (auto simp: proper_elem_def Let_def split: option.splits fs_node.splits if_split_asm)
qed simp

lemma EvalSymlinks_no_links:
  "EvalSymlinks f no_links (rooted_path es) = Inr r \<Longrightarrow> list_all proper_elem es \<Longrightarrow> r = rooted_path es"
  by (auto simp: EvalSymlinks_def split_on_walk dest: walk_no_links split: sum.splits)

text \<open>The sink and the store built from one setting share their root.\<close>

lemma shared_root:
  assumes "NewLocalDirSink dir cwd f = (Inr s, f')" "NewLocalCastStore dir cwd no_links f'' = Inr st" "\<And>d. cwd = Inr d \<Longrightarrow> IsAbs d"
  obtains rs where "sink_root s = rooted_path rs" "store_root st = rooted_path rs" "list_all proper_elem rs"
proof -
  obtain rs where rs: "sink_root s = rooted_path rs" "list_all proper_elem rs"
    using NewLocalDirSink_clean[OF assms(1,3)] by (auto simp: clean_abs_def)
  have "abs_or cwd dir = Inr (sink_root s)"
    using assms(1) by (auto simp: NewLocalDirSink_def split: if_split_asm sum.splits prod.splits option.splits)
  then have "EvalSymlinks f'' no_links (sink_root s) = Inr (store_root st)"
    using assms(2) by (auto simp: NewLocalCastStore_def split: if_split_asm sum.splits fs_node.splits)
  then show ?thesis using that[OF rs(1) _ rs(2)] EvalSymlinks_no_links rs by metis
qed

lemma cast_Open_physical:
  assumes "store_root st = rooted_path rs" "rs \<noteq> []" "file_path f no_links (rs @ es) c"
    and "\<And>q. faults f ''lstat'' q = None" "faults f ''stat'' (rooted_path (rs @ es)) = None" "faults f ''open'' (rooted_path (rs @ es)) = None"
  shows "cast_Open st cwd no_links f (rooted_path (rs @ es)) = Inr (c, int (length c))"
proof -
  have pr: "list_all proper_elem (rs @ es)" by (rule file_path_proper[OF assms(3)])
  have cl: "clean_abs (rooted_path (rs @ es))" unfolding clean_abs_def using pr by blast
  have "abs_or cwd (rooted_path (rs @ es)) = Inr (rooted_path (rs @ es))"
    using clean_abs_IsAbs[OF cl] Clean_clean_abs[OF cl] by (simp add: abs_or_def)
  moreover have "inside_root st (rooted_path (rs @ es))"
    using root_check[OF pr, of rs] assms(1,2) pr by (simp add: inside_root_def)
  moreover have "os_Stat f (rooted_path (rs @ es)) = Inr (FFile c)"
    using assms(2,3,5) join_with_Nil_iff[OF pr] by (simp add: os_Stat_def file_path_def)
  moreover have "EvalSymlinks f no_links (rooted_path (rs @ es)) = Inr (rooted_path (rs @ es))"
    using EvalSymlinks_id[of f no_links "rs @ es" c] assms(3,4) by blast
  moreover have "rooted_path (rs @ es) \<noteq> []" by (simp add: rooted_path_def)
  ultimately show ?thesis unfolding cast_Open_Inr using assms(6) by blast
qed


section \<open>From the recorder to the store\<close>

lemma recorded_cast_file:
  assumes st: "StartIfNeeded x y r w = (None, r1, w1)" "crRec r = None" "\<not> crClosed r" "crCast r1 = Some (CastFile p)"
    and sk: "crSink r = LocalDirSink s" "sink_root s = rooted_path rs" "list_all proper_elem rs"
  shows "\<exists>ts. p = rooted_path (rs @ ts) \<and>
    file_path (files (snd (cr_run ops (r1, w1)))) no_links (rs @ ts) (file_bytes (files (snd (cr_run ops (r1, w1)))) p) \<and>
    faults (files (snd (cr_run ops (r1, w1)))) = faults (files w)"
proof -
  obtain m w2 w3 rec where op: "OpenCast (crSink r) m w2 = (Inr (CastFile p, p), w3)" and w2: "files w2 = files w"
    and new: "recording_New (Some (CastFile p)) x y (crUser r @ ''@'' @ crHost r) (crStartedAt r1) w3 = (Inr rec, w1)"
    and rec: "crRec r1 = Some rec" and cl: "crClosed r1 = crClosed r"
    using StartIfNeeded_started[OF st] by auto
  have op': "LocalDirSink_OpenCast s m w2 = (Inr (CastFile p, p), w3)" using op sk(1) by simp
  obtain day name where p: "p = rooted_path (rs @ [day, name])" "proper_elem day" "proper_elem name"
    and d: "dir_path (files w3) no_links (rs @ [day])" and ft: "faults (files w3) = faults (files w2)"
    by (rule LocalDirSink_made[OF op' sk(2,3)])
  let ?f = "files (snd (cr_run ops (r1, w1)))"
  note N = recording_New_frame[OF new]
  have "?f = files (snd (rec_run rec (map to_rec_op ops) w1))" using cr_run_files[OF rec] cl st(3) N by blast
  then have fr: "cast_frame p w3 (snd (cr_run ops (r1, w1)))"
    using N cast_frame_trans[of p w3 w1] rec_run_frame[of rec p w1 "map to_rec_op ops"] by (simp add: cast_frame_def)
  have f3: "node_at (files w3) p = Some (FFile [])" using local.fresh[OF op'] by blast
  then have "is_file ?f p" using fr by (simp add: cast_frame_def is_file_def file_bytes_def)
  moreover have "dir_path ?f no_links (rs @ [day])"
    using d by (rule dir_path_frame) (metis fr f3 cast_frame_def fs_node.distinct(1) option.inject)
  ultimately have "file_path ?f no_links ((rs @ [day]) @ [name]) (file_bytes ?f p)"
    unfolding file_path_snoc using p by (simp add: is_file_def)
  moreover have "faults ?f = faults (files w)" using fr ft w2 by (simp add: cast_frame_def)
  ultimately show ?thesis using p(1) by (intro exI[of _ "[day, name]"]) simp
qed

end
