(* ===== verification/Spec2Isabelle.thy ===== *)
theory Spec2Isabelle
  imports Command_Line Replay
begin

text \<open>
  \<^bold>\<open>A verification library of tokyo3-ssh-proxy.\<close>

  The program is an SSH gateway (\<^verbatim>\<open>ssh-proxyd\<close>) and a reverse-tunnel agent (\<^verbatim>\<open>ssh-tunneld\<close>). A user connects to the
  gateway as \<^verbatim>\<open>user@host\<close> with an SSH certificate; the gateway checks the certificate, dials the host (through the
  tunnel of an agent when one is registered), pipes channels and requests between the two sides under the
  permissions of the certificate, records terminals as asciinema casts, and publishes an audit trail. A web
  portal lists the recorded sessions and replays their casts. The agent keeps one multiplexed connection to
  the gateway, forwards its streams to the local sshd, and renews the host certificate.

  \<^bold>\<open>Theories and sources\<close> (paths below \<^verbatim>\<open>src/internal\<close> unless they start with \<^verbatim>\<open>src/cmd\<close>)

  \<^item> \<^verbatim>\<open>Prelude\<close>: Go errors and results, 64-bit wrap-around and saturation, durations, lemmas on lists and maps.
    \<^verbatim>\<open>Go_Strings\<close>, \<^verbatim>\<open>Go_Net\<close>, \<^verbatim>\<open>Go_Time\<close>, \<^verbatim>\<open>Go_Rfc3339\<close>, \<^verbatim>\<open>Go_Json\<close>, \<^verbatim>\<open>Go_Json_Read\<close>, \<^verbatim>\<open>Go_Json_Types\<close>, \<^verbatim>\<open>Go_Html\<close>, \<^verbatim>\<open>Go_Path\<close>: what
    the program uses of the standard library, written out: UTF-8, splitting and trimming, addresses and
    prefixes, float64 rounding, the calendar and RFC 3339, encoding and decoding of JSON with what
    decoding guarantees (locale \<open>typed_struct\<close>), the escapers of HTML templates and a reader of their output,
    clean paths, and a file system with faults and quotas.
  \<^item> \<^verbatim>\<open>Rbac\<close>: \<^verbatim>\<open>proxyd/rbac/enforcer.go\<close>, the permission gates (default deny) and the source-address check (C1).
  \<^item> \<^verbatim>\<open>Registry\<close>: \<^verbatim>\<open>proxyd/routing/registry.go\<close>, tunnel labels and their owners; an invariant of every
    interleaving and a refinement of a map from labels to live sessions (C3 to C5, C7).
  \<^item> \<^verbatim>\<open>Listener\<close> and \<^verbatim>\<open>Listener_Serve\<close>: \<^verbatim>\<open>proxyd/routing/listener.go\<close>, SPIFFE ids, the tunnel connections side by
    side (C8, C9), and the accept loop with its handlers, a refinement of them that always winds down (C10).
  \<^item> \<^verbatim>\<open>Revcheck\<close>: \<^verbatim>\<open>proxyd/revcheck/revcheck.go\<close>, the polled revocation snapshot and its JSON (C11, C12).
  \<^item> \<^verbatim>\<open>Audit_Log\<close>: \<^verbatim>\<open>audit/audit.go\<close>, entries, their JSON, and the world (clock, UUIDs, journal, files) the sessions act on.
  \<^item> \<^verbatim>\<open>Recording\<close>: \<^verbatim>\<open>proxyd/recording\<close>, the cast writer and its sinks behind the locale \<open>cast_sink\<close> (C13 to C15).
  \<^item> \<^verbatim>\<open>Route_Dial\<close>: \<^verbatim>\<open>proxyd/session/route.go\<close> and \<^verbatim>\<open>dial.go\<close> (C17).
  \<^item> \<^verbatim>\<open>Session_Audit\<close>: \<^verbatim>\<open>subsystem.go\<close>, \<^verbatim>\<open>portforward.go\<close> and \<^verbatim>\<open>recorder.go\<close> of \<^verbatim>\<open>proxyd/session\<close> (C18, C19).
  \<^item> \<^verbatim>\<open>Proxier\<close>: \<^verbatim>\<open>proxyd/session/proxy.go\<close>, the request gates and the channel pipes in every interleaving (C20 to C24).
  \<^item> \<^verbatim>\<open>Ssh_Server\<close> and \<^verbatim>\<open>Ssh_Serve\<close>: \<^verbatim>\<open>proxyd/ssh/server.go\<close>, authentication, the connection handler, tunnel routing
    (C26, C27), and the accept loop with its handlers, which a shutdown drains (C6).
  \<^item> \<^verbatim>\<open>Tunnel_Dialer\<close>: \<^verbatim>\<open>tunneld/tunnel/dialer.go\<close> and \<^verbatim>\<open>common/tunnel/yamux.go\<close>, reconnecting (C29), and one session
    with its watcher.
  \<^item> \<^verbatim>\<open>Host_Cert\<close>: \<^verbatim>\<open>tunneld/hostcert/renewer.go\<close> and \<^verbatim>\<open>common/certclient/certclient.go\<close>, renewal (C30, C31).
  \<^item> \<^verbatim>\<open>Forwarder\<close>: \<^verbatim>\<open>tunneld/forward/forwarder.go\<close>, streams to the local sshd (C33). \<^verbatim>\<open>Agent_Session\<close>: a session of the
    dialer with the forwarder as its handler, a refinement of both that ends cleanly (C32).
  \<^item> \<^verbatim>\<open>Wind_Down\<close>: the contract of a component that winds down (locale \<open>winding_down\<close>), with its lemmas proved once and
    interpreted on the tunnel listener, the SSH server and the agent's session (C10, C6, C32).
  \<^item> \<^verbatim>\<open>Portal_Rows\<close>, \<^verbatim>\<open>Portal_Pages\<close>, \<^verbatim>\<open>Portal_Cast\<close> and \<^verbatim>\<open>Portal\<close>: \<^verbatim>\<open>proxyd/portal\<close>, the rows decoded from the journal
    (C25, C36), the HTML pages (C16), the cast store over a file system with symbolic links behind the locale
    \<open>cast_store\<close> (C34), and the HTTP handlers over a response writer (C2, C35).
  \<^item> \<^verbatim>\<open>Proxyd_Main\<close> and \<^verbatim>\<open>Tunneld_Main\<close>: \<^verbatim>\<open>src/cmd/ssh-proxyd/main.go\<close> and \<^verbatim>\<open>src/cmd/ssh-tunneld/main.go\<close>, the assembly
    from the environment (C37, C38). \<^verbatim>\<open>Command_Line\<close>: the commands of both programs and their exit status, over
    the cobra library as a parameter.
  \<^item> \<^verbatim>\<open>Replay\<close>: the recorder and the portal on one file system. This theory holds what spans components:
    routing from an agent's certificate to a user's dial (C28), revocation from the environment to the
    handshake (C39) and a cast from the terminal to the replay (C40).

  \<^bold>\<open>How code is modelled.\<close> A struct is a record, an error a value of \<^typ>\<open>go_error\<close>, a fallible call a sum, a loop a
  recursive function. Goroutines that share state are step relations over that state, and the theorems
  hold for every interleaving. A page is a list of fragments, template text and data with its escaper. Code
  of other modules enters as parameters: the SSH library's handshake and certificate checker, yamux, TLS, the
  journal client, the HTTP round trips, the \<^verbatim>\<open>tokyo3-base\<close> helpers and key parsing. Where a theorem relies on
  one of them, its hypothesis states the documented behaviour (for instance \<open>authenticate_spec\<close>) and the
  witness instantiates it.

  \<^bold>\<open>Bounds.\<close> Link resolution stops after 255 links and JSON nests at most 10000 deep, as in the standard library.
  The JSON scanner's element and member loops run at most as many rounds as the text has characters, which is
  proved enough (\<open>scan_elements_rounds\<close>, \<open>scan_members_rounds\<close>); all other functions are total by structural
  recursion or a measure, and no fuel is used. A reconnect loop runs over the list of answers the environment
  gives. Durations are int64 with wrap-around where the code multiplies them; float64 is a rounded rational
  without overflow to infinity, and the theorems that use it bound their operands.

  \<^bold>\<open>Not modelled.\<close> Logging; what delivers signals to the context; argument parsing and help of cobra; the parser
  of template texts (they are constants, taken apart by hand at their actions); HTTP path cleaning and content
  sniffing of \<^verbatim>\<open>net/http\<close>; struct declarations that only wrap a configuration. Time-of-check races between resolving
  and opening a cast are outside the model: an open acts on one state of the file system.
\<close>

section \<open>Routing, from the agent's certificate to the user's dial\<close>

lemma live_label_looked_up:
  assumes "distinct (map fst (tunnels r))" "abs_reg env r (normalize env h) = Some s"
  shows "fst (Lookup env r h) = Inr s"
  using Lookup_abs[OF assms(1), of env h] assms(2) by auto



section \<open>Revocation, from the environment to the handshake\<close>

lemma IsRevoked_Run:
  assumes "0 < pc_period p" "last_snapshot (first # polls) = Some s"
  shows "IsRevoked (fst (Run first polls p)) (Some c) = snapshot_revokes s c"
proof -
  obtain f now where f: "first = (f, now)" by fastforce
  have "pc_period (refresh f now p) = pc_period p" by (cases f) (simp_all add: refresh_def)
  then have "Run first polls p = (poll_runs (first # polls) p, False)" using assms(1) by (simp add: Run_def f)
  then show ?thesis using assms(2) by (simp only: fst_conv IsRevoked_poll_runs option.case)
qed


definition demo_poll_env :: environ where
  "demo_poll_env k = (if k = ''CERTD_REVOCATIONS_URL'' then ''https://certd/r'' else if k = ''CERTD_MTLS_CERT'' then ''/crt''
     else if k = ''CERTD_MTLS_KEY'' then ''/key'' else demo_env k)"

definition demo_poller :: polling_checker where
  "demo_poller = \<lparr>pc_url = ''https://certd/r'', pc_period = 30 * second, bySerial = Map.empty, byKeyID = Map.empty,
                  lastFetchTime = None, lastFetchErr = None\<rparr>"

lemma demo_poll_runServe:
  "\<exists>w. runServe demo_ext demo_poll_env (Inr ''/'') no_links demo_mint demo_disk = (Inr w, demo_disk) \<and>
       wiChecker w = PollingPtr (Some demo_poller)"
  by (simp add: runServe_def loadRecordingSink_def loadHostKey_def loadUserCA_def loadTargetHostKeyCallback_def demo_env_def
      demo_poll_env_def demo_ReadFile certdReloader_def buildTunnelServerTLS_def loadClientSignerFunc_def loadSSHPrivateKey_def
      buildTunnelListener_def buildRevocationChecker_def NewPollingChecker_def DefaultRevocationPollInterval_def setup_portal_def
      ssh_New_def demo_ext_def demo_poller_def second_def)


section \<open>Recording, from the terminal to the replay\<close>

text \<open>
  C40. What was recorded is what is replayed. Take a gateway started with recording and the portal on, on a
  file system without symbolic links, and not with the top directory as cast root. Whatever session channel
  its recorder starts on a file of an unbounded medium, and whatever follows, a request for the cast of the
  session whose announced path is the recorder's location answers 200 with exactly the header line and one
  line per recorded chunk and resize, in order.\<close>
theorem recording_replayed:
  assumes up: "runServe x env cwd no_links m f = (Inr wi, f1)" "wiPortal wi = Some pw" "pwCasts pw = Some st"
      "store_root st \<noteq> ''/''" "cwd = Inr d" "IsAbs d"
    and rec: "scRecordingSink (wiServer wi) = Some (crSink r)" "StartIfNeeded cols rows r w = (None, r1, w1)" "crRec r = None"
      "\<not> crClosed r" "crCast r1 = Some (CastFile p)" "quota (files w) p = None"
      "list_all (\<lambda>call. \<forall>q. faults (files w) call q = None) [''lstat'', ''stat'', ''open'']"
    and req: "ptCastStore (svCfg s) = Some (cast_Open st cwd' no_links (files (snd (cr_run ops (r1, w1)))))"
      "ptSessionStore (svCfg s) = Some sessions" "find (\<lambda>y. psSessionID y = sid) sessions = Some sess"
      "psRecordingPath sess = crLocation r1"
  shows "cast_reply
     (as_lines (json_enc (header_json \<lparr>Version = 2, Width = cols, Height = rows,
                 Timestamp = unix_seconds (crStartedAt r1), Title = crUser r @ ''@'' @ crHost r\<rparr>) #
        map ev_line (cast_events (crStartedAt r1) (clock w) (ticks w1) (map to_rec_op ops))))
     (finish (handleSessionCast s sid new_response))"
proof -
  let ?f = "files (snd (cr_run ops (r1, w1)))"
  from up(1) obtain sink cfg where sk: "loadRecordingSink env cwd f = (Inr sink, f1)" and pt: "setup_portal x env cwd no_links f1 = Inr (Some pw)"
    and n: "ssh_New cfg = Inr (wiServer wi)" "scRecordingSink cfg = map_option LocalDirSink sink"
    by (rule runServe_started) (use up(2) in auto)
  obtain k where k: "crSink r = LocalDirSink k" "sink = Some k"
    using ssh_New_Inr[OF n(1)] n(2) rec(1) by (cases sink) (auto dest: sym)
  have st: "NewLocalCastStore (env ''SSH_PROXYD_CAST_DIR'') cwd no_links f1 = Inr st" "env ''SSH_PROXYD_CAST_DIR'' \<noteq> []"
    using setup_portal_casts[OF pt up(3)] by auto
  have nk: "NewLocalDirSink (env ''SSH_PROXYD_CAST_DIR'') cwd f = (Inr k, f1)"
    using sk st(2) k(2) by (auto simp: loadRecordingSink_def and_then_Inr split: prod.splits)
  obtain rs where rs: "sink_root k = rooted_path rs" "store_root st = rooted_path rs" "list_all proper_elem rs"
    by (rule shared_root[OF nk st(1)]) (use up(5,6) in auto)
  have ne: "rs \<noteq> []" using up(4) rs(2) by (auto simp: rooted_path_def)
  obtain ts where ts: "p = rooted_path (rs @ ts)" "file_path ?f no_links (rs @ ts) (file_bytes ?f p)" "faults ?f = faults (files w)"
    using recorded_cast_file[OF rec(2-5) k(1) rs(1,3), of ops] by blast
  have op: "cast_Open st cwd' no_links ?f p = Inr (file_bytes ?f p, int (length (file_bytes ?f p)))"
    using cast_Open_physical[OF rs(2) ne ts(2)] ts(1,3) rec(7) by simp
  have b: "crLocation r1 = p" "file_bytes ?f p = as_lines (json_enc (header_json \<lparr>Version = 2, Width = cols, Height = rows,
                 Timestamp = unix_seconds (crStartedAt r1), Title = crUser r @ ''@'' @ crHost r\<rparr>) #
        map ev_line (cast_events (crStartedAt r1) (clock w) (ticks w1) (map to_rec_op ops)))"
    using started_channel_bytes[OF rec(2-6)] by blast+
  have "p \<noteq> []" using ts(1) by (simp add: rooted_path_def)
  have "cast_reply (file_bytes ?f p) (finish (handleSessionCast s sid new_response))"
    by (rule handleSessionCast_ok[OF req(2,1,3)]) (simp_all add: req(4) b(1) op \<open>p \<noteq> []\<close>)
  then show ?thesis using b(2) by simp
qed

definition demo_cast_env :: environ where
  "demo_cast_env k = (if k = ''SSH_PROXYD_CAST_DIR'' then ''/c'' else if k = ''SSH_PROXYD_PORTAL_ADDR'' then '':8080'' else demo_env k)"

definition demo_cast_disk :: fs where
  "demo_cast_disk = set_node ''/c'' FDir demo_disk"

lemma demo_cast_root:
  "NewLocalDirSink ''/c'' (Inr ''/'') demo_disk = (Inr demo_sink, demo_cast_disk)"
  "NewLocalCastStore ''/c'' (Inr ''/'') no_links demo_cast_disk = Inr \<lparr>store_root = ''/c''\<rparr>"
proof -
  have "parent_dirs [] (tl (split_on (CHR ''/'') ''/c'')) = [''/c'']" "node_at demo_disk ''/c'' = None" by code_simp+
  then have "MkdirAll ''/c'' demo_disk = (None, demo_cast_disk)"
    by (simp add: MkdirAll_def demo_cast_disk_def demo_disk_def demo_fs_def)
  moreover have "abs_or (Inr ''/'') ''/c'' = Inr ''/c''" by code_simp
  ultimately show "NewLocalDirSink ''/c'' (Inr ''/'') demo_disk = (Inr demo_sink, demo_cast_disk)"
    by (simp add: NewLocalDirSink_def demo_sink_def)
  show "NewLocalCastStore ''/c'' (Inr ''/'') no_links demo_cast_disk = Inr \<lparr>store_root = ''/c''\<rparr>" by code_simp
qed

lemma demo_cast_runServe:
  "\<exists>w pw. runServe demo_ext demo_cast_env (Inr ''/'') no_links demo_mint demo_disk = (Inr w, demo_cast_disk) \<and>
     wiPortal w = Some pw \<and> pwCasts pw = Some \<lparr>store_root = ''/c''\<rparr> \<and> scRecordingSink (wiServer w) = Some (LocalDirSink demo_sink)"
proof -
  have "ReadFile demo_cast_disk ''/ck'' = Inr ''key''" by code_simp
  moreover obtain pages where pg: "parsePages = Inr pages" using parsePages_ok by blast
  have "portal_New cfg = Inr \<lparr>svCfg = cfg, svPages = pages\<rparr>" for cfg unfolding portal_New_def pg sum.case ..
  ultimately show ?thesis
    by (simp add: runServe_def loadRecordingSink_def loadHostKey_def loadUserCA_def loadTargetHostKeyCallback_def demo_env_def
      demo_cast_env_def demo_ReadFile certdReloader_def buildTunnelServerTLS_def loadClientSignerFunc_def loadSSHPrivateKey_def
      buildTunnelListener_def buildRevocationChecker_def setup_portal_def loadPortalCastStore_def demo_cast_root
      ssh_New_def demo_ext_def)
qed

definition demo_session :: portal_session where
  "demo_session = \<lparr>psSessionID = ''a'', psUser = ''u'', psTarget = ''t'', psRemoteUser = ''r'', psPrincipals = ''p'',
     psClientIP = ''i'', psRecordingPath = demo_path, psCompletedAt = zero_time, psDuration = 0\<rparr>"

definition demo_replay :: "fs \<Rightarrow> portal_server" where
  "demo_replay f = \<lparr>svCfg = \<lparr>ptVersion = ''v'', ptSessionStore = Some [demo_session],
     ptCastStore = Some (cast_Open \<lparr>store_root = ''/c''\<rparr> (Inr ''/'') no_links f), ptAuditStore = None\<rparr>, svPages = \<lambda>_. None\<rparr>"

theorem recording_replayed_witness:
  "\<exists>r1 w1. StartIfNeeded 80 24 demo_cr demo_world = (None, r1, w1) \<and>
    cast_reply (as_lines (json_enc (header_json \<lparr>Version = 2, Width = 80, Height = 24,
                 Timestamp = unix_seconds (crStartedAt r1), Title = crUser demo_cr @ ''@'' @ crHost demo_cr\<rparr>) #
        map ev_line (cast_events (crStartedAt r1) (clock demo_world) (ticks w1) (map to_rec_op [COut ''hi'' 2, CClose]))))
     (finish (handleSessionCast (demo_replay (files (snd (cr_run [COut ''hi'' 2, CClose] (r1, w1))))) ''a'' new_response))"
proof -
  obtain r1 w1 where st: "StartIfNeeded 80 24 demo_cr demo_world = (None, r1, w1)" "crCast r1 = Some (CastFile demo_path)"
    using demo_start by blast
  obtain wi pw where up: "runServe demo_ext demo_cast_env (Inr ''/'') no_links demo_mint demo_disk = (Inr wi, demo_cast_disk)"
    "wiPortal wi = Some pw" "pwCasts pw = Some \<lparr>store_root = ''/c''\<rparr>" "scRecordingSink (wiServer wi) = Some (LocalDirSink demo_sink)"
    using demo_cast_runServe by blast
  have cr: "crRec demo_cr = None" "\<not> crClosed demo_cr" "crSink demo_cr = LocalDirSink demo_sink"
    by (simp_all add: demo_cr_def newChannelRecorder_def)
  have fs: "quota (files demo_world) demo_path = None" "list_all (\<lambda>call. \<forall>q. faults (files demo_world) call q = None) [''lstat'', ''stat'', ''open'']"
    by (simp_all add: demo_world_def demo_fs_def)
  have loc: "psRecordingPath demo_session = crLocation r1"
    using started_channel_bytes[OF st(1) cr(1,2) st(2) fs(1)] by (simp add: demo_session_def)
  show ?thesis
    using st(1) recording_replayed[OF up(1-3) _ refl _ _ st(1) cr(1,2) st(2) fs, of "demo_replay (files (snd (cr_run [COut ''hi'' 2, CClose] (r1, w1))))"
        "Inr ''/''" "[COut ''hi'' 2, CClose]" "[demo_session]" "''a''" demo_session] up(4) cr(3) loc
    by (intro exI[of _ r1] exI[of _ w1]) (simp add: demo_replay_def demo_session_def IsAbs_def HasPrefix_def)
qed

end
